(* ===== verification/Prelude.thy ===== *)
theory Prelude
  imports Main "HOL-Library.Word" "HOL-Library.Multiset"
begin

text \<open>
  Shared vocabulary of the development: the machine integers of the C++ code, the outcome of an
  operation that may throw or have undefined behaviour, the standard-library pieces the sources
  use (\<open>std::to_string\<close>, \<open>std::stoul\<close>, indexing, erasing and searching a
  \<open>std::vector\<close>), and the generic lemmas about them.
\<close>

unbundle bit_operations_syntax

section \<open>Collections of simplification rules\<close>

named_theorems cpp_simps
named_theorems db_simps
named_theorems wire_simps
named_theorems codec_simps

section \<open>Types\<close>

type_synonym uint8 = "8 word"
type_synonym uint16 = "16 word"
type_synonym uint32 = "32 word"
type_synonym uint64 = "64 word"

text \<open>
  What ends a call other than a normal return. \<open>Thrown_\<dots>\<close> are C++ exceptions of the
  standard library, \<open>UB_\<dots>\<close> name the undefined behaviour the code would run into, and
  \<open>Diverges\<close> is a loop that never ends.
\<close>

datatype cpp_error =
    UB_null_dereference
  | UB_index_out_of_range
  | UB_erase_at_end
  | UB_negative_array_size
  | UB_uninitialised_read
  | Thrown_length_error
  | Thrown_filesystem_error
  | Thrown_invalid_argument
  | Thrown_out_of_range
  | Diverges

type_synonym 'a result = "cpp_error + 'a"

section \<open>Sequencing of fallible operations\<close>

definition res_bind :: "'a result \<Rightarrow> ('a \<Rightarrow> 'b result) \<Rightarrow> 'b result" where
  "res_bind m k = (case m of Inl e \<Rightarrow> Inl e | Inr x \<Rightarrow> k x)"

lemma res_bind_simps [simp]:
  "res_bind (Inl e) k = Inl e"
  "res_bind (Inr x) k = k x"
  by (simp_all add: res_bind_def)

lemma res_bind_Inr_iff: "res_bind m k = Inr y \<longleftrightarrow> (\<exists>x. m = Inr x \<and> k x = Inr y)"
  by (cases m) simp_all

lemma res_bind_InrE [elim!]:
  assumes "res_bind m k = Inr y"
  obtains x where "m = Inr x" "k x = Inr y"
  using assms by (auto simp: res_bind_Inr_iff)

lemma res_bind_assoc: "res_bind (res_bind m f) g = res_bind m (\<lambda>x. res_bind (f x) g)"
  by (cases m) simp_all

lemma res_bind_cong [fundef_cong]:
  "m = m' \<Longrightarrow> (\<And>x. m' = Inr x \<Longrightarrow> k x = k' x) \<Longrightarrow> res_bind m k = res_bind m' k'"
  by (cases m') simp_all

text \<open>A range-based loop whose body may fail: it stops at the first failure.\<close>

fun res_fold :: "('a \<Rightarrow> 's \<Rightarrow> 's result) \<Rightarrow> 'a list \<Rightarrow> 's \<Rightarrow> 's result" where
  "res_fold f [] s = Inr s"
| "res_fold f (x # xs) s = res_bind (f x s) (res_fold f xs)"

lemma res_fold_append:
  "res_fold f (xs @ ys) s = res_bind (res_fold f xs s) (res_fold f ys)"
proof (induction xs arbitrary: s)
  case Nil
  then show ?case by simp
next
  case (Cons x xs)
  then show ?case by (cases "f x s") simp_all
qed

lemma res_fold_cong [fundef_cong]:
  "xs = ys \<Longrightarrow> s = t \<Longrightarrow> (\<And>x s. x \<in> set ys \<Longrightarrow> f x s = g x s) \<Longrightarrow> res_fold f xs s = res_fold g ys t"
proof (induction xs arbitrary: ys s t)
  case Nil
  then show ?case by auto
next
  case (Cons x xs)
  then show ?case
    by (auto intro!: res_bind_cong)
qed

text \<open>An invariant of the body is an invariant of the loop.\<close>

lemma res_fold_invariant:
  assumes "\<And>x s s'. x \<in> set xs \<Longrightarrow> P s \<Longrightarrow> f x s = Inr s' \<Longrightarrow> P s'"
    and "P s" and "res_fold f xs s = Inr s'"
  shows "P s'"
  using assms
proof (induction xs arbitrary: s)
  case Nil
  then show ?case by simp
next
  case (Cons x xs)
  from Cons.prems(3) obtain s1 where s1: "f x s = Inr s1" and rest: "res_fold f xs s1 = Inr s'"
    by auto
  have "P s1"
    using Cons.prems(1) [OF _ Cons.prems(2) s1] by simp
  show ?case
  proof (rule Cons.IH [OF _ \<open>P s1\<close> rest])
    fix y t t'
    assume "y \<in> set xs" "P t" "f y t = Inr t'"
    then show "P t'" using Cons.prems(1) [of y t t'] by simp
  qed
qed

lemma unat_inject [simp]: "unat a = unat b \<longleftrightarrow> a = b" for a b :: "'a::len word"
  by (simp add: word_eq_iff_unsigned [where ?'a = nat])

section \<open>std::vector\<close>

definition vec_at :: "'a list \<Rightarrow> nat \<Rightarrow> 'a result" where
  "vec_at xs i = (if i < length xs then Inr (xs ! i) else Inl UB_index_out_of_range)"

lemma vec_at_simps [simp]:
  "vec_at [] i = Inl UB_index_out_of_range"
  "vec_at (x # xs) 0 = Inr x"
  "vec_at (x # xs) (Suc i) = vec_at xs i"
  by (simp_all add: vec_at_def)

lemma vec_at_in [simp]: "i < length xs \<Longrightarrow> vec_at xs i = Inr (xs ! i)"
  by (simp add: vec_at_def)

text \<open>\<open>v.erase(v.begin() + i)\<close> is undefined at the end iterator.\<close>

definition vec_erase :: "nat \<Rightarrow> 'a list \<Rightarrow> 'a list result" where
  "vec_erase i xs = (if i < length xs then Inr (take i xs @ drop (Suc i) xs) else Inl UB_erase_at_end)"

text \<open>\<open>std::find(v.begin(), v.end(), x) - v.begin()\<close>: the length of the vector when absent.\<close>

fun vec_find :: "'a \<Rightarrow> 'a list \<Rightarrow> nat" where
  "vec_find x [] = 0"
| "vec_find x (y # ys) = (if x = y then 0 else Suc (vec_find x ys))"

lemma vec_find_le: "vec_find x xs \<le> length xs"
  by (induction xs) auto

lemma vec_find_less_iff: "vec_find x xs < length xs \<longleftrightarrow> x \<in> set xs"
  by (induction xs) auto

lemma vec_find_eq_length_iff: "vec_find x xs = length xs \<longleftrightarrow> x \<notin> set xs"
  by (metis less_irrefl nat_less_le vec_find_le vec_find_less_iff)

lemma nth_vec_find: "x \<in> set xs \<Longrightarrow> xs ! vec_find x xs = x"
  by (induction xs) auto

lemma vec_erase_find:
  "x \<in> set xs \<Longrightarrow> vec_erase (vec_find x xs) xs = Inr (remove1 x xs)"
  by (induction xs) (auto simp: vec_erase_def split: if_splits)

lemma vec_erase_length:
  "vec_erase i xs = Inr ys \<Longrightarrow> length ys = length xs - 1"
  by (auto simp: vec_erase_def split: if_splits)

section \<open>std::to_string and std::stoul\<close>

definition digit_char :: "nat \<Rightarrow> char" where
  "digit_char d = char_of (48 + d)"

fun to_string :: "nat \<Rightarrow> string" where
  "to_string n = (if n < 10 then [digit_char n] else to_string (n div 10) @ [digit_char (n mod 10)])"

declare to_string.simps [simp del]

text \<open>The value of a digit, as \<open>strtoul\<close> reads it in a base up to 36.\<close>

definition digit_value :: "char \<Rightarrow> nat option" where
  "digit_value c =
     (let n = of_char c in
      if 48 \<le> n \<and> n \<le> 57 then Some (n - 48)
      else if 97 \<le> n \<and> n \<le> 122 then Some (n - 87)
      else if 65 \<le> n \<and> n \<le> 90 then Some (n - 55)
      else None)"

definition is_digit_in :: "nat \<Rightarrow> char \<Rightarrow> bool" where
  "is_digit_in base c = (case digit_value c of None \<Rightarrow> False | Some d \<Rightarrow> d < base)"

definition is_space :: "char \<Rightarrow> bool" where
  "is_space c = (of_char c = (32::nat) \<or> (9 \<le> (of_char c :: nat) \<and> (of_char c :: nat) \<le> 13))"

definition digits_value :: "nat \<Rightarrow> string \<Rightarrow> nat" where
  "digits_value base cs = foldl (\<lambda>acc c. acc * base + (case digit_value c of None \<Rightarrow> 0 | Some d \<Rightarrow> d)) 0 cs"

text \<open>
  \<open>std::stoul(s, nullptr, 0)\<close>: white space, a sign, the base from the prefix (\<open>0x\<close> is
  sixteen, \<open>0\<close> is eight, ten otherwise), then as many digits as there are. No digit throws
  \<open>invalid_argument\<close>, a value above \<open>ULONG_MAX\<close> throws \<open>out_of_range\<close>.
\<close>

definition stoul_base :: "string \<Rightarrow> nat \<times> string" where
  "stoul_base cs =
     (case cs of
        c0 # c1 # c2 # rest \<Rightarrow>
          if c0 = CHR ''0'' \<and> (c1 = CHR ''x'' \<or> c1 = CHR ''X'') \<and> is_digit_in 16 c2
          then (16, c2 # rest)
          else if c0 = CHR ''0'' then (8, cs) else (10, cs)
      | c0 # rest \<Rightarrow> if c0 = CHR ''0'' then (8, cs) else (10, cs)
      | [] \<Rightarrow> (10, cs))"

definition stoul :: "string \<Rightarrow> uint64 result" where
  "stoul s =
     (let s1 = dropWhile is_space s;
          (neg, s2) = (case s1 of
             c # cs \<Rightarrow> if c = CHR ''-'' then (True, cs) else if c = CHR ''+'' then (False, cs) else (False, s1)
           | [] \<Rightarrow> (False, s1));
          (base, s3) = stoul_base s2;
          ds = takeWhile (is_digit_in base) s3;
          v = digits_value base ds
      in if ds = [] then Inl Thrown_invalid_argument
         else if 2 ^ 64 \<le> v then Inl Thrown_out_of_range
         else Inr (if neg then - of_nat v else of_nat v))"

section \<open>Decimal round trip\<close>

lemma of_char_digit_char [simp]: "d < 10 \<Longrightarrow> of_char (digit_char d) = 48 + d"
  by (simp add: digit_char_def)

lemma digit_value_digit_char [simp]: "d < 10 \<Longrightarrow> digit_value (digit_char d) = Some d"
  by (simp add: digit_value_def Let_def)

lemma is_digit_in_digit_char [simp]: "d < 10 \<Longrightarrow> is_digit_in 10 (digit_char d)"
  by (simp add: is_digit_in_def)

lemma digit_char_eq_iff: "d < 10 \<Longrightarrow> e < 10 \<Longrightarrow> digit_char d = digit_char e \<longleftrightarrow> d = e"
  using digit_value_digit_char by (metis option.inject)

lemma to_string_small: "n < 10 \<Longrightarrow> to_string n = [digit_char n]"
  by (subst to_string.simps) simp

lemma to_string_big: "10 \<le> n \<Longrightarrow> to_string n = to_string (n div 10) @ [digit_char (n mod 10)]"
  by (subst to_string.simps) simp

lemma to_string_not_Nil [simp]: "to_string n \<noteq> []"
  by (subst to_string.simps) simp

lemma to_string_digits: "c \<in> set (to_string n) \<Longrightarrow> \<exists>d < 10. c = digit_char d"
proof (induction n rule: to_string.induct)
  case (1 n)
  show ?case
  proof (cases "n < 10")
    case True
    with "1.prems" show ?thesis by (auto simp: to_string_small)
  next
    case False
    with "1.prems" have "c \<in> set (to_string (n div 10)) \<or> c = digit_char (n mod 10)"
      by (auto simp: to_string_big)
    with "1.IH" [OF False] show ?thesis
      by (auto intro: exI [of _ "n mod 10"])
  qed
qed

lemma to_string_is_digit: "c \<in> set (to_string n) \<Longrightarrow> is_digit_in 10 c"
  by (auto dest: to_string_digits)

lemma digits_value_append:
  "digits_value b (cs @ [c]) = digits_value b cs * b + (case digit_value c of None \<Rightarrow> 0 | Some d \<Rightarrow> d)"
  by (simp add: digits_value_def)

lemma digits_value_to_string [simp]: "digits_value 10 (to_string n) = n"
proof (induction n rule: to_string.induct)
  case (1 n)
  show ?case
  proof (cases "n < 10")
    case True
    then show ?thesis by (simp add: to_string_small digits_value_def)
  next
    case False
    with "1.IH" show ?thesis
      by (simp add: to_string_big digits_value_append)
  qed
qed

lemma to_string_inject [simp]: "to_string m = to_string n \<longleftrightarrow> m = n"
  by (metis digits_value_to_string)

lemma hd_to_string: "0 < n \<Longrightarrow> \<exists>d. 0 < d \<and> d < 10 \<and> hd (to_string n) = digit_char d"
proof (induction n rule: to_string.induct)
  case (1 n)
  show ?case
  proof (cases "n < 10")
    case True
    with "1.prems" show ?thesis by (auto simp: to_string_small)
  next
    case False
    then have "0 < n div 10" by simp
    with "1.IH" [OF False] False show ?thesis
      by (simp add: to_string_big)
  qed
qed

lemma hd_to_string_plain:
  "\<not> is_space (hd (to_string n))" "hd (to_string n) \<noteq> CHR ''-''" "hd (to_string n) \<noteq> CHR ''+''"
proof -
  have "hd (to_string n) \<in> set (to_string n)" by simp
  then obtain d where d: "d < 10" "hd (to_string n) = digit_char d"
    using to_string_digits by blast
  have c: "of_char (hd (to_string n)) = 48 + d"
    using d by simp
  show "\<not> is_space (hd (to_string n))"
    using c by (simp add: is_space_def)
  show "hd (to_string n) \<noteq> CHR ''-''"
  proof
    assume "hd (to_string n) = CHR ''-''"
    with c have "(45::nat) = 48 + d" by simp
    then show False by simp
  qed
  show "hd (to_string n) \<noteq> CHR ''+''"
  proof
    assume "hd (to_string n) = CHR ''+''"
    with c have "(43::nat) = 48 + d" by simp
    then show False by simp
  qed
qed

lemma dash_notin_to_string [simp]: "CHR ''-'' \<notin> set (to_string n)"
proof
  assume "CHR ''-'' \<in> set (to_string n)"
  then obtain d where "d < 10" "CHR ''-'' = digit_char d" using to_string_digits by blast
  then have "(of_char (CHR ''-'') :: nat) = 48 + d" by simp
  then show False by simp
qed

lemma digit_char_neq_zero_char: "0 < d \<Longrightarrow> d < 10 \<Longrightarrow> digit_char d \<noteq> CHR ''0''"
proof
  assume d: "0 < d" "d < 10" and "digit_char d = CHR ''0''"
  then have "48 + d = of_char (CHR ''0'')"
    by (metis of_char_digit_char)
  with d show False by simp
qed

lemma stoul_base_to_string:
  assumes "0 < n"
  shows "stoul_base (to_string n) = (10, to_string n)"
proof -
  obtain c cs where eq: "to_string n = c # cs"
    by (cases "to_string n") auto
  from hd_to_string [OF assms] obtain d where "0 < d" "d < 10" "hd (to_string n) = digit_char d"
    by blast
  with eq digit_char_neq_zero_char [of d] have "c \<noteq> CHR ''0''"
    by simp
  then show ?thesis
    unfolding eq stoul_base_def by (auto split: list.splits)
qed

lemma takeWhile_to_string: "takeWhile (is_digit_in 10) (to_string n) = to_string n"
  by (simp add: takeWhile_eq_all_conv to_string_is_digit)

lemma dropWhile_space_to_string: "dropWhile is_space (to_string n) = to_string n"
  using hd_to_string_plain(1) [of n] by (cases "to_string n") simp_all

lemma sign_to_string:
  "(case to_string n of
      c # cs \<Rightarrow> if c = CHR ''-'' then (True, cs) else if c = CHR ''+'' then (False, cs) else (False, to_string n)
    | [] \<Rightarrow> (False, to_string n)) = (False, to_string n)"
  using hd_to_string_plain(2,3) [of n] by (cases "to_string n") simp_all

text \<open>Printing and reading back a number below \<open>2 ^ 64\<close>, in the automatic base.\<close>

lemma stoul_to_string:
  assumes "n < 2 ^ 64"
  shows "stoul (to_string n) = Inr (of_nat n)"
proof (cases "n = 0")
  case True
  have "digit_char 0 = CHR ''0''"
    unfolding digit_char_def by code_simp
  with True have "to_string n = ''0''"
    by (simp add: to_string_small)
  then show ?thesis
    using True
    by (simp add: stoul_def is_space_def stoul_base_def is_digit_in_def digit_value_def
        digits_value_def)
next
  case False
  then show ?thesis
    using assms
    by (simp add: stoul_def Let_def dropWhile_space_to_string sign_to_string
        stoul_base_to_string takeWhile_to_string)
qed

end
