(* ===== verification/Fips_Constants.thy ===== *)
theory Fips_Constants
  imports Complex_Main Prelude
begin

text \<open>
  The constants of SHA-256 the way FIPS 180-4 describes them in words: the first 32 bits of the fractional parts of the
  cube roots of the first 64 primes, and of the square roots of the first eight. What the code has instead are two tables of
  numerals; that such a table holds the digits of roots follows from two inequalities between integers for each of its entries.
\<close>

section \<open>The description\<close>

definition fraction_bits :: "real \<Rightarrow> uint32" where
  "fraction_bits x = of_int \<lfloor>frac x * 2 ^ 32\<rfloor>"

text \<open>The primes, by the sieve of Eratosthenes.\<close>

function sieve :: "nat list \<Rightarrow> nat list" where
  "sieve [] = []"
| "sieve (p # ns) = p # sieve (filter (\<lambda>n. \<not> p dvd n) ns)"
  by pat_completeness auto
termination by (relation "measure length") (auto simp: le_imp_less_Suc)

definition first_primes :: "nat list" where
  "first_primes = take 64 (sieve [2..<320])"

definition fips_K :: "nat \<Rightarrow> uint32" where
  "fips_K t = fraction_bits (root 3 (real (first_primes ! t)))"

definition fips_H :: "nat \<Rightarrow> uint32" where
  "fips_H j = fraction_bits (root 2 (real (first_primes ! j)))"

section \<open>Digits of roots\<close>

lemma root_between:
  assumes "0 < k" "m ^ k \<le> p * 2 ^ (32 * k)" "p * 2 ^ (32 * k) < Suc m ^ k"
  shows "\<lfloor>root k (real p) * 2 ^ 32\<rfloor> = int m"
proof -
  let ?x = "root k (real p) * 2 ^ 32"
  have x: "0 \<le> ?x" "?x ^ k = real (p * 2 ^ (32 * k))"
    using assms(1) by (simp_all add: power_mult_distrib power_mult)
  have "real m ^ k \<le> ?x ^ k" "?x ^ k < real (Suc m) ^ k"
    unfolding x(2) using assms(2,3) by (simp_all only: of_nat_le_iff of_nat_less_iff flip: of_nat_power)
  then have "real m \<le> ?x" "?x < real (Suc m)"
    using assms(1) x(1) power_mono_iff [of "real m" ?x k] power_less_imp_less_base [of ?x k "real (Suc m)"] by simp_all
  then show ?thesis by (simp add: floor_unique)
qed

lemma fraction_bits_root:
  assumes "0 < k" "d < 2 ^ 32" "(q * 2 ^ 32 + d) ^ k \<le> p * 2 ^ (32 * k)" "p * 2 ^ (32 * k) < Suc (q * 2 ^ 32 + d) ^ k"
  shows "fraction_bits (root k (real p)) = of_nat d"
proof -
  let ?x = "root k (real p)"
  have f: "\<lfloor>?x * 2 ^ 32\<rfloor> = int (q * 2 ^ 32 + d)" by (rule root_between [OF assms(1,3,4)])
  then have "real (q * 2 ^ 32 + d) \<le> ?x * 2 ^ 32" "?x * 2 ^ 32 < real (q * 2 ^ 32 + d) + 1"
    by (metis of_int_floor_le of_int_of_nat_eq, metis floor_correct of_int_1 of_int_add of_int_of_nat_eq)
  moreover have "real (q * 2 ^ 32) \<le> real (q * 2 ^ 32 + d)" "real (q * 2 ^ 32 + d) + 1 \<le> real (Suc q * 2 ^ 32)"
    using assms(2) by simp_all
  ultimately have "\<lfloor>?x\<rfloor> = int q" by (simp add: floor_unique)
  then have "frac ?x * 2 ^ 32 = ?x * 2 ^ 32 - of_int (int q * 2 ^ 32)" by (simp add: frac_def algebra_simps)
  then have "\<lfloor>frac ?x * 2 ^ 32\<rfloor> = \<lfloor>?x * 2 ^ 32\<rfloor> - int q * 2 ^ 32" by (simp only: floor_diff_of_int)
  with f have "\<lfloor>frac ?x * 2 ^ 32\<rfloor> = int d" by simp
  then show ?thesis by (simp add: fraction_bits_def)
qed

text \<open>The integer part of a small root, by counting.\<close>

definition root_part :: "nat \<Rightarrow> nat \<Rightarrow> nat" where
  "root_part k p = Suc (length (filter (\<lambda>i. i ^ k \<le> p) [2..<8]))"

definition root_digits :: "nat \<Rightarrow> nat \<Rightarrow> nat \<Rightarrow> bool" where
  "root_digits k p d \<longleftrightarrow> (let m = root_part k p * 2 ^ 32 + d in d < 2 ^ 32 \<and> m ^ k \<le> p * 2 ^ (32 * k) \<and> p * 2 ^ (32 * k) < Suc m ^ k)"

lemma root_digits_nth:
  assumes "0 < k" "list_all2 (root_digits k) ps ds" "t < length ds"
  shows "fraction_bits (root k (real (ps ! t))) = of_nat (ds ! t)"
  using list_all2_nthD2 [OF assms(2,3)] fraction_bits_root [OF assms(1)] unfolding root_digits_def Let_def by blast

lemma first_primes_eval: "first_primes =
  [2, 3, 5, 7, 11, 13, 17, 19, 23, 29, 31, 37, 41, 43, 47, 53, 59, 61, 67, 71, 73, 79, 83, 89, 97, 101, 103, 107, 109, 113, 127, 131,
   137, 139, 149, 151, 157, 163, 167, 173, 179, 181, 191, 193, 197, 199, 211, 223, 227, 229, 233, 239, 241, 251, 257, 263, 269, 271,
   277, 281, 283, 293, 307, 311]"
  by (simp add: first_primes_def)

end
