(* ===== verification/Crypto.thy ===== *)
theory Crypto
  imports Fips_Constants
begin

text \<open>
  The hash of \<open>core/src/crypto/cryptcrypto.cpp\<close>, as the code computes it: a streaming
  SHA-256 over a 64 byte buffer, and then the sum of the 32 digest bytes. Fixed-size C arrays are
  lists; the two automatic variables the code never initialises, the block buffer \<open>m_data\<close>
  and the accumulator \<open>hashd\<close>, start with whatever the stack holds, a parameter
  \<open>garbage\<close>. The second half states SHA-256 as FIPS 180-4 does, with the constants
  of \<open>Fips_Constants\<close>, and proves that the streaming code computes it.
\<close>

section \<open>The code\<close>

definition K :: "uint32 list" where
  "K = concat
     [[0x428a2f98, 0x71374491, 0xb5c0fbcf, 0xe9b5dba5],
      [0x3956c25b, 0x59f111f1, 0x923f82a4, 0xab1c5ed5],
      [0xd807aa98, 0x12835b01, 0x243185be, 0x550c7dc3],
      [0x72be5d74, 0x80deb1fe, 0x9bdc06a7, 0xc19bf174],
      [0xe49b69c1, 0xefbe4786, 0x0fc19dc6, 0x240ca1cc],
      [0x2de92c6f, 0x4a7484aa, 0x5cb0a9dc, 0x76f988da],
      [0x983e5152, 0xa831c66d, 0xb00327c8, 0xbf597fc7],
      [0xc6e00bf3, 0xd5a79147, 0x06ca6351, 0x14292967],
      [0x27b70a85, 0x2e1b2138, 0x4d2c6dfc, 0x53380d13],
      [0x650a7354, 0x766a0abb, 0x81c2c92e, 0x92722c85],
      [0xa2bfe8a1, 0xa81a664b, 0xc24b8b70, 0xc76c51a3],
      [0xd192e819, 0xd6990624, 0xf40e3585, 0x106aa070],
      [0x19a4c116, 0x1e376c08, 0x2748774c, 0x34b0bcb5],
      [0x391c0cb3, 0x4ed8aa4a, 0x5b9cca4f, 0x682e6ff3],
      [0x748f82ee, 0x78a5636f, 0x84c87814, 0x8cc70208],
      [0x90befffa, 0xa4506ceb, 0xbef9a3f7, 0xc67178f2]]"

definition rotr :: "uint32 \<Rightarrow> nat \<Rightarrow> uint32" where
  "rotr x n = (drop_bit n x) OR (push_bit (32 - n) x)"

definition choose32 :: "uint32 \<Rightarrow> uint32 \<Rightarrow> uint32 \<Rightarrow> uint32" where
  "choose32 e f g = (e AND f) XOR (NOT e AND g)"

definition majority :: "uint32 \<Rightarrow> uint32 \<Rightarrow> uint32 \<Rightarrow> uint32" where
  "majority a b c = (a AND (b OR c)) OR (b AND c)"

definition sig0 :: "uint32 \<Rightarrow> uint32" where
  "sig0 x = rotr x 7 XOR rotr x 18 XOR drop_bit 3 x"

definition sig1 :: "uint32 \<Rightarrow> uint32" where
  "sig1 x = rotr x 17 XOR rotr x 19 XOR drop_bit 10 x"

text \<open>The first loop of \<open>transform\<close>: sixteen big-endian words of the block.\<close>

definition load_word :: "uint8 list \<Rightarrow> nat \<Rightarrow> uint32" where
  "load_word m_data j =
     push_bit 24 (ucast (m_data ! j)) OR push_bit 16 (ucast (m_data ! (j + 1)))
     OR push_bit 8 (ucast (m_data ! (j + 2))) OR ucast (m_data ! (j + 3))"

definition load_words :: "uint8 list \<Rightarrow> uint32 list" where
  "load_words m_data = map (\<lambda>i. load_word m_data (4 * i)) [0..<16]"

text \<open>The second loop: the array \<open>m\<close> grows to 64 words.\<close>

definition schedule_step :: "nat \<Rightarrow> uint32 list \<Rightarrow> uint32 list" where
  "schedule_step k m = m @ [sig1 (m ! (k - 2)) + m ! (k - 7) + sig0 (m ! (k - 15)) + m ! (k - 16)]"

definition schedule :: "uint8 list \<Rightarrow> uint32 list" where
  "schedule m_data = fold schedule_step [16..<64] (load_words m_data)"

text \<open>One round of the third loop.\<close>

definition round_step :: "uint32 list \<Rightarrow> nat \<Rightarrow> uint32 list \<Rightarrow> uint32 list" where
  "round_step m i state =
     (let maj = majority (state ! 0) (state ! 1) (state ! 2);
          xorA = rotr (state ! 0) 2 XOR rotr (state ! 0) 13 XOR rotr (state ! 0) 22;
          ch = choose32 (state ! 4) (state ! 5) (state ! 6);
          xorE = rotr (state ! 4) 6 XOR rotr (state ! 4) 11 XOR rotr (state ! 4) 25;
          sum = m ! i + K ! i + state ! 7 + ch + xorE;
          newA = xorA + maj + sum;
          newE = state ! 3 + sum
      in [newA, state ! 0, state ! 1, state ! 2, newE, state ! 4, state ! 5, state ! 6])"

definition transform :: "uint32 list \<Rightarrow> uint8 list \<Rightarrow> uint32 list" where
  "transform m_state m_data =
     map2 (+) m_state (fold (round_step (schedule m_data)) [0..<64] m_state)"

text \<open>\<open>while (i < end) m_data[i++] = 0x00\<close>\<close>

function zero_fill :: "nat \<Rightarrow> nat \<Rightarrow> uint8 list \<Rightarrow> uint8 list" where
  "zero_fill i e m_data = (if i < e then zero_fill (Suc i) e (m_data[i := 0]) else m_data)"
  by pat_completeness auto
termination
  by (relation "measure (\<lambda>(i, e, m_data). e - i)") auto

declare zero_fill.simps [simp del]

definition memset_zero :: "nat \<Rightarrow> uint8 list \<Rightarrow> uint8 list" where
  "memset_zero n m_data = replicate n 0 @ drop n m_data"

text \<open>The eight bytes of the message length, the most significant at index 56.\<close>

definition store_bitlen :: "uint64 \<Rightarrow> uint8 list \<Rightarrow> uint8 list" where
  "store_bitlen m_bitlen m_data =
     m_data[63 := ucast m_bitlen, 62 := ucast (drop_bit 8 m_bitlen),
            61 := ucast (drop_bit 16 m_bitlen), 60 := ucast (drop_bit 24 m_bitlen),
            59 := ucast (drop_bit 32 m_bitlen), 58 := ucast (drop_bit 40 m_bitlen),
            57 := ucast (drop_bit 48 m_bitlen), 56 := ucast (drop_bit 56 m_bitlen)]"

definition pad :: "uint32 list \<Rightarrow> uint8 list \<Rightarrow> nat \<Rightarrow> uint64 \<Rightarrow> uint32 list" where
  "pad m_state m_data m_blocklen m_bitlen =
     (let e = (if m_blocklen < 56 then 56 else 64);
          d1 = zero_fill (Suc m_blocklen) e (m_data[m_blocklen := 0x80]);
          (st, d2) = (if m_blocklen \<ge> 56 then (transform m_state d1, memset_zero 56 d1)
                      else (m_state, d1));
          bits = m_bitlen + of_nat (m_blocklen * 8)
      in transform st (store_bitlen bits d2))"

text \<open>\<open>revert\<close>: two nested loops fill the 32 bytes of \<open>hash\<close>.\<close>

definition revert_cell :: "uint32 list \<Rightarrow> nat \<Rightarrow> nat \<Rightarrow> uint8 list \<Rightarrow> uint8 list" where
  "revert_cell m_state i j hash =
     hash[i + j * 4 := ucast (drop_bit (24 - i * 8) (m_state ! j) AND 0x000000ff)]"

definition revert :: "uint8 list \<Rightarrow> uint32 list \<Rightarrow> uint8 list" where
  "revert hash m_state =
     fold (\<lambda>i h. fold (\<lambda>j. revert_cell m_state i j) [0..<8] h) [0..<4] hash"

record garbage =
  g_data :: "nat \<Rightarrow> uint8"
  g_digest :: "nat \<Rightarrow> uint8"
  g_hashd :: uint32

definition H0 :: "uint32 list" where
  "H0 = [0x6a09e667, 0xbb67ae85, 0x3c6ef372, 0xa54ff53a,
         0x510e527f, 0x9b05688c, 0x1f83d9ab, 0x5be0cd19]"

record hash_state =
  m_state :: "uint32 list"
  m_data :: "uint8 list"
  m_blocklen :: nat
  m_bitlen :: uint64

definition hash_byte :: "char \<Rightarrow> hash_state \<Rightarrow> hash_state" where
  "hash_byte c s =
     (let s1 = s\<lparr>m_data := (m_data s)[m_blocklen s := of_char c], m_blocklen := Suc (m_blocklen s)\<rparr>
      in if m_blocklen s1 = 64
         then s1\<lparr>m_state := transform (m_state s1) (m_data s1),
                 m_bitlen := m_bitlen s1 + 512, m_blocklen := 0\<rparr>
         else s1)"

definition hash_digest :: "garbage \<Rightarrow> string \<Rightarrow> uint8 list" where
  "hash_digest g message =
     (let s0 = \<lparr>m_state = H0, m_data = map (g_data g) [0..<64], m_blocklen = 0, m_bitlen = 0\<rparr>;
          s = fold hash_byte message s0
      in revert (map (g_digest g) [0..<32]) (pad (m_state s) (m_data s) (m_blocklen s) (m_bitlen s)))"

definition CryptCrypto_hash :: "garbage \<Rightarrow> string \<Rightarrow> uint32" where
  "CryptCrypto_hash g message =
     fold (\<lambda>b hashd. hashd + ucast b) (hash_digest g message) (g_hashd g)"

section \<open>SHA-256 as FIPS 180-4 states it\<close>

text \<open>Rotations and the six logical functions, over the library's word rotation.\<close>

definition fips_Ch :: "uint32 \<Rightarrow> uint32 \<Rightarrow> uint32 \<Rightarrow> uint32" where
  "fips_Ch x y z = (x AND y) XOR (NOT x AND z)"

definition fips_Maj :: "uint32 \<Rightarrow> uint32 \<Rightarrow> uint32 \<Rightarrow> uint32" where
  "fips_Maj x y z = (x AND y) XOR (x AND z) XOR (y AND z)"

definition fips_Sigma0 :: "uint32 \<Rightarrow> uint32" where
  "fips_Sigma0 x = word_rotr 2 x XOR word_rotr 13 x XOR word_rotr 22 x"

definition fips_Sigma1 :: "uint32 \<Rightarrow> uint32" where
  "fips_Sigma1 x = word_rotr 6 x XOR word_rotr 11 x XOR word_rotr 25 x"

definition fips_sigma0 :: "uint32 \<Rightarrow> uint32" where
  "fips_sigma0 x = word_rotr 7 x XOR word_rotr 18 x XOR drop_bit 3 x"

definition fips_sigma1 :: "uint32 \<Rightarrow> uint32" where
  "fips_sigma1 x = word_rotr 17 x XOR word_rotr 19 x XOR drop_bit 10 x"

text \<open>Numbers as big-endian byte strings, and back.\<close>

definition be_word :: "uint8 list \<Rightarrow> uint32" where
  "be_word bs = of_nat (foldl (\<lambda>n b. 256 * n + unat b) 0 bs)"

definition be_bytes :: "nat \<Rightarrow> nat \<Rightarrow> uint8 list" where
  "be_bytes k n = map (\<lambda>i. of_nat (n div 256 ^ (k - 1 - i))) [0..<k]"

text \<open>The message schedule of a block.\<close>

fun fips_W :: "uint8 list \<Rightarrow> nat \<Rightarrow> uint32" where
  "fips_W M t =
     (if t < 16 then be_word [M ! (4 * t), M ! (4 * t + 1), M ! (4 * t + 2), M ! (4 * t + 3)]
      else fips_sigma1 (fips_W M (t - 2)) + fips_W M (t - 7) + fips_sigma0 (fips_W M (t - 15))
           + fips_W M (t - 16))"

declare fips_W.simps [simp del]

type_synonym sha_state = "uint32 \<times> uint32 \<times> uint32 \<times> uint32 \<times> uint32 \<times> uint32 \<times> uint32 \<times> uint32"

fun fips_round :: "uint8 list \<Rightarrow> nat \<Rightarrow> sha_state \<Rightarrow> sha_state" where
  "fips_round M t (a, b, c, d, e, f, g, h) =
     (let T1 = h + fips_Sigma1 e + fips_Ch e f g + fips_K t + fips_W M t;
          T2 = fips_Sigma0 a + fips_Maj a b c
      in (T1 + T2, a, b, c, d + T1, e, f, g))"

fun fips_add :: "sha_state \<Rightarrow> sha_state \<Rightarrow> sha_state" where
  "fips_add (a, b, c, d, e, f, g, h) (a', b', c', d', e', f', g', h') =
     (a + a', b + b', c + c', d + d', e + e', f + f', g + g', h + h')"

definition fips_block :: "uint8 list \<Rightarrow> sha_state \<Rightarrow> sha_state" where
  "fips_block M s = fips_add s (fold (fips_round M) [0..<64] s)"

fun chunks64 :: "uint8 list \<Rightarrow> uint8 list list" where
  "chunks64 xs = (if xs = [] then [] else take 64 xs # chunks64 (drop 64 xs))"

declare chunks64.simps [simp del]

text \<open>Padding: a one bit, zeros up to 448 modulo 512, and the length in bits.\<close>

definition fips_length :: "nat \<Rightarrow> uint8 list" where
  "fips_length n = be_bytes 8 (8 * n)"

definition fips_pad :: "uint8 list \<Rightarrow> uint8 list" where
  "fips_pad M = M @ [0x80] @ replicate ((119 - length M mod 64) mod 64) 0 @ fips_length (length M)"

fun fips_bytes :: "sha_state \<Rightarrow> uint8 list" where
  "fips_bytes (a, b, c, d, e, f, g, h) = concat (map (\<lambda>w. be_bytes 4 (unat w)) [a, b, c, d, e, f, g, h])"

definition fips_H0 :: sha_state where
  "fips_H0 = (fips_H 0, fips_H 1, fips_H 2, fips_H 3, fips_H 4, fips_H 5, fips_H 6, fips_H 7)"

definition sha256 :: "uint8 list \<Rightarrow> uint8 list" where
  "sha256 M = fips_bytes (fold fips_block (chunks64 (fips_pad M)) fips_H0)"

section \<open>The code computes it\<close>

text \<open>The tables of the code hold the digits of the roots.\<close>

lemma length_K: "length K = 64"
  by (simp add: K_def)

lemma length_H0: "length H0 = 8"
  by (simp add: H0_def)

lemma K_digits: "list_all2 (root_digits 3) first_primes (map unat K)"
  by (simp add: K_def first_primes_eval root_digits_def root_part_def)

lemma H0_digits: "list_all2 (root_digits 2) (take 8 first_primes) (map unat H0)"
  by (simp add: H0_def first_primes_eval root_digits_def root_part_def)

lemma fips_K_nth: "t < 64 \<Longrightarrow> fips_K t = K ! t"
  using root_digits_nth [OF _ K_digits, of t] by (simp add: fips_K_def length_K)

lemma fips_H0_eq: "fips_H0 = (0x6a09e667, 0xbb67ae85, 0x3c6ef372, 0xa54ff53a, 0x510e527f, 0x9b05688c, 0x1f83d9ab, 0x5be0cd19)"
proof -
  have "fips_H j = H0 ! j" if "j < 8" for j
    using root_digits_nth [OF _ H0_digits, of j] that length_H0 by (simp add: fips_H_def)
  then show ?thesis by (simp add: fips_H0_def H0_def)
qed

lemma rotr_word_rotr:
  assumes "0 < m" "m < 32"
  shows "rotr x m = word_rotr m x"
proof (rule bit_word_eqI)
  fix n
  assume "n < LENGTH(32)"
  then have n: "n < 32" by simp
  show "bit (rotr x m) n = bit (word_rotr m x) n"
  proof (cases "n + m < 32")
    case True
    with n have "\<not> 32 - m \<le> n" by linarith
    with True n show ?thesis by (simp add: rotr_def bit_simps add.commute)
  next
    case False
    then have "\<not> bit x (n + m)"
      using bit_imp_le_length [of x "n + m"] by auto
    moreover have "(n + m) mod 32 = n - (32 - m)"
      using False n assms by (simp add: mod_if)
    ultimately show ?thesis
      using False n assms by (auto simp: rotr_def bit_simps add.commute)
  qed
qed

lemma ucast_byte_bit: "bit (ucast (b :: uint8) :: uint32) n \<longleftrightarrow> bit b n"
  using bit_imp_le_length [of b n] by (auto simp: bit_simps)

lemma load_word_be:
  "load_word M j = be_word [M ! j, M ! (j + 1), M ! (j + 2), M ! (j + 3)]"
proof -
  let ?a = "ucast (M ! j) :: uint32" and ?b = "ucast (M ! (j + 1)) :: uint32"
    and ?c = "ucast (M ! (j + 2)) :: uint32" and ?d = "ucast (M ! (j + 3)) :: uint32"
  have hi: "\<not> bit (w :: uint8) n" if "8 \<le> n" for w n
    using bit_imp_le_length [of w n] that by auto
  have 1: "push_bit 8 ?c OR ?d = push_bit 8 ?c + ?d"
    by (rule disjunctive_add [symmetric]) (auto simp: bit_simps ucast_byte_bit hi not_le)
  have 2: "push_bit 16 ?b OR (push_bit 8 ?c OR ?d) = push_bit 16 ?b + (push_bit 8 ?c OR ?d)"
    by (rule disjunctive_add [symmetric]) (auto simp: bit_simps ucast_byte_bit hi not_le)
  have 3: "push_bit 24 ?a OR (push_bit 16 ?b OR (push_bit 8 ?c OR ?d))
      = push_bit 24 ?a + (push_bit 16 ?b OR (push_bit 8 ?c OR ?d))"
    by (rule disjunctive_add [symmetric]) (auto simp: bit_simps ucast_byte_bit hi not_le)
  have "load_word M j = push_bit 24 ?a + (push_bit 16 ?b + (push_bit 8 ?c + ?d))"
    unfolding load_word_def or.assoc using 1 2 3 by simp
  also have "\<dots> = be_word [M ! j, M ! (j + 1), M ! (j + 2), M ! (j + 3)]"
    by (simp add: be_word_def push_bit_eq_mult algebra_simps)
  finally show ?thesis .
qed

lemma sig0_fips: "sig0 x = fips_sigma0 x"
  by (simp add: sig0_def fips_sigma0_def rotr_word_rotr)

lemma sig1_fips: "sig1 x = fips_sigma1 x"
  by (simp add: sig1_def fips_sigma1_def rotr_word_rotr)

lemma choose32_fips: "choose32 = fips_Ch"
  by (rule ext)+ (simp add: choose32_def fips_Ch_def)

lemma majority_fips: "majority a b c = fips_Maj a b c"
  by (rule bit_word_eqI) (auto simp: majority_def fips_Maj_def bit_simps)

text \<open>The schedule array holds the words of the standard.\<close>

lemma schedule_step_fips:
  assumes "16 \<le> k" and "\<forall>t < k. m ! t = fips_W M t"
  shows "schedule_step k m = m @ [fips_W M k]"
  using assms by (subst fips_W.simps) (simp add: schedule_step_def sig0_fips sig1_fips)

lemma schedule_prefix:
  assumes "16 \<le> n"
  shows "length (fold schedule_step [16..<n] (load_words M)) = n \<and>
    (\<forall>t < n. fold schedule_step [16..<n] (load_words M) ! t = fips_W M t)"
  using assms
proof (induction n rule: dec_induct)
  case base
  have "load_words M ! t = fips_W M t" if "t < 16" for t
    using that
    by (subst fips_W.simps) (simp add: load_words_def load_word_be del: upt_rec_numeral)
  then show ?case by (simp add: load_words_def)
next
  case (step n)
  then have "fold schedule_step [16..<Suc n] (load_words M)
      = fold schedule_step [16..<n] (load_words M) @ [fips_W M n]"
    by (simp add: schedule_step_fips)
  with step show ?case
    by (auto simp: nth_append less_Suc_eq)
qed

lemma schedule_nth: "t < 64 \<Longrightarrow> schedule M ! t = fips_W M t"
  using schedule_prefix [of 64 M] by (simp add: schedule_def)

fun state_list :: "sha_state \<Rightarrow> uint32 list" where
  "state_list (a, b, c, d, e, f, g, h) = [a, b, c, d, e, f, g, h]"

lemma round_step_fips:
  "i < 64 \<Longrightarrow> round_step (schedule M) i (state_list s) = state_list (fips_round M i s)"
  by (cases s rule: state_list.cases)
     (simp add: round_step_def Let_def schedule_nth fips_K_nth rotr_word_rotr choose32_fips majority_fips
        fips_Sigma0_def fips_Sigma1_def ac_simps)

lemma rounds_fips:
  "set is \<subseteq> {0..<64} \<Longrightarrow>
     fold (round_step (schedule M)) is (state_list s) = state_list (fold (fips_round M) is s)"
  by (induction "is" arbitrary: s) (simp_all add: round_step_fips)

lemma state_list_add: "map2 (+) (state_list s) (state_list t) = state_list (fips_add s t)"
  by (cases s rule: state_list.cases; cases t rule: state_list.cases) simp

lemma transform_fips: "transform (state_list s) M = state_list (fips_block M s)"
  using rounds_fips [of "[0..<64]" M s]
  by (simp add: transform_def fips_block_def state_list_add del: upt_rec_numeral)

section \<open>Streaming and padding\<close>

lemma zero_fill_eq:
  "i \<le> e \<Longrightarrow> e \<le> length d \<Longrightarrow> zero_fill i e d = take i d @ replicate (e - i) 0 @ drop e d"
proof (induction i e d rule: zero_fill.induct)
  case (1 i e d)
  show ?case
  proof (cases "i < e")
    case True
    with "1" have "zero_fill i e d = take (Suc i) (d[i := 0]) @ replicate (e - Suc i) 0 @ drop e (d[i := 0])"
      by (subst zero_fill.simps) simp
    also have "take (Suc i) (d[i := 0]) = take i d @ [0]"
      using True "1.prems" by (simp add: take_Suc_conv_app_nth)
    also have "drop e (d[i := 0]) = drop e d"
      using True by simp
    finally show ?thesis
      using True by (simp add: Suc_diff_Suc replicate_append_same flip: replicate_Suc)
  next
    case False
    with "1.prems" show ?thesis by (subst zero_fill.simps) simp
  qed
qed

lemma be_bytes_8:
  "be_bytes 8 n = [of_nat (n div 2 ^ 56), of_nat (n div 2 ^ 48), of_nat (n div 2 ^ 40), of_nat (n div 2 ^ 32),
     of_nat (n div 2 ^ 24), of_nat (n div 2 ^ 16), of_nat (n div 2 ^ 8), of_nat n]"
  by (simp add: be_bytes_def upt_rec)

lemma ucast_drop_bit_byte:
  "(ucast (drop_bit k (w :: 'a::len word)) :: uint8) = of_nat (unat w div 2 ^ k)"
proof -
  have "(ucast (drop_bit k w) :: uint8) = of_nat (unat (drop_bit k w))"
    by simp
  also have "unat (drop_bit k w) = unat w div 2 ^ k"
    unfolding unat_drop_bit_eq by (rule drop_bit_eq_div)
  finally show ?thesis .
qed

lemma length_eq_8E:
  assumes "length xs = 8"
  obtains a b c d e f g h where "xs = [a, b, c, d, e, f, g, h]"
  using assms by (auto simp: length_Suc_conv numeral_eq_Suc)

lemma store_bitlen_eq:
  assumes "length d = 64" and "n < 2 ^ 64"
  shows "store_bitlen (of_nat n) d = take 56 d @ be_bytes 8 n"
proof -
  have u: "unat (of_nat n :: uint64) = n"
    using assms(2) by (simp add: unat_of_nat)
  have w: "(ucast (of_nat n :: uint64) :: uint8) = of_nat n"
    using ucast_drop_bit_byte [of 0 "of_nat n :: uint64"] u by simp
  have d: "d = take 56 d @ drop 56 d" by simp
  have "length (drop 56 d) = 8" using assms(1) by simp
  then obtain a b c e f g h i where "drop 56 d = [a, b, c, e, f, g, h, i]"
    by (rule length_eq_8E)
  with d have d': "d = take 56 d @ [a, b, c, e, f, g, h, i]" by simp
  show ?thesis
    unfolding store_bitlen_def
    by (subst d') (simp add: list_update_append assms(1) ucast_drop_bit_byte u w be_bytes_8)
qed

text \<open>Splitting the padded message into blocks.\<close>

lemma chunks64_block: "length b = 64 \<Longrightarrow> chunks64 (b @ xs) = b # chunks64 xs"
  by (subst chunks64.simps) (cases b, simp_all)

lemma chunks64_single: "length b = 64 \<Longrightarrow> chunks64 b = [b]"
  using chunks64_block [of b "[]"] by (simp add: chunks64.simps)

lemma chunks64_two: "length b = 64 \<Longrightarrow> length c = 64 \<Longrightarrow> chunks64 (b @ c) = [b, c]"
  by (simp add: chunks64_block chunks64_single)

lemma chunks64_append:
  "64 dvd length xs \<Longrightarrow> chunks64 (xs @ ys) = chunks64 xs @ chunks64 ys"
proof (induction xs rule: chunks64.induct)
  case (1 xs)
  show ?case
  proof (cases "xs = []")
    case True
    then show ?thesis by (simp add: chunks64.simps)
  next
    case False
    with "1.prems" have len: "64 \<le> length xs" by (auto dest: dvd_imp_le)
    then have "64 dvd length (drop 64 xs)" using "1.prems" by (simp add: dvd_diff_nat)
    with "1.IH" [OF False] have IH: "chunks64 (drop 64 xs @ ys) = chunks64 (drop 64 xs) @ chunks64 ys"
      by simp
    have "chunks64 (xs @ ys) = chunks64 (take 64 xs @ (drop 64 xs @ ys))"
      by (metis append.assoc append_take_drop_id)
    also have "\<dots> = take 64 xs # chunks64 (drop 64 xs @ ys)"
      using len by (intro chunks64_block) simp
    also have "\<dots> = chunks64 xs @ chunks64 ys"
      using IH False by (simp add: chunks64.simps [of xs])
    finally show ?thesis .
  qed
qed

lemma zero_fill_padding:
  assumes "r < 64" "length d = 64" "Suc r \<le> e" "e \<le> 64"
  shows "zero_fill (Suc r) e (d[r := 0x80]) = take r d @ [0x80] @ replicate (e - Suc r) 0 @ drop e d"
proof -
  have "take (Suc r) (d[r := 0x80]) = take r d @ [0x80]"
    using assms(1,2) by (simp add: take_Suc_conv_app_nth)
  then show ?thesis using assms by (simp add: zero_fill_eq)
qed

text \<open>
  What \<open>pad\<close> adds after the \<open>r\<close> bytes of the last, partial block: one block
  when the length still fits, two otherwise.
\<close>

lemma pad_eq:
  assumes r: "r < 64" and d: "length d = 64" and n: "n mod 64 = r" "8 * n < 2 ^ 64"
  shows "pad (state_list s) d r (of_nat (8 * (n - r)))
    = state_list (fold fips_block (chunks64 (take r d @ [0x80] @ replicate ((119 - r) mod 64) 0 @ be_bytes 8 (8 * n))) s)"
proof -
  have rn: "r \<le> n" using n(1) by (metis mod_less_eq_dividend)
  have bits: "of_nat (8 * (n - r)) + of_nat (r * 8) = (of_nat (8 * n) :: uint64)"
    using rn by (simp flip: of_nat_add add: algebra_simps)
  have be: "length (be_bytes 8 (8 * n)) = 8" by (simp add: be_bytes_def)
  let ?d1 = "\<lambda>e. zero_fill (Suc r) e (d[r := 0x80])"
  note d1 = zero_fill_padding [OF r d]
  show ?thesis
  proof (cases "r < 56")
    case True
    have z: "(119 - r) mod 64 = 55 - r" using True by (simp add: mod_if)
    have e: "56 - r = Suc (55 - r)" using True by simp
    have "take 56 (?d1 56) = take r d @ [0x80] @ replicate (55 - r) 0"
      using True d d1 [of 56] by (simp add: e)
    then have "store_bitlen (of_nat (8 * n)) (?d1 56)
        = take r d @ [0x80] @ replicate (55 - r) 0 @ be_bytes 8 (8 * n)"
      using True d d1 [of 56] n(2) by (subst store_bitlen_eq) simp_all
    moreover have "length (take r d @ [0x80] @ replicate (55 - r) 0 @ be_bytes 8 (8 * n)) = 64"
      using True d be by simp
    moreover have "pad (state_list s) d r (of_nat (8 * (n - r)))
        = transform (state_list s) (store_bitlen (of_nat (8 * (n - r)) + of_nat (r * 8)) (?d1 56))"
      using True unfolding pad_def Let_def by simp
    ultimately show ?thesis
      unfolding bits z by (simp add: transform_fips chunks64_single)
  next
    case False
    let ?b = "take r d @ [0x80] @ replicate (63 - r) 0" and ?e = "replicate 56 0 @ be_bytes 8 (8 * n)"
    have z: "(119 - r) mod 64 = (63 - r) + 56" using False r by (simp add: mod_if)
    have b: "?d1 64 = ?b" using d r d1 [of 64] by simp
    have st: "store_bitlen (of_nat (8 * n)) (memset_zero 56 ?b) = ?e"
      using r d n(2) by (subst store_bitlen_eq) (simp_all add: memset_zero_def)
    have "pad (state_list s) d r (of_nat (8 * (n - r)))
        = transform (transform (state_list s) (?d1 64))
            (store_bitlen (of_nat (8 * (n - r)) + of_nat (r * 8)) (memset_zero 56 (?d1 64)))"
      using False unfolding pad_def Let_def by simp
    also have "\<dots> = state_list (fold fips_block [?b, ?e] s)"
      unfolding bits b st transform_fips by simp
    also have "[?b, ?e] = chunks64 (?b @ ?e)"
      using d be r by (intro chunks64_two [symmetric]) simp_all
    also have "?b @ ?e = take r d @ [0x80] @ replicate ((119 - r) mod 64) 0 @ be_bytes 8 (8 * n)"
      unfolding z replicate_add by simp
    finally show ?thesis .
  qed
qed

definition message_bytes :: "string \<Rightarrow> uint8 list" where
  "message_bytes s = map of_char s"

text \<open>
  The state of the streaming loop after the bytes \<open>p\<close>: the full blocks are compressed,
  the rest is at the front of the buffer.
\<close>

definition stream_inv :: "uint8 list \<Rightarrow> hash_state \<Rightarrow> bool" where
  "stream_inv p s \<longleftrightarrow>
     (let r = length p mod 64; k = length p - r in
        m_blocklen s = r \<and> length (m_data s) = 64 \<and> m_bitlen s = of_nat (8 * k)
        \<and> take r (m_data s) = drop k p
        \<and> m_state s = state_list (fold fips_block (chunks64 (take k p)) fips_H0))"

lemma stream_inv_init:
  "length d = 64 \<Longrightarrow> stream_inv [] \<lparr>m_state = H0, m_data = d, m_blocklen = 0, m_bitlen = 0\<rparr>"
  by (simp add: stream_inv_def H0_def fips_H0_eq chunks64.simps)

lemma stream_inv_step:
  assumes "stream_inv p s"
  shows "stream_inv (p @ [of_char c]) (hash_byte c s)"
proof -
  define r where "r = length p mod 64"
  define k where "k = length p - r"
  let ?b = "of_char c :: uint8"
  have r: "r < 64" and kr: "length p = k + r" and dvd: "64 dvd k"
    by (simp_all add: r_def k_def)
  from assms have s: "m_blocklen s = r" "length (m_data s) = 64" "m_bitlen s = of_nat (8 * k)"
    "take r (m_data s) = drop k p" "m_state s = state_list (fold fips_block (chunks64 (take k p)) fips_H0)"
    by (simp_all add: stream_inv_def Let_def r_def k_def)
  have t: "take (Suc r) ((m_data s)[r := ?b]) = drop k (p @ [?b])"
    using r s kr by (simp add: take_Suc_conv_app_nth)
  show ?thesis
  proof (cases "Suc r = 64")
    case True
    then have m: "length (p @ [?b]) mod 64 = 0"
      using kr dvd by (metis add_Suc_right dvd_add dvd_imp_mod_0 dvd_refl length_append_singleton)
    have full: "(m_data s)[r := ?b] = drop k (p @ [?b])"
      using t True s(2) by simp
    have "p @ [?b] = take k p @ drop k (p @ [?b])"
      using kr by (simp flip: append_assoc)
    then have "chunks64 (p @ [?b]) = chunks64 (take k p @ drop k (p @ [?b]))"
      by (rule arg_cong)
    also have "\<dots> = chunks64 (take k p) @ [drop k (p @ [?b])]"
      using kr dvd True by (subst chunks64_append) (simp_all add: chunks64_single)
    finally have ch: "chunks64 (p @ [?b]) = chunks64 (take k p) @ [drop k (p @ [?b])]" .
    have len: "Suc (length p) = k + 64" using kr True by simp
    show ?thesis
      using m s True full ch len
      by (simp add: stream_inv_def hash_byte_def Let_def transform_fips)
  next
    case False
    then have m: "length (p @ [?b]) mod 64 = Suc r"
      using r by (simp add: mod_Suc flip: r_def)
    have "length (p @ [?b]) - Suc r = k" using kr by simp
    then show ?thesis
      using m s False t kr
      by (simp add: stream_inv_def hash_byte_def Let_def)
  qed
qed

lemma stream_inv_fold:
  "stream_inv p s \<Longrightarrow> stream_inv (p @ message_bytes msg) (fold hash_byte msg s)"
proof (induction msg arbitrary: p s)
  case Nil
  then show ?case by (simp add: message_bytes_def)
next
  case (Cons c msg)
  then have "stream_inv ((p @ [of_char c]) @ message_bytes msg) (fold hash_byte msg (hash_byte c s))"
    by (intro Cons.IH stream_inv_step)
  then show ?case by (simp add: message_bytes_def)
qed

lemma pad_stream:
  assumes "stream_inv p s" and n: "8 * length p < 2 ^ 64"
  shows "pad (m_state s) (m_data s) (m_blocklen s) (m_bitlen s)
    = state_list (fold fips_block (chunks64 (fips_pad p)) fips_H0)"
proof -
  define r where "r = length p mod 64"
  define k where "k = length p - r"
  have r: "r < 64" and kr: "length p = k + r" and dvd: "64 dvd k"
    by (simp_all add: r_def k_def)
  from assms have s: "m_blocklen s = r" "length (m_data s) = 64" "m_bitlen s = of_nat (8 * (length p - r))"
    "take r (m_data s) = drop k p" "m_state s = state_list (fold fips_block (chunks64 (take k p)) fips_H0)"
    by (simp_all add: stream_inv_def Let_def r_def k_def)
  let ?rest = "drop k p @ [0x80] @ replicate ((119 - r) mod 64) 0 @ be_bytes 8 (8 * length p)"
  have "fips_pad p = take k p @ ?rest"
    by (simp add: fips_pad_def fips_length_def flip: r_def append_assoc)
  then have "chunks64 (fips_pad p) = chunks64 (take k p) @ chunks64 ?rest"
    using kr dvd by (simp add: chunks64_append)
  then show ?thesis
    using pad_eq [OF r s(2) r_def [symmetric] n, of "fold fips_block (chunks64 (take k p)) fips_H0"] s
    by simp
qed

text \<open>The digest bytes.\<close>

lemma digest_byte:
  "(ucast (drop_bit k (w :: uint32) AND 0x000000ff) :: uint8) = of_nat (unat w div 2 ^ k)"
proof -
  have "(0x000000ff :: uint32) = mask 8"
    by (simp add: mask_eq_exp_minus_1)
  then have "(ucast (drop_bit k w AND 0x000000ff) :: uint8) = ucast (drop_bit k w AND mask 8)"
    by (rule arg_cong [where f = "\<lambda>m. ucast (drop_bit k w AND m)"])
  also have "\<dots> = ucast (drop_bit k w)"
    by (rule bit_word_eqI) (simp add: bit_and_iff bit_unsigned_iff bit_mask_iff)
  finally have "(ucast (drop_bit k w AND 0x000000ff) :: uint8) = ucast (drop_bit k w)" .
  then show ?thesis by (simp add: ucast_drop_bit_byte)
qed

lemma revert_state_list: "length h = 32 \<Longrightarrow> revert h (state_list s) = fips_bytes s"
proof -
  assume "length h = 32"
  then have "h = map (\<lambda>i. h ! i) [0..<32]"
    by (metis map_nth)
  then obtain f where f: "h = map f [0..<32]" by blast
  show ?thesis
    unfolding f
    by (cases s rule: state_list.cases)
       (simp add: revert_def revert_cell_def upt_rec digest_byte be_bytes_def)
qed


lemma hash_digest_sha256:
  assumes "8 * length message < 2 ^ 64"
  shows "hash_digest g message = sha256 (message_bytes message)"
proof -
  let ?s0 = "\<lparr>m_state = H0, m_data = map (g_data g) [0..<64], m_blocklen = 0, m_bitlen = 0\<rparr>"
  have inv: "stream_inv (message_bytes message) (fold hash_byte message ?s0)"
    using stream_inv_fold [OF stream_inv_init [of "map (g_data g) [0..<64]"], of message] by simp
  have "8 * length (message_bytes message) < 2 ^ 64"
    using assms by (simp add: message_bytes_def)
  from pad_stream [OF inv this] show ?thesis
    by (simp add: hash_digest_def Let_def sha256_def revert_state_list del: upt_rec_numeral)
qed

lemma length_sha256: "length (sha256 M) = 32"
proof -
  have "length (fips_bytes s) = 32" for s
    by (cases s rule: state_list.cases) (simp add: be_bytes_def)
  then show ?thesis by (simp add: sha256_def)
qed

lemma hash_sum: "fold (\<lambda>b hashd. hashd + ucast b) bs h = (h :: uint32) + (\<Sum>b\<leftarrow>bs. ucast b)"
  by (induction bs arbitrary: h) (simp_all add: add.assoc)

lemma CryptCrypto_hash_eq:
  assumes "8 * length message < 2 ^ 64"
  shows "CryptCrypto_hash g message = g_hashd g + (\<Sum>b\<leftarrow>sha256 (message_bytes message). ucast b)"
  using assms by (simp add: CryptCrypto_hash_def hash_sum hash_digest_sha256)

lemma sum_bytes_bound: "unat (\<Sum>b\<leftarrow>bs. ucast (b :: uint8) :: uint32) \<le> 255 * length bs"
proof (induction bs)
  case Nil
  then show ?case by simp
next
  case (Cons b bs)
  have "unat (ucast b :: uint32) = unat b" and "unat b < 256"
    using unsigned_less [of b, where 'a = nat] by (simp_all add: unsigned_ucast_eq take_bit_nat_eq_self)
  then have "unat (ucast b :: uint32) \<le> 255" by simp
  moreover have "unat (x + y) \<le> unat x + unat y" for x y :: uint32
    by (simp add: unat_word_ariths)
  ultimately show ?case
    using Cons.IH by (auto intro: order_trans [OF _ add_mono])
qed


lemma length_revert: "length (revert h st) = length h"
proof -
  have inner: "length (fold (\<lambda>j. revert_cell st i j) js h) = length h" for i js h
    by (induction js arbitrary: h) (simp_all add: revert_cell_def)
  have "length (fold (\<lambda>i h. fold (\<lambda>j. revert_cell st i j) [0..<8] h) is h) = length h" for "is"
    by (induction "is" arbitrary: h) (simp_all add: inner del: upt_rec_numeral)
  then show ?thesis by (simp add: revert_def del: upt_rec_numeral)
qed

lemma length_hash_digest: "length (hash_digest g message) = 32"
  by (simp add: hash_digest_def Let_def length_revert del: upt_rec_numeral)

definition digest_sum :: "garbage \<Rightarrow> string \<Rightarrow> uint32" where
  "digest_sum g message = (\<Sum>b\<leftarrow>hash_digest g message. ucast b)"

lemma hash_digest_sum: "CryptCrypto_hash g message = g_hashd g + digest_sum g message"
  by (simp add: CryptCrypto_hash_def digest_sum_def hash_sum)

lemma digest_sum_bound: "unat (digest_sum g message) \<le> 8160"
  using sum_bytes_bound [of "hash_digest g message"]
  by (simp add: digest_sum_def length_hash_digest)

end
