(* ===== verification/Hash_Eval.thy ===== *)
theory Hash_Eval
  imports Crypto
begin

text \<open>
  Evaluation of the hash on concrete messages of one block: the compression function over integers below
  \<open>2 ^ 32\<close>, with the schedule in a window of sixteen words, and the proof that it gives what
  \<open>CryptCrypto_hash\<close> computes. The simplifier evaluates it in a few seconds.
\<close>

section \<open>Words as integers\<close>

abbreviation wrap :: "int \<Rightarrow> int" where
  "wrap x \<equiv> x mod 4294967296"

text \<open>\<open>irotr p p' x\<close> rotates \<open>x\<close> by \<open>n\<close> to the right, for \<open>p = 2 ^ n\<close> and \<open>p * p' = 2 ^ 32\<close>.\<close>

definition irejoin :: "int \<Rightarrow> int \<Rightarrow> int \<Rightarrow> int \<Rightarrow> int" where
  "irejoin p p' x d = d + (x - d * p) * p'"

definition irotr :: "int \<Rightarrow> int \<Rightarrow> int \<Rightarrow> int" where
  "irotr p p' x = irejoin p p' x (x div p)"

lemma irotr_wrap:
  assumes "0 < p" "0 < p'" "p * p' = 4294967296" "0 \<le> x" "x < 4294967296"
  shows "irotr p p' x = wrap (x div p + x * p')"
proof -
  let ?q = "x div p" and ?r = "x mod p"
  have x: "x = ?q * p + ?r" by simp
  have "?q < p'"
  proof (rule ccontr)
    assume "\<not> ?q < p'"
    then have "p * p' \<le> p * ?q" using assms(1) by simp
    also have "p * ?q \<le> x" using assms(1) by (simp add: mult.commute [of p] flip: minus_mod_eq_div_mult)
    finally show False using assms(3,5) by simp
  qed
  moreover have "?r * p' \<le> (p - 1) * p'" using assms(1,2) by simp
  ultimately have "?q + ?r * p' < 4294967296" using assms(3) by (simp add: left_diff_distrib)
  moreover have "0 \<le> ?q + ?r * p'" using assms by (simp add: pos_imp_zdiv_nonneg_iff)
  ultimately have "?q + ?r * p' = wrap (?q + ?r * p')" by simp
  moreover have "wrap (?q + ?r * p' + 4294967296 * ?q) = wrap (?q + ?r * p')" by (rule mod_mult_self2)
  moreover have "x * p' = ?r * p' + (p * p') * ?q" by (subst x) (simp only: algebra_simps)
  moreover have "?q + ?r * p' + 4294967296 * ?q = ?q + x * p'"
    using \<open>x * p' = ?r * p' + (p * p') * ?q\<close> assms(3) by simp
  ultimately show ?thesis by (simp add: irotr_def irejoin_def minus_div_mult_eq_mod)
qed

lemma uint_plus: "uint (x + y) = wrap (uint x + uint y)" for x y :: uint32
  by (simp add: uint_word_ariths)

lemma uint_shift: "uint (drop_bit n x) = uint x div 2 ^ n" for x :: uint32
proof -
  have "int (unat (drop_bit n x)) = int (unat x div 2 ^ n)"
    unfolding unat_drop_bit_eq by (simp only: drop_bit_eq_div)
  then show ?thesis by (simp only: zdiv_int uint_nat) simp
qed

lemma uint_rotr:
  assumes "0 < n" "n < 32"
  shows "uint (word_rotr n x) = irotr (2 ^ n) (2 ^ (32 - n)) (uint (x :: uint32))"
proof -
  have "drop_bit n x OR push_bit (32 - n) x = drop_bit n x + push_bit (32 - n) x"
  proof (rule disjunctive_add [symmetric])
    fix i
    show "\<not> bit (drop_bit n x) i \<or> \<not> bit (push_bit (32 - n) x) i"
      using assms bit_imp_le_length [of x "n + i"] by (auto simp: bit_simps)
  qed
  then have "word_rotr n x = drop_bit n x + push_bit (32 - n) x"
    using assms by (simp add: rotr_def flip: rotr_word_rotr)
  moreover have "uint (push_bit (32 - n) x) = wrap (uint x * 2 ^ (32 - n))"
    using unsigned_push_bit_eq [of "32 - n" x] by (simp only: push_bit_eq_mult take_bit_eq_mod) simp
  moreover have "uint (drop_bit n x) = uint x div 2 ^ n" by (rule uint_shift)
  moreover have "(2 :: int) ^ n * 2 ^ (32 - n) = 4294967296" using assms by (simp flip: power_add)
  moreover have "uint x < 4294967296" using uint_lt2p [of x] by simp
  ultimately show ?thesis by (simp add: irotr_wrap uint_plus mod_simps)
qed

definition ich :: "int \<Rightarrow> int \<Rightarrow> int \<Rightarrow> int" where
  "ich x y z = z XOR (x AND (y XOR z))"

definition imaj :: "int \<Rightarrow> int \<Rightarrow> int \<Rightarrow> int" where
  "imaj x y z = (x AND y) XOR (z AND (x XOR y))"

lemma uint_Ch: "uint (fips_Ch x y z) = ich (uint x) (uint y) (uint z)"
proof -
  have "fips_Ch x y z = z XOR (x AND (y XOR z))"
    by (rule bit_word_eqI) (auto simp: fips_Ch_def bit_simps)
  then show ?thesis by (simp add: ich_def unsigned_and_eq unsigned_xor_eq)
qed

lemma uint_Maj: "uint (fips_Maj x y z) = imaj (uint x) (uint y) (uint z)"
proof -
  have "fips_Maj x y z = (x AND y) XOR (z AND (x XOR y))"
    by (rule bit_word_eqI) (auto simp: fips_Maj_def bit_simps)
  then show ?thesis by (simp add: imaj_def unsigned_and_eq unsigned_xor_eq)
qed

definition isigma0 :: "int \<Rightarrow> int" where
  "isigma0 x = irotr 128 33554432 x XOR irotr 262144 16384 x XOR (x div 8)"

definition isigma1 :: "int \<Rightarrow> int" where
  "isigma1 x = irotr 131072 32768 x XOR irotr 524288 8192 x XOR (x div 1024)"

definition iSigma0 :: "int \<Rightarrow> int" where
  "iSigma0 x = irotr 4 1073741824 x XOR irotr 8192 524288 x XOR irotr 4194304 1024 x"

definition iSigma1 :: "int \<Rightarrow> int" where
  "iSigma1 x = irotr 64 67108864 x XOR irotr 2048 2097152 x XOR irotr 33554432 128 x"

lemma uint_sigmas:
  "uint (fips_sigma0 x) = isigma0 (uint x)" "uint (fips_sigma1 x) = isigma1 (uint x)"
  "uint (fips_Sigma0 x) = iSigma0 (uint x)" "uint (fips_Sigma1 x) = iSigma1 (uint x)"
  by (simp_all add: fips_sigma0_def isigma0_def fips_sigma1_def isigma1_def fips_Sigma0_def iSigma0_def
      fips_Sigma1_def iSigma1_def unsigned_xor_eq uint_rotr uint_shift)

section \<open>The compression function\<close>

type_synonym istate = "int \<times> int \<times> int \<times> int \<times> int \<times> int \<times> int \<times> int"

fun uints :: "sha_state \<Rightarrow> istate" where
  "uints (a, b, c, d, e, f, g, h) = (uint a, uint b, uint c, uint d, uint e, uint f, uint g, uint h)"

fun imix :: "int \<Rightarrow> istate \<Rightarrow> istate" where
  "imix t (a, b, c, d, e, f, g, h) = (wrap (t + iSigma0 a + imaj a b c), a, b, c, wrap (d + t), e, f, g)"

fun iround :: "int \<Rightarrow> int \<Rightarrow> istate \<Rightarrow> istate" where
  "iround k w (a, b, c, d, e, f, g, h) =
     imix (h + iSigma1 e + ich e f g + k + w) (a, b, c, d, e, f, g, h)"

definition inext :: "int list \<Rightarrow> int" where
  "inext ws = wrap (isigma1 (ws ! 14) + ws ! 9 + isigma0 (ws ! 1) + hd ws)"

fun icompress :: "int list \<Rightarrow> int list \<Rightarrow> istate \<Rightarrow> istate" where
  "icompress [] ws s = s"
| "icompress (k # ks) ws s = icompress ks (tl ws @ [inext ws]) (iround k (hd ws) s)"

lemma iround_fips: "t < 64 \<Longrightarrow> uints (fips_round M t s) = iround (uint (K ! t)) (uint (fips_W M t)) (uints s)"
  by (cases s rule: state_list.cases)
    (simp add: fips_K_nth Let_def uint_plus uint_sigmas uint_Ch uint_Maj mod_simps ac_simps)

definition window :: "uint8 list \<Rightarrow> nat \<Rightarrow> int list" where
  "window M t = map (\<lambda>i. uint (fips_W M i)) [t..<t + 16]"

lemma window_next: "tl (window M t) @ [inext (window M t)] = window M (Suc t)" "hd (window M t) = uint (fips_W M t)"
proof -
  have "fips_W M (t + 16) = fips_sigma1 (fips_W M (t + 14)) + fips_W M (t + 9) + fips_sigma0 (fips_W M (t + 1)) + fips_W M t"
    by (subst fips_W.simps) (simp add: add.commute)
  then have "inext (window M t) = uint (fips_W M (t + 16))"
    by (simp add: inext_def window_def uint_plus uint_sigmas mod_simps hd_map)
  moreover have "tl (window M t) = map (\<lambda>i. uint (fips_W M i)) [Suc t..<t + 16]"
    by (simp add: window_def upt_conv_Cons)
  ultimately show "tl (window M t) @ [inext (window M t)] = window M (Suc t)"
    using upt_Suc_append [of "Suc t" "t + 16"] by (simp add: window_def flip: add_Suc)
  show "hd (window M t) = uint (fips_W M t)" by (simp add: window_def upt_conv_Cons)
qed

lemma icompress_fips:
  "t + length ks = 64 \<Longrightarrow> ks = map uint (drop t K) \<Longrightarrow>
    icompress ks (window M t) (uints s) = uints (fold (fips_round M) [t..<64] s)"
proof (induction ks arbitrary: t s)
  case (Cons k ks)
  have t: "t < 64" using Cons.prems(1) by simp
  with length_K have "drop t K = K ! t # drop (Suc t) K" by (simp add: Cons_nth_drop_Suc)
  then have k: "k = uint (K ! t)" "ks = map uint (drop (Suc t) K)" using Cons.prems(2) by simp_all
  have "[t..<64] = t # [Suc t..<64]" using t by (simp add: upt_conv_Cons)
  then show ?case
    using Cons.IH [of "Suc t" "fips_round M t s"] Cons.prems(1) k t by (simp add: window_next iround_fips)
qed simp


section \<open>One padded block\<close>

fun iwords :: "int list \<Rightarrow> int list" where
  "iwords (a # b # c # d # bs) = (((a * 256 + b) * 256 + c) * 256 + d) # iwords bs"
| "iwords bs = []"

definition ipad :: "string \<Rightarrow> int list" where
  "ipad message = map of_char message @ [128] @ replicate (55 - length message) 0 @
     [0, 0, 0, 0, 0, 0, int (8 * length message) div 256, int (8 * length message) mod 256]"

fun iadd :: "istate \<Rightarrow> istate \<Rightarrow> istate" where
  "iadd (a, b, c, d, e, f, g, h) (a', b', c', d', e', f', g', h') =
     (wrap (a + a'), wrap (b + b'), wrap (c + c'), wrap (d + d'), wrap (e + e'), wrap (f + f'), wrap (g + g'), wrap (h + h'))"

definition ibytes_sum :: "int \<Rightarrow> int" where
  "ibytes_sum x = x div 16777216 + x div 65536 mod 256 + x div 256 mod 256 + x mod 256"

fun isum :: "istate \<Rightarrow> int" where
  "isum (a, b, c, d, e, f, g, h) = ibytes_sum a + ibytes_sum b + ibytes_sum c + ibytes_sum d +
     ibytes_sum e + ibytes_sum f + ibytes_sum g + ibytes_sum h"

definition iK :: "int list" where
  "iK = map uint K"

lemma uints_add: "uints (fips_add s t) = iadd (uints s) (uints t)"
  by (cases s rule: state_list.cases; cases t rule: state_list.cases) (simp add: uint_plus)

lemma uint_be_word: "uint (be_word [a, b, c, d]) = ((uint a * 256 + uint b) * 256 + uint c) * 256 + uint d"
proof -
  have "((unat a * 256 + unat b) * 256 + unat c) * 256 + unat d < 2 ^ 32"
    using unsigned_less [of a, where 'a = nat] unsigned_less [of b, where 'a = nat]
      unsigned_less [of c, where 'a = nat] unsigned_less [of d, where 'a = nat] by simp
  moreover have "be_word [a, b, c, d] = of_nat (((unat a * 256 + unat b) * 256 + unat c) * 256 + unat d)"
    by (simp add: be_word_def mult.commute)
  moreover have "uint (of_nat n :: uint32) = int n" if "n < 2 ^ 32" for n
    using that by (simp add: unsigned_of_nat take_bit_nat_eq_self)
  ultimately have "uint (be_word [a, b, c, d]) = int (((unat a * 256 + unat b) * 256 + unat c) * 256 + unat d)" by metis
  then show ?thesis by simp
qed

lemma length_64E:
  assumes "length M = 4 * Suc n"
  obtains a b c d M' where "M = a # b # c # d # M'" "length M' = 4 * n"
proof -
  have "length M = Suc (Suc (Suc (Suc (4 * n))))" using assms by simp
  then show ?thesis using that by (auto simp: length_Suc_conv)
qed

lemma iwords_be: "length M = 4 * n \<Longrightarrow>
    iwords (map uint M) = map (\<lambda>t. uint (be_word [M ! (4 * t), M ! (4 * t + 1), M ! (4 * t + 2), M ! (4 * t + 3)])) [0..<n]"
proof (induction n arbitrary: M)
  case (Suc n)
  obtain a b c d M' where M: "M = a # b # c # d # M'" "length M' = 4 * n" using Suc.prems by (rule length_64E)
  have "[0..<Suc n] = 0 # map Suc [0..<n]" by (simp add: upt_conv_Cons map_Suc_upt)
  then show ?case using Suc.IH [OF M(2)] by (simp add: M(1) uint_be_word comp_def add.commute del: upt_Suc)
qed simp

lemma window_0:
  assumes "length M = 64"
  shows "window M 0 = iwords (map uint M)"
proof -
  have "uint (fips_W M t) = uint (be_word [M ! (4 * t), M ! (4 * t + 1), M ! (4 * t + 2), M ! (4 * t + 3)])" if "t < 16" for t
    using that by (subst fips_W.simps) simp
  then show ?thesis using iwords_be [of M 16] assms by (simp add: window_def cong: map_cong)
qed

lemma pad_short:
  assumes "length message < 56"
  shows "length (fips_pad (message_bytes message)) = 64" "map uint (fips_pad (message_bytes message)) = ipad message"
proof -
  let ?n = "length message"
  have small: "?n mod 64 = ?n" using assms by simp
  have "119 - ?n = 64 + (55 - ?n)" using assms by linarith
  moreover have "(55 - ?n) mod 64 = 55 - ?n" by (rule mod_less) simp
  ultimately have "(119 - ?n) mod 64 = 55 - ?n" using mod_add_self1 [of 64 "55 - ?n"] by (simp only:)
  note z = this small
  have len: "fips_length ?n = [0, 0, 0, 0, 0, 0, of_nat (8 * ?n div 256), of_nat (8 * ?n)]"
    using assms by (simp add: fips_length_def be_bytes_8)
  show "length (fips_pad (message_bytes message)) = 64"
    using assms by (simp add: fips_pad_def message_bytes_def z len)
  have "(8 * int ?n) div 256 mod 256 = (8 * int ?n) div 256" using assms by (intro mod_pos_pos_trivial) auto
  moreover have "uint (of_nat (8 * ?n) :: uint8) = 8 * int ?n mod 256"
    by (simp only: unsigned_of_nat take_bit_eq_mod) (simp add: zmod_int)
  moreover have "uint (of_char c :: uint8) = of_char c" for c
  proof -
    have "uint (of_nat (of_char c) :: uint8) = int (of_char c)"
      by (simp only: unsigned_of_nat take_bit_eq_mod) simp
    then show ?thesis by (simp only: of_nat_of_char)
  qed
  ultimately show "map uint (fips_pad (message_bytes message)) = ipad message"
    by (simp add: fips_pad_def message_bytes_def z len ipad_def unsigned_of_nat take_bit_eq_mod zdiv_int zmod_int)
qed

lemma sum_bytes:
  assumes "n < 2 ^ 32"
  shows "(\<Sum>b\<leftarrow>be_bytes 4 n. ucast b) = (of_int (ibytes_sum (int n)) :: uint32)"
proof -
  have byte: "(ucast (of_nat n :: uint8) :: uint32) = of_nat (n mod 256)" for n
    by (simp add: unsigned_of_nat take_bit_eq_mod flip: unat_inject)
  have "n div 16777216 < 256" using assms by (simp add: div_less_iff_less_mult)
  moreover have "ibytes_sum (int n) = int (n div 16777216 + (n div 65536 mod 256 + (n div 256 mod 256 + n mod 256)))"
    by (simp add: ibytes_sum_def zdiv_int zmod_int)
  moreover have "be_bytes 4 n = [of_nat (n div 16777216), of_nat (n div 65536), of_nat (n div 256), of_nat n]"
    by (simp add: be_bytes_def upt_rec)
  ultimately show ?thesis by (simp add: byte)
qed

lemma unat_32_less: "unat w < 2 ^ 32" for w :: uint32
  using unsigned_less [of w, where 'a = nat] by simp

lemma fips_block_eval:
  assumes "length M = 64"
  shows "uints (fips_block M s) = iadd (uints s) (icompress iK (iwords (map uint M)) (uints s))"
proof -
  have "length iK = 64" by (simp add: iK_def length_K)
  then show ?thesis
    using icompress_fips [of 0 iK M s] window_0 [OF assms]
    by (simp add: fips_block_def uints_add iK_def del: upt_rec_numeral)
qed

lemma digest_sum_eval:
  assumes "length message < 56"
  shows "digest_sum g message = of_int (isum (iadd (uints fips_H0) (icompress iK (iwords (ipad message)) (uints fips_H0))))"
proof -
  let ?M = "fips_pad (message_bytes message)"
  note short = pad_short [OF assms]
  have "sha256 (message_bytes message) = fips_bytes (fips_block ?M fips_H0)"
    using short(1) by (simp add: sha256_def chunks64_single)
  moreover have "(\<Sum>b\<leftarrow>fips_bytes s. ucast b) = (of_int (isum (uints s)) :: uint32)" for s
    by (cases s rule: state_list.cases) (simp add: sum_bytes [OF unat_32_less])
  ultimately show ?thesis
    using assms fips_block_eval [OF short(1), of fips_H0] short(2)
    by (simp add: digest_sum_def hash_digest_sha256)
qed

section \<open>Evaluation\<close>

lemma inext_window: "inext [w0, w1, w2, w3, w4, w5, w6, w7, w8, w9, w10, w11, w12, w13, w14, w15]
    = wrap (isigma1 w14 + w9 + isigma0 w1 + w0)"
  by (simp add: inext_def)

fun irun :: "int list \<Rightarrow> int list \<times> istate \<Rightarrow> int list \<times> istate" where
  "irun [] st = st"
| "irun (k # ks) (ws, s) = irun ks (tl ws @ [inext ws], iround k (hd ws) s)"

lemma icompress_irun: "icompress ks ws s = snd (irun ks (ws, s))"
  by (induction ks arbitrary: ws s) simp_all

lemma irun_append: "irun (ks @ ks') st = irun ks' (irun ks st)"
  by (induction ks arbitrary: st) (auto simp: irun.simps)

lemma replicate_numeral: "replicate (numeral n) x = x # replicate (pred_numeral n) x"
  by (simp add: numeral_eq_Suc)

lemmas hash_eval = replicate_numeral inext_window ich_def imaj_def iSigma0_def iSigma1_def irotr_def irejoin_def isigma0_def isigma1_def

definition iH0 :: istate where
  "iH0 = uints fips_H0"

definition ihash :: "int list \<Rightarrow> int" where
  "ihash bs = isum (iadd iH0 (icompress iK (iwords (bs @ [128] @ replicate (55 - length bs) 0 @
     [0, 0, 0, 0, 0, 0, int (8 * length bs) div 256, int (8 * length bs) mod 256])) iH0))"

lemma hash_ihash:
  assumes "map of_char message = bs" "length bs < 56"
  shows "CryptCrypto_hash g message = g_hashd g + of_int (ihash bs)"
  using assms digest_sum_eval [of message g] by (auto simp: hash_digest_sum ihash_def iH0_def ipad_def)

text \<open>The constants in eight groups, so that no step handles all of them.\<close>

definition iK8 :: "nat \<Rightarrow> int list" where
  "iK8 j = map uint (take 8 (drop (8 * j) K))"

lemma iK8_eval:
  "iK8 0 = [1116352408, 1899447441, 3049323471, 3921009573, 961987163, 1508970993, 2453635748, 2870763221]"
  "iK8 (Suc 0) = [3624381080, 310598401, 607225278, 1426881987, 1925078388, 2162078206, 2614888103, 3248222580]"
  "iK8 2 = [3835390401, 4022224774, 264347078, 604807628, 770255983, 1249150122, 1555081692, 1996064986]"
  "iK8 3 = [2554220882, 2821834349, 2952996808, 3210313671, 3336571891, 3584528711, 113926993, 338241895]"
  "iK8 4 = [666307205, 773529912, 1294757372, 1396182291, 1695183700, 1986661051, 2177026350, 2456956037]"
  "iK8 5 = [2730485921, 2820302411, 3259730800, 3345764771, 3516065817, 3600352804, 4094571909, 275423344]"
  "iK8 6 = [430227734, 506948616, 659060556, 883997877, 958139571, 1322822218, 1537002063, 1747873779]"
  "iK8 7 = [1955562222, 2024104815, 2227730452, 2361852424, 2428436474, 2756734187, 3204031479, 3329325298]"
  by (simp_all add: iK8_def K_def)

lemma iK_groups: "iK = iK8 0 @ iK8 (Suc 0) @ iK8 2 @ iK8 3 @ iK8 4 @ iK8 5 @ iK8 6 @ iK8 7"
  unfolding iK8_eval by (simp add: iK_def K_def)

lemma ihash_runs: "ihash bs = isum (iadd iH0 (snd (irun (iK8 7) (irun (iK8 6) (irun (iK8 5) (irun (iK8 4)
    (irun (iK8 3) (irun (iK8 2) (irun (iK8 (Suc 0)) (irun (iK8 0) (iwords (bs @ [128] @ replicate (55 - length bs) 0 @
     [0, 0, 0, 0, 0, 0, int (8 * length bs) div 256, int (8 * length bs) mod 256]), iH0)))))))))))"
  by (simp only: ihash_def icompress_irun iK_groups irun_append)

lemma iH0_eval: "iH0 = (1779033703, 3144134277, 1013904242, 2773480762, 1359893119, 2600822924, 528734635, 1541459225)"
  by (simp add: iH0_def fips_H0_eq)

end
