(* ===== verification/File_System.thy ===== *)
theory File_System
  imports Prelude
begin

text \<open>
  The part of the file system that \<open>core/src/chain_writer/chain_writer.cpp\<close> uses, as an
  explicit state: the directories that exist, the contents of the files and the paths the process
  may not open. \<open>fopen\<close> in mode \<open>ab\<close> creates a missing file in an existing
  directory and fails otherwise, and no file has the empty path; writes are complete. The lemmas are about files that only grow.
\<close>

record file_system =
  dirs :: "string list"
  files :: "string \<rightharpoonup> string"
  denied :: "string list"

definition is_directory :: "string \<Rightarrow> file_system \<Rightarrow> bool" where
  "is_directory p fs \<longleftrightarrow> p \<in> set (dirs fs)"

definition create_directory :: "string \<Rightarrow> file_system \<Rightarrow> file_system result" where
  "create_directory p fs =
     (if p \<in> set (denied fs) \<or> files fs p \<noteq> None then Inl Thrown_filesystem_error
      else Inr (fs\<lparr>dirs := p # dirs fs\<rparr>))"

definition directory_of :: "string \<Rightarrow> string" where
  "directory_of p = rev (drop 1 (dropWhile (\<lambda>c. c \<noteq> CHR ''/'') (rev p)))"

definition fopen_append :: "string \<Rightarrow> file_system \<Rightarrow> file_system option" where
  "fopen_append p fs =
     (if p \<in> set (denied fs) \<or> \<not> is_directory (directory_of p) fs then None
      else Some (fs\<lparr>files := (files fs)(p \<mapsto> (case files fs p of None \<Rightarrow> '''' | Some c \<Rightarrow> c))\<rparr>))"

definition fwrite :: "string \<Rightarrow> string \<Rightarrow> file_system \<Rightarrow> file_system" where
  "fwrite p s fs = fs\<lparr>files := (files fs)(p \<mapsto> (case files fs p of None \<Rightarrow> '''' | Some c \<Rightarrow> c) @ s)\<rparr>"

definition fopen_read :: "string \<Rightarrow> file_system \<Rightarrow> string option" where
  "fopen_read p fs = (if p = '''' \<or> p \<in> set (denied fs) then None else files fs p)"

text \<open>Every file of \<open>fs\<close> is still there, with bytes only added at its end.\<close>

definition fs_grows :: "file_system \<Rightarrow> file_system \<Rightarrow> bool" where
  "fs_grows fs fs' \<longleftrightarrow> denied fs' = denied fs \<and> set (dirs fs) \<subseteq> set (dirs fs') \<and>
     (\<forall>p c. files fs p = Some c \<longrightarrow> (\<exists>d. files fs' p = Some (c @ d)))"

lemma fs_grows_refl [simp]: "fs_grows fs fs"
  by (auto simp: fs_grows_def intro: exI [of _ "''''"])

lemma fs_grows_trans: "fs_grows fs fs' \<Longrightarrow> fs_grows fs' fs'' \<Longrightarrow> fs_grows fs fs''"
  unfolding fs_grows_def by (metis append_assoc order_trans)

lemma fs_grows_create: "create_directory p fs = Inr fs' \<Longrightarrow> fs_grows fs fs'"
  by (auto simp: create_directory_def fs_grows_def split: if_splits intro: exI [of _ "''''"])

lemma fs_grows_fopen: "fopen_append p fs = Some fs' \<Longrightarrow> fs_grows fs fs'"
  by (auto simp: fopen_append_def fs_grows_def split: if_splits intro: exI [of _ "''''"])

lemma fs_grows_fwrite: "fs_grows fs (fwrite p s fs)"
  by (auto simp: fwrite_def fs_grows_def)

end
