(* ===== verification/Proto_Runtime.thy ===== *)
theory Proto_Runtime
  imports Prelude
begin

text \<open>
  The protocol-buffer runtime that the generated code of \<open>core/src/proto/crypt.pb.cc\<close>
  calls. The runtime is not part of the repository: it is the record \<open>runtime\<close>, an argument
  of every definition that uses it, with one field per runtime function (named as the generated
  code names it). A \<open>const char*\<close> into the input is the list of bytes that are left,
  \<open>None\<close> is \<open>nullptr\<close>; an output function returns the bytes it appends.
  \<open>'u\<close> is the runtime's set of unknown fields. The locale \<open>protobuf_runtime\<close> states
  the documented behaviour the round trips rely on. The parse loop, which is the same in all nine
  messages, and the entry points of the message base class are defined here once.
\<close>

section \<open>The runtime's functions\<close>

record 'u runtime =
  WriteUInt32ToArray :: "nat \<Rightarrow> uint32 \<Rightarrow> string"
  WriteBoolToArray :: "nat \<Rightarrow> bool \<Rightarrow> string"
  WriteUInt32Packed :: "nat \<Rightarrow> uint32 list \<Rightarrow> nat \<Rightarrow> string"
  WriteStringMaybeAliased :: "nat \<Rightarrow> string \<Rightarrow> string"
  InternalWriteMessage :: "nat \<Rightarrow> nat \<Rightarrow> string \<Rightarrow> string"
  UInt32Size :: "uint32 \<Rightarrow> nat"
  UInt32SizeRepeated :: "uint32 list \<Rightarrow> nat"
  Int32Size :: "nat \<Rightarrow> nat"
  StringSize :: "string \<Rightarrow> nat"
  MessageSize :: "nat \<Rightarrow> nat"
  ReadTag :: "string \<Rightarrow> uint32 \<times> string option"
  ReadVarint32 :: "string \<Rightarrow> uint32 \<times> string option"
  ReadVarint64 :: "string \<Rightarrow> uint64 \<times> string option"
  InlineGreedyStringParser :: "string \<Rightarrow> string \<Rightarrow> string \<times> string option"
  PackedUInt32Parser :: "uint32 list \<Rightarrow> string \<Rightarrow> uint32 list \<times> string option"
  ReadDelimited :: "string \<Rightarrow> (string \<times> string) option"
  ExpectTag :: "uint32 \<Rightarrow> string \<Rightarrow> bool"
  VerifyUTF8 :: "string \<Rightarrow> bool"
  no_unknown_fields :: 'u
  have_unknown_fields :: "'u \<Rightarrow> bool"
  MergeUnknownFields :: "'u \<Rightarrow> 'u \<Rightarrow> 'u"
  UnknownFieldParse :: "uint32 \<Rightarrow> 'u \<Rightarrow> string \<Rightarrow> 'u \<times> string option"
  InternalSerializeUnknownFields :: "'u \<Rightarrow> string"
  ComputeUnknownFieldsSize :: "'u \<Rightarrow> nat \<Rightarrow> nat"

section \<open>The parse loop of the generated code\<close>

text \<open>
  One iteration of \<open>while (!ctx->Done(&ptr))\<close>: go on, stop at an end-group tag
  (\<open>goto success\<close>) or \<open>goto failure\<close>. The message as filled in so far is kept
  in every case, because the callers ignore the result of \<open>ParseFromString\<close>.
\<close>

datatype 'm step = Cont 'm string | Stop 'm string | Fail 'm

datatype 'm parsed = Parsed 'm | Ended 'm string | Failed 'm

fun parsed_message :: "'m parsed \<Rightarrow> 'm" where
  "parsed_message (Parsed m) = m"
| "parsed_message (Ended m r) = m"
| "parsed_message (Failed m) = m"

partial_function (option) parse_loop ::
  "'u runtime \<Rightarrow> ('m \<Rightarrow> uint32 \<Rightarrow> string \<Rightarrow> 'm step option) \<Rightarrow> string \<Rightarrow> 'm \<Rightarrow> 'm parsed option" where
  "parse_loop rt field ptr m =
     (if ptr = [] then Some (Parsed m)
      else case ReadTag rt ptr of
        (tag, None) \<Rightarrow> Some (Failed m)
      | (tag, Some p) \<Rightarrow>
          Option.bind (field m tag p) (\<lambda>st. case st of
            Cont m' p' \<Rightarrow> parse_loop rt field p' m'
          | Stop m' p' \<Rightarrow> Some (Ended m' p')
          | Fail m' \<Rightarrow> Some (Failed m')))"

lemma parse_loop_Nil: "parse_loop rt field '''' m = Some (Parsed m)"
  by (simp add: parse_loop.simps)

text \<open>\<open>case n: if (static_cast<uint8>(tag) == b)\<close>\<close>

definition on_tag :: "uint32 \<Rightarrow> uint32 \<Rightarrow> uint8 \<Rightarrow> bool" where
  "on_tag tag n b \<longleftrightarrow> drop_bit 3 tag = n \<and> ucast tag = b"

text \<open>Storing what a reader returned, then \<open>CHK_(ptr)\<close>.\<close>

fun field_step :: "('v \<Rightarrow> 'm) \<Rightarrow> 'v \<times> string option \<Rightarrow> 'm step" where
  "field_step upd (v, None) = Fail (upd v)"
| "field_step upd (v, Some p) = Cont (upd v) p"

text \<open>A string field also checks UTF-8 before the pointer.\<close>

fun string_step :: "'u runtime \<Rightarrow> (string \<Rightarrow> 'm) \<Rightarrow> string \<times> string option \<Rightarrow> 'm step" where
  "string_step rt upd (s, p) = (if VerifyUTF8 rt s then field_step upd (s, p) else Fail (upd s))"

text \<open>The label \<open>handle_unusual\<close>.\<close>

definition handle_unusual ::
  "'u runtime \<Rightarrow> uint32 \<Rightarrow> ('u \<Rightarrow> 'm) \<Rightarrow> 'u \<Rightarrow> 'm \<Rightarrow> string \<Rightarrow> 'm step" where
  "handle_unusual rt tag upd u m ptr =
     (if tag = 0 \<or> tag AND 7 = 4 then Stop m ptr
      else field_step upd (UnknownFieldParse rt tag u ptr))"

text \<open>\<open>ctx->ParseMessage(msg, ptr)\<close>: a length, then the message within that limit.\<close>

definition ParseMessage ::
  "'u runtime \<Rightarrow> (string \<Rightarrow> 'x \<Rightarrow> 'x parsed option) \<Rightarrow> 'x \<Rightarrow> string \<Rightarrow> ('x \<times> string option) option" where
  "ParseMessage rt parse x ptr =
     (case ReadDelimited rt ptr of
        None \<Rightarrow> Some (x, None)
      | Some (body, rest) \<Rightarrow>
          Option.bind (parse body x) (\<lambda>res. case res of
            Parsed x' \<Rightarrow> Some (x', Some rest)
          | Ended x' r \<Rightarrow> Some (x', None)
          | Failed x' \<Rightarrow> Some (x', None)))"

text \<open>The inner \<open>do \<dots> while (ExpectTag<t>(ptr))\<close> of a repeated message field.\<close>

partial_function (option) parse_repeated ::
  "'u runtime \<Rightarrow> uint32 \<Rightarrow> (string \<Rightarrow> 'x \<Rightarrow> 'x parsed option) \<Rightarrow> 'x \<Rightarrow> ('x \<Rightarrow> 'm \<Rightarrow> 'm) \<Rightarrow> string \<Rightarrow> 'm \<Rightarrow> 'm step option" where
  "parse_repeated rt t parse new add ptr m =
     Option.bind (ParseMessage rt parse new ptr) (\<lambda>res. case res of
       (x, None) \<Rightarrow> Some (Fail (add x m))
     | (x, Some p) \<Rightarrow>
         (if p = [] then Some (Cont (add x m) p)
          else if ExpectTag rt t p then parse_repeated rt t parse new add (drop 1 p) (add x m)
          else Some (Cont (add x m) p)))"

text \<open>
  \<open>ParseFromString\<close> clears the message and parses; \<open>SerializeToString\<close> computes (and
  caches) the sizes, refuses more than \<open>INT_MAX\<close> bytes and writes the message.
\<close>

definition INT_MAX :: nat where
  "INT_MAX = 2147483647"

definition ParseFromString ::
  "('m \<Rightarrow> 'm) \<Rightarrow> (string \<Rightarrow> 'm \<Rightarrow> 'm parsed option) \<Rightarrow> string \<Rightarrow> 'm \<Rightarrow> 'm result" where
  "ParseFromString clear parse s m =
     (case parse s (clear m) of None \<Rightarrow> Inl Diverges | Some res \<Rightarrow> Inr (parsed_message res))"

definition SerializeToString :: "('m \<Rightarrow> nat \<times> 'm) \<Rightarrow> ('m \<Rightarrow> string) \<Rightarrow> 'm \<Rightarrow> string" where
  "SerializeToString byte_size write m =
     (let (n, m') = byte_size m in if INT_MAX < n then '''' else write m')"

text \<open>The end of every \<open>ByteSizeLong\<close>.\<close>

definition with_unknown_size :: "'u runtime \<Rightarrow> 'u \<Rightarrow> nat \<Rightarrow> nat" where
  "with_unknown_size rt u n = (if have_unknown_fields rt u then ComputeUnknownFieldsSize rt u n else n)"

definition unknown_bytes :: "'u runtime \<Rightarrow> 'u \<Rightarrow> string" where
  "unknown_bytes rt u = (if have_unknown_fields rt u then InternalSerializeUnknownFields rt u else '''')"

text \<open>
  What makes the loop end: a step is taken, and if the loop goes on, no byte that was consumed
  comes back.
\<close>

fun advances :: "string \<Rightarrow> 'm step option \<Rightarrow> bool" where
  "advances p (Some (Cont m p')) \<longleftrightarrow> length p' \<le> length p"
| "advances p None \<longleftrightarrow> False"
| "advances p st \<longleftrightarrow> True"

lemma merge_ifs [codec_simps]:
  "(if x \<noteq> y then x else y) = x" "(if b then b else c) = (b \<or> c)" "(if b then b else False) = b"
  by simp_all

lemma on_tag_numeral [codec_simps]:
  "on_tag (numeral t) n b \<longleftrightarrow> drop_bit 3 (numeral t) = n \<and> ucast (numeral t :: uint32) = b"
  by (simp add: on_tag_def)

section \<open>What the runtime documents\<close>

text \<open>
  Field numbers up to fifteen have a one-byte tag; a value that was written is read back, whatever
  follows it; lengths up to \<open>INT_MAX - 16\<close> (the slop bytes) are accepted; the size functions give the number of
  bytes the writers produce, at most five for a 32-bit number; a reader never moves backwards; ASCII is valid UTF-8; a fresh set of
  unknown fields is empty.
\<close>

definition ascii :: "string \<Rightarrow> bool" where
  "ascii s \<longleftrightarrow> list_all (\<lambda>c. (of_char c :: nat) < 128) s"

definition MAX_SIZE :: nat where
  "MAX_SIZE = INT_MAX - 16"

lemma MAX_SIZE_le [simp]: "n \<le> MAX_SIZE \<Longrightarrow> \<not> INT_MAX < n"
  by (simp add: MAX_SIZE_def)

locale protobuf_runtime =
  fixes rt :: "'u runtime"
  assumes tag_uint32: "1 \<le> f \<Longrightarrow> f \<le> 15 \<Longrightarrow>
      ReadTag rt (WriteUInt32ToArray rt f v @ r) = (of_nat (8 * f), Some (drop 1 (WriteUInt32ToArray rt f v) @ r))"
    and read_uint32: "1 \<le> f \<Longrightarrow> f \<le> 15 \<Longrightarrow>
      ReadVarint32 rt (drop 1 (WriteUInt32ToArray rt f v) @ r) = (v, Some r)"
    and size_uint32: "1 \<le> f \<Longrightarrow> f \<le> 15 \<Longrightarrow> length (WriteUInt32ToArray rt f v) = 1 + UInt32Size rt v"
    and size_uint32_le: "UInt32Size rt v \<le> 5"
    and tag_bool: "1 \<le> f \<Longrightarrow> f \<le> 15 \<Longrightarrow>
      ReadTag rt (WriteBoolToArray rt f c @ r) = (of_nat (8 * f), Some (drop 1 (WriteBoolToArray rt f c) @ r))"
    and read_bool: "1 \<le> f \<Longrightarrow> f \<le> 15 \<Longrightarrow>
      ReadVarint64 rt (drop 1 (WriteBoolToArray rt f c) @ r) = (of_bool c, Some r)"
    and size_bool: "1 \<le> f \<Longrightarrow> f \<le> 15 \<Longrightarrow> length (WriteBoolToArray rt f c) = 2"
    and tag_packed: "1 \<le> f \<Longrightarrow> f \<le> 15 \<Longrightarrow> UInt32SizeRepeated rt vs \<le> MAX_SIZE \<Longrightarrow>
      ReadTag rt (WriteUInt32Packed rt f vs (UInt32SizeRepeated rt vs) @ r)
        = (of_nat (8 * f + 2), Some (drop 1 (WriteUInt32Packed rt f vs (UInt32SizeRepeated rt vs)) @ r))"
    and read_packed: "1 \<le> f \<Longrightarrow> f \<le> 15 \<Longrightarrow> UInt32SizeRepeated rt vs \<le> MAX_SIZE \<Longrightarrow>
      PackedUInt32Parser rt us (drop 1 (WriteUInt32Packed rt f vs (UInt32SizeRepeated rt vs)) @ r) = (us @ vs, Some r)"
    and size_packed: "1 \<le> f \<Longrightarrow> f \<le> 15 \<Longrightarrow>
      length (WriteUInt32Packed rt f vs (UInt32SizeRepeated rt vs))
        = 1 + Int32Size rt (UInt32SizeRepeated rt vs) + UInt32SizeRepeated rt vs"
    and size_repeated: "UInt32SizeRepeated rt vs = 0 \<longleftrightarrow> vs = []"
    and size_repeated_le: "UInt32SizeRepeated rt vs \<le> 5 * length vs"
    and size_int32_le: "n \<le> INT_MAX \<Longrightarrow> Int32Size rt n \<le> 5"
    and tag_string: "1 \<le> f \<Longrightarrow> f \<le> 15 \<Longrightarrow> length s \<le> MAX_SIZE \<Longrightarrow>
      ReadTag rt (WriteStringMaybeAliased rt f s @ r)
        = (of_nat (8 * f + 2), Some (drop 1 (WriteStringMaybeAliased rt f s) @ r))"
    and read_string: "1 \<le> f \<Longrightarrow> f \<le> 15 \<Longrightarrow> length s \<le> MAX_SIZE \<Longrightarrow>
      InlineGreedyStringParser rt old (drop 1 (WriteStringMaybeAliased rt f s) @ r) = (s, Some r)"
    and size_string: "1 \<le> f \<Longrightarrow> f \<le> 15 \<Longrightarrow> length (WriteStringMaybeAliased rt f s) = 1 + StringSize rt s"
    and size_string_ge: "length s \<le> StringSize rt s"
    and size_string_le: "length s \<le> INT_MAX \<Longrightarrow> StringSize rt s \<le> length s + 5"
    and tag_message: "1 \<le> f \<Longrightarrow> f \<le> 15 \<Longrightarrow> length b \<le> MAX_SIZE \<Longrightarrow>
      ReadTag rt (InternalWriteMessage rt f (length b) b @ r)
        = (of_nat (8 * f + 2), Some (drop 1 (InternalWriteMessage rt f (length b) b) @ r))"
    and read_message: "1 \<le> f \<Longrightarrow> f \<le> 15 \<Longrightarrow> length b \<le> MAX_SIZE \<Longrightarrow>
      ReadDelimited rt (drop 1 (InternalWriteMessage rt f (length b) b) @ r) = Some (b, r)"
    and size_message: "1 \<le> f \<Longrightarrow> f \<le> 15 \<Longrightarrow>
      length (InternalWriteMessage rt f (length b) b) = 1 + MessageSize rt (length b)"
    and size_message_ge: "n \<le> MessageSize rt n"
    and size_message_le: "n \<le> INT_MAX \<Longrightarrow> MessageSize rt n \<le> n + 5"
    and expect_tag: "p \<noteq> [] \<Longrightarrow> ExpectTag rt t p \<Longrightarrow> ReadTag rt p = (t, Some (drop 1 p))"
    and shrink_tag: "ReadTag rt p = (t, Some p') \<Longrightarrow> length p' < length p"
    and shrink_varint32: "ReadVarint32 rt p = (v, Some p') \<Longrightarrow> length p' \<le> length p"
    and shrink_varint64: "ReadVarint64 rt p = (w, Some p') \<Longrightarrow> length p' \<le> length p"
    and shrink_string: "InlineGreedyStringParser rt old p = (s, Some p') \<Longrightarrow> length p' \<le> length p"
    and shrink_packed: "PackedUInt32Parser rt us p = (vs, Some p') \<Longrightarrow> length p' \<le> length p"
    and shrink_message: "ReadDelimited rt p = Some (b, p') \<Longrightarrow> length b + length p' \<le> length p"
    and shrink_unknown: "UnknownFieldParse rt t u p = (u', Some p') \<Longrightarrow> length p' \<le> length p"
    and utf8_ascii: "ascii s \<Longrightarrow> VerifyUTF8 rt s"
    and no_unknown: "\<not> have_unknown_fields rt (no_unknown_fields rt)"
    and size_unknown: "ComputeUnknownFieldsSize rt u n = n + length (InternalSerializeUnknownFields rt u)"
    and merge_none: "\<not> have_unknown_fields rt u \<Longrightarrow> MergeUnknownFields rt u0 u = u0"
begin

lemma with_unknown_size_eq: "with_unknown_size rt u n = n + length (unknown_bytes rt u)"
  by (simp add: with_unknown_size_def unknown_bytes_def size_unknown)

lemma nonempty_uint32: "1 \<le> f \<Longrightarrow> f \<le> 15 \<Longrightarrow> WriteUInt32ToArray rt f v \<noteq> []"
  using size_uint32 [of f v] by auto

lemma nonempty_bool: "1 \<le> f \<Longrightarrow> f \<le> 15 \<Longrightarrow> WriteBoolToArray rt f b \<noteq> []"
  using size_bool [of f b] by auto

lemma nonempty_packed: "1 \<le> f \<Longrightarrow> f \<le> 15 \<Longrightarrow> WriteUInt32Packed rt f vs (UInt32SizeRepeated rt vs) \<noteq> []"
  using size_packed [of f vs] by auto

lemma nonempty_string: "1 \<le> f \<Longrightarrow> f \<le> 15 \<Longrightarrow> WriteStringMaybeAliased rt f s \<noteq> []"
  using size_string [of f s] by auto

lemma nonempty_message: "1 \<le> f \<Longrightarrow> f \<le> 15 \<Longrightarrow> InternalWriteMessage rt f (length b) b \<noteq> []"
  using size_message [of f b] by auto

text \<open>The length of what is written for a field, as the size functions count it.\<close>

lemma length_uint32: "1 \<le> f \<Longrightarrow> f \<le> 15 \<Longrightarrow>
    length (if v \<noteq> 0 then WriteUInt32ToArray rt f v else '''') = (if v \<noteq> 0 then 1 + UInt32Size rt v else 0)"
  by (simp add: size_uint32)

lemma length_bool: "1 \<le> f \<Longrightarrow> f \<le> 15 \<Longrightarrow>
    length (if b then WriteBoolToArray rt f b else '''') = (if b then 1 + 1 else 0)"
  by (simp add: size_bool)

lemma length_string: "1 \<le> f \<Longrightarrow> f \<le> 15 \<Longrightarrow>
    length (if s \<noteq> '''' then WriteStringMaybeAliased rt f s else '''') = (if s \<noteq> '''' then 1 + StringSize rt s else 0)"
  by (simp add: size_string)

lemma length_packed: "1 \<le> f \<Longrightarrow> f \<le> 15 \<Longrightarrow>
    length (if 0 < UInt32SizeRepeated rt vs then WriteUInt32Packed rt f vs (UInt32SizeRepeated rt vs) else '''')
      = (if 0 < UInt32SizeRepeated rt vs then 1 + Int32Size rt (UInt32SizeRepeated rt vs) else 0)
        + UInt32SizeRepeated rt vs"
  by (simp add: size_packed)

lemmas length_fields = length_append length_uint32 length_bool length_string length_packed

text \<open>How many bytes a field takes at most.\<close>

lemma written_uint32_le: "1 \<le> f \<Longrightarrow> f \<le> 15 \<Longrightarrow>
    length (if v \<noteq> 0 then WriteUInt32ToArray rt f v else '''') \<le> 6"
  using size_uint32_le [of v] by (simp add: size_uint32)

lemma written_bool_le: "1 \<le> f \<Longrightarrow> f \<le> 15 \<Longrightarrow> length (if b then WriteBoolToArray rt f b else '''') \<le> 2"
  by (simp add: size_bool)

lemma written_string_le: "1 \<le> f \<Longrightarrow> f \<le> 15 \<Longrightarrow> length s \<le> INT_MAX \<Longrightarrow>
    length (if s \<noteq> '''' then WriteStringMaybeAliased rt f s else '''') \<le> 6 + length s"
  using size_string_le [of s] by (simp add: size_string)

lemma written_packed_le: "1 \<le> f \<Longrightarrow> f \<le> 15 \<Longrightarrow> 5 * length vs \<le> INT_MAX \<Longrightarrow>
    length (if 0 < UInt32SizeRepeated rt vs then WriteUInt32Packed rt f vs (UInt32SizeRepeated rt vs) else '''')
      \<le> 6 + 5 * length vs"
  using size_repeated_le [of vs] size_int32_le [of "UInt32SizeRepeated rt vs"] by (simp add: size_packed)

lemma message_written_le: "1 \<le> f \<Longrightarrow> f \<le> 15 \<Longrightarrow> length b \<le> n \<Longrightarrow> n \<le> INT_MAX \<Longrightarrow>
    length (InternalWriteMessage rt f (length b) b) \<le> 6 + n"
  using size_message_le [of "length b"] by (simp add: size_message)

lemma written_messages_le:
  assumes "1 \<le> f" "f \<le> 15" "\<And>x. x \<in> set xs \<Longrightarrow> length (g x) \<le> w x \<and> w x \<le> INT_MAX"
  shows "length (concat (map (\<lambda>b. InternalWriteMessage rt f (length b) b) (map g xs)))
    \<le> sum_list (map (\<lambda>x. 6 + w x) xs)"
  using assms(3)
proof (induction xs)
  case (Cons x xs)
  then show ?case using message_written_le [OF assms(1,2), of "g x" "w x"] by fastforce
qed simp

text \<open>
  One field of each kind, whatever the message: the loop over what the writer produced is the loop
  over the rest, from the message with the field stored.
\<close>

lemma loop_end [simp]: "parse_loop rt field [] m = Some (Parsed m)"
  by (simp add: parse_loop.simps)

lemma loop_field:
  assumes "p \<noteq> []" "ReadTag rt p = (t, Some q)" "field m t q = Some (Cont m' r)"
  shows "parse_loop rt field p m = parse_loop rt field r m'"
  using assms by (subst parse_loop.simps) simp

lemma loop_uint32:
  assumes f: "1 \<le> f" "f \<le> 15"
    and field: "\<And>p. field m (of_nat (8 * f)) p = Some (field_step upd (ReadVarint32 rt p))"
  shows "parse_loop rt field ((if v \<noteq> 0 then WriteUInt32ToArray rt f v else '''') @ r) m
    = parse_loop rt field r (if v \<noteq> 0 then upd v else m)"
proof (cases "v = 0")
  case False
  have "parse_loop rt field (WriteUInt32ToArray rt f v @ r) m = parse_loop rt field r (upd v)"
    by (rule loop_field [OF _ tag_uint32 [OF f]])
      (simp_all only: field read_uint32 [OF f] field_step.simps append_is_Nil_conv nonempty_uint32 [OF f] simp_thms)
  with False show ?thesis by simp
qed simp

lemma loop_bool:
  assumes f: "1 \<le> f" "f \<le> 15"
    and field: "\<And>p. field m (of_nat (8 * f)) p = Some (field_step (\<lambda>w. upd (w \<noteq> 0)) (ReadVarint64 rt p))"
  shows "parse_loop rt field ((if b then WriteBoolToArray rt f b else '''') @ r) m
    = parse_loop rt field r (if b then upd b else m)"
proof (cases b)
  case True
  have "parse_loop rt field (WriteBoolToArray rt f True @ r) m = parse_loop rt field r (upd True)"
    by (rule loop_field [OF _ tag_bool [OF f]])
      (simp_all only: field read_bool [OF f] field_step.simps append_is_Nil_conv nonempty_bool [OF f]
        simp_thms of_bool_eq one_neq_zero)
  with True show ?thesis by simp
qed simp

lemma loop_packed:
  assumes f: "1 \<le> f" "f \<le> 15" and n: "UInt32SizeRepeated rt vs \<le> MAX_SIZE"
    and field: "\<And>p. field m (of_nat (8 * f + 2)) p = Some (field_step upd (PackedUInt32Parser rt us p))"
  shows "parse_loop rt field
      ((if 0 < UInt32SizeRepeated rt vs then WriteUInt32Packed rt f vs (UInt32SizeRepeated rt vs) else '''') @ r) m
    = parse_loop rt field r (if vs \<noteq> [] then upd (us @ vs) else m)"
proof (cases "vs = []")
  case False
  have "parse_loop rt field (WriteUInt32Packed rt f vs (UInt32SizeRepeated rt vs) @ r) m
      = parse_loop rt field r (upd (us @ vs))"
    by (rule loop_field [OF _ tag_packed [OF f n]])
      (simp_all only: field read_packed [OF f n] field_step.simps append_is_Nil_conv nonempty_packed [OF f] simp_thms)
  with False size_repeated [of vs] show ?thesis by simp
next
  case True
  with size_repeated [of vs] show ?thesis by simp
qed

lemma loop_string:
  assumes f: "1 \<le> f" "f \<le> 15" and s: "length s \<le> MAX_SIZE" "ascii s"
    and field: "\<And>p. field m (of_nat (8 * f + 2)) p = Some (string_step rt upd (InlineGreedyStringParser rt old p))"
  shows "parse_loop rt field ((if s \<noteq> '''' then WriteStringMaybeAliased rt f s else '''') @ r) m
    = parse_loop rt field r (if s \<noteq> '''' then upd s else m)"
proof (cases "s = ''''")
  case False
  have "parse_loop rt field (WriteStringMaybeAliased rt f s @ r) m = parse_loop rt field r (upd s)"
    by (rule loop_field [OF _ tag_string [OF f s(1)]])
      (simp_all only: field read_string [OF f s(1)] string_step.simps field_step.simps utf8_ascii [OF s(2)]
        append_is_Nil_conv nonempty_string [OF f] simp_thms if_True)
  with False show ?thesis by simp
qed simp

lemma ParseMessage_written:
  assumes "1 \<le> f" "f \<le> 15" "length b \<le> MAX_SIZE" "parse b x = Some (Parsed y)"
  shows "ParseMessage rt parse x (drop 1 (InternalWriteMessage rt f (length b) b) @ r) = Some (y, Some r)"
  unfolding ParseMessage_def read_message [OF assms(1-3)] by (simp add: assms(4))

lemma loop_message:
  assumes f: "1 \<le> f" "f \<le> 15" and b: "length b \<le> MAX_SIZE" and parse: "parse b x = Some (Parsed y)"
    and field: "\<And>p. field m (of_nat (8 * f + 2)) p = map_option (field_step upd) (ParseMessage rt parse x p)"
  shows "parse_loop rt field (InternalWriteMessage rt f (length b) b @ r) m = parse_loop rt field r (upd y)"
  by (rule loop_field [OF _ tag_message [OF f b]])
    (simp_all only: field ParseMessage_written [OF f b, of parse, OF parse] option.map field_step.simps
      append_is_Nil_conv nonempty_message [OF f] simp_thms)

text \<open>
  The inner loop over a repeated message field is an optimisation: handling one message at a time
  in the outer loop gives the same result.
\<close>

lemma loop_repeated_one:
  assumes "1 \<le> f" "f \<le> 15" "length b \<le> MAX_SIZE" "parse b new = Some (Parsed y)"
    and field: "\<And>m p. field m (of_nat (8 * f + 2)) p = parse_repeated rt (of_nat (8 * f + 2)) parse new add p m"
  shows "parse_loop rt field (InternalWriteMessage rt f (length b) b @ r) m = parse_loop rt field r (add y m)"
proof -
  define t :: uint32 where "t = of_nat (8 * f + 2)"
  let ?w = "InternalWriteMessage rt f (length b) b"
  let ?k = "\<lambda>st. case st of Cont m' p' \<Rightarrow> parse_loop rt field p' m'
    | Stop m' p' \<Rightarrow> Some (Ended m' p') | Fail m' \<Rightarrow> Some (Failed m')"
  have fld: "field m t p = parse_repeated rt t parse new add p m" for m p
    unfolding t_def by (rule field)
  have loop: "parse_loop rt field p m = Option.bind (field m t q) ?k"
    if "p \<noteq> []" "ReadTag rt p = (t, Some q)" for p q m
    using that by (subst parse_loop.simps) simp
  have pm: "ParseMessage rt parse new (drop 1 ?w @ r) = Some (y, Some r)"
    using assms by (intro ParseMessage_written) auto
  have "parse_loop rt field (?w @ r) m = Option.bind (parse_repeated rt t parse new add (drop 1 ?w @ r) m) ?k"
    unfolding fld [symmetric]
    by (rule loop) (simp_all only: tag_message [OF assms(1-3)] t_def append_is_Nil_conv
        nonempty_message [OF assms(1,2)] simp_thms)
  also have "\<dots> = parse_loop rt field r (add y m)"
  proof (cases "r \<noteq> [] \<and> ExpectTag rt t r")
    case True
    then have "parse_repeated rt t parse new add (drop 1 ?w @ r) m
        = parse_repeated rt t parse new add (drop 1 r) (add y m)"
      by (subst parse_repeated.simps, subst pm) simp
    moreover have "parse_loop rt field r (add y m)
        = Option.bind (parse_repeated rt t parse new add (drop 1 r) (add y m)) ?k"
      using True expect_tag [of r t] by (subst loop [of _ "drop 1 r"]) (simp_all add: fld)
    ultimately show ?thesis by simp
  next
    case False
    then show ?thesis by (subst parse_repeated.simps, subst pm) auto
  qed
  finally show ?thesis .
qed

lemma loop_repeated:
  assumes "1 \<le> f" "f \<le> 15" "list_all2 (\<lambda>b y. length b \<le> MAX_SIZE \<and> parse b new = Some (Parsed y)) bs ys"
    and field: "\<And>m p. field m (of_nat (8 * f + 2)) p = parse_repeated rt (of_nat (8 * f + 2)) parse new add p m"
  shows "parse_loop rt field (concat (map (\<lambda>b. InternalWriteMessage rt f (length b) b) bs) @ r) m
    = parse_loop rt field r (fold add ys m)"
  using assms(3)
proof (induction arbitrary: m rule: list_all2_induct)
  case Nil
  then show ?case by simp
next
  case (Cons b bs y ys)
  then show ?case
    using loop_repeated_one [where parse = parse and new = new and add = add and field = field,
        OF assms(1,2) _ _ field, of b y
        "concat (map (\<lambda>b. InternalWriteMessage rt f (length b) b) bs) @ r" m]
    by simp
qed

lemma written_message_le:
  assumes "1 \<le> f" "f \<le> 15" "x \<in> set xs"
  shows "length (g x) \<le> length (concat (map (\<lambda>b. InternalWriteMessage rt f (length b) b) (map g xs)))"
proof -
  have "length (g x) \<le> length (InternalWriteMessage rt f (length (g x)) (g x))"
    using size_message_ge [of "length (g x)"] by (simp add: size_message [OF assms(1,2)])
  also have "\<dots> \<le> length (concat (map (\<lambda>b. InternalWriteMessage rt f (length b) b) (map g xs)))"
    unfolding length_concat by (rule member_le_sum_list) (use assms(3) in auto)
  finally show ?thesis .
qed

text \<open>Every parser returns, on any input: each round of the loop consumes a tag.\<close>

lemma parse_loop_total:
  assumes "\<And>m t p. length p < length ptr \<Longrightarrow> advances p (field m t p)"
  shows "parse_loop rt field ptr m \<noteq> None"
  using assms
proof (induction "length ptr" arbitrary: ptr m rule: less_induct)
  case less
  show ?case
  proof (cases "ptr = []")
    case False
    obtain t q where t: "ReadTag rt ptr = (t, q)" by (cases "ReadTag rt ptr")
    show ?thesis
    proof (cases q)
      case None
      with t False show ?thesis by (simp add: parse_loop.simps)
    next
      case (Some p)
      then have p: "length p < length ptr" using t shrink_tag by blast
      have "advances p (field m t p)" by (rule less.prems [OF p])
      moreover have "parse_loop rt field p' m' \<noteq> None" if "length p' \<le> length p" for p' m'
        using that p less.prems by (intro less.hyps) auto
      ultimately show ?thesis using False t Some
        by (subst parse_loop.simps) (auto split: step.splits elim: advances.elims)
    qed
  qed simp
qed

lemma advances_varint32 [simp]: "advances p (Some (field_step upd (ReadVarint32 rt p)))"
  by (cases "ReadVarint32 rt p"; cases "snd (ReadVarint32 rt p)") (auto dest: shrink_varint32)

lemma advances_varint64 [simp]: "advances p (Some (field_step upd (ReadVarint64 rt p)))"
  by (cases "ReadVarint64 rt p"; cases "snd (ReadVarint64 rt p)") (auto dest: shrink_varint64)

lemma advances_packed [simp]: "advances p (Some (field_step upd (PackedUInt32Parser rt us p)))"
  by (cases "PackedUInt32Parser rt us p"; cases "snd (PackedUInt32Parser rt us p)") (auto dest: shrink_packed)

lemma advances_string [simp]: "advances p (Some (string_step rt upd (InlineGreedyStringParser rt old p)))"
  by (cases "InlineGreedyStringParser rt old p"; cases "snd (InlineGreedyStringParser rt old p)")
    (auto dest: shrink_string)

lemma advances_unusual [simp]: "advances p (Some (handle_unusual rt t upd u m p))"
  by (cases "UnknownFieldParse rt t u p"; cases "snd (UnknownFieldParse rt t u p)")
    (auto simp: handle_unusual_def dest: shrink_unknown)

lemma ParseMessage_total:
  assumes "\<And>b x. length b \<le> length p \<Longrightarrow> parse b x \<noteq> None"
  shows "\<exists>y q. ParseMessage rt parse x p = Some (y, q) \<and> (\<forall>p'. q = Some p' \<longrightarrow> length p' \<le> length p)"
proof (cases "ReadDelimited rt p")
  case (Some br)
  obtain b r where br: "br = (b, r)" by (cases br)
  have "length b + length r \<le> length p" using Some br shrink_message by blast
  moreover obtain z where "parse b x = Some z" using calculation assms [of b x] by auto
  ultimately show ?thesis using Some br by (cases z) (auto simp: ParseMessage_def)
qed (simp add: ParseMessage_def)

lemma advances_message:
  assumes "\<And>b x. length b \<le> length p \<Longrightarrow> parse b x \<noteq> None"
  shows "advances p (map_option (field_step upd) (ParseMessage rt parse x p))"
proof -
  obtain y q where "ParseMessage rt parse x p = Some (y, q)" "\<forall>p'. q = Some p' \<longrightarrow> length p' \<le> length p"
    using ParseMessage_total [of p parse x, OF assms] by blast
  then show ?thesis by (cases q) auto
qed

lemma advances_repeated:
  assumes "\<And>b x. length b \<le> length p \<Longrightarrow> parse b x \<noteq> None"
  shows "advances p (parse_repeated rt t parse new add p m)"
  using assms
proof (induction "length p" arbitrary: p m rule: less_induct)
  case less
  obtain y q where q: "ParseMessage rt parse new p = Some (y, q)" "\<forall>p'. q = Some p' \<longrightarrow> length p' \<le> length p"
    using ParseMessage_total [of p parse new, OF less.prems] by blast
  show ?case
  proof (cases "\<exists>p'. q = Some p' \<and> p' \<noteq> [] \<and> ExpectTag rt t p'")
    case True
    then obtain p' where p': "q = Some p'" "p' \<noteq> []" "ExpectTag rt t p'" by blast
    have "length (drop 1 p') < length p" using q p' by (cases p') auto
    then have "advances (drop 1 p') (parse_repeated rt t parse new add (drop 1 p') (add y m))"
      using less.prems by (intro less.hyps) auto
    then have "advances p (parse_repeated rt t parse new add (drop 1 p') (add y m))"
      using \<open>length (drop 1 p') < length p\<close> by (auto elim!: advances.elims)
    then show ?thesis using q p' by (subst parse_repeated.simps) simp
  next
    case False
    then show ?thesis using q by (subst parse_repeated.simps) (cases q; auto)
  qed
qed

end

end
