(* ===== verification/Proto_Tx.thy ===== *)
theory Proto_Tx
  imports Proto_Runtime
begin

text \<open>
  The generated messages \<open>PTransactionInput\<close>, \<open>PTransactionOutput\<close> and
  \<open>PTransaction\<close> of \<open>core/src/proto/crypt.pb.cc\<close> and their
  accessors in \<open>core/include/proto/crypt.pb.h\<close>. A record has the metadata (unknown fields), the
  fields in the order of the class and the cached sizes; \<open>ByteSizeLong\<close> returns the size and the
  message with its caches filled, \<open>InternalSerialize\<close> reads the caches, \<open>field\<close> is
  the switch of the parse loop. The context blocks show that the parsers return on every input, that the size
  is the length of what is written, and that parsing what was written merges the message.
\<close>

section \<open>PTransactionInput\<close>

record 'u PTransactionInput =
  PTransactionInput_metadata :: 'u
  PTransactionInput_reference_transaction_hash :: uint32
  PTransactionInput_utxo_index :: uint32
  PTransactionInput_signature :: uint32
  PTransactionInput_cached_size :: nat

definition PTransactionInput_new :: "'u runtime \<Rightarrow> 'u PTransactionInput" where
  "PTransactionInput_new rt = \<lparr>
     PTransactionInput_metadata = no_unknown_fields rt,
     PTransactionInput_reference_transaction_hash = 0,
     PTransactionInput_utxo_index = 0,
     PTransactionInput_signature = 0,
     PTransactionInput_cached_size = 0\<rparr>"

definition PTransactionInput_set_reference_transaction_hash :: "uint32 \<Rightarrow> 'u PTransactionInput \<Rightarrow> 'u PTransactionInput" where
  [codec_simps]: "PTransactionInput_set_reference_transaction_hash v m = m\<lparr>PTransactionInput_reference_transaction_hash := v\<rparr>"

definition PTransactionInput_set_utxo_index :: "uint32 \<Rightarrow> 'u PTransactionInput \<Rightarrow> 'u PTransactionInput" where
  [codec_simps]: "PTransactionInput_set_utxo_index v m = m\<lparr>PTransactionInput_utxo_index := v\<rparr>"

definition PTransactionInput_set_signature :: "uint32 \<Rightarrow> 'u PTransactionInput \<Rightarrow> 'u PTransactionInput" where
  [codec_simps]: "PTransactionInput_set_signature v m = m\<lparr>PTransactionInput_signature := v\<rparr>"

definition PTransactionInput_Clear :: "'u runtime \<Rightarrow> 'u PTransactionInput \<Rightarrow> 'u PTransactionInput" where
  "PTransactionInput_Clear rt m = m\<lparr>
     PTransactionInput_reference_transaction_hash := 0,
     PTransactionInput_utxo_index := 0,
     PTransactionInput_signature := 0,
     PTransactionInput_metadata := no_unknown_fields rt\<rparr>"

definition PTransactionInput_ByteSizeLong :: "'u runtime \<Rightarrow> 'u PTransactionInput \<Rightarrow> nat \<times> 'u PTransactionInput" where
  "PTransactionInput_ByteSizeLong rt m =
     (let total_size = 0;
          total_size = total_size + (if PTransactionInput_reference_transaction_hash m \<noteq> 0 then 1 + UInt32Size rt (PTransactionInput_reference_transaction_hash m) else 0);
          total_size = total_size + (if PTransactionInput_utxo_index m \<noteq> 0 then 1 + UInt32Size rt (PTransactionInput_utxo_index m) else 0);
          total_size = total_size + (if PTransactionInput_signature m \<noteq> 0 then 1 + UInt32Size rt (PTransactionInput_signature m) else 0);
          total_size = with_unknown_size rt (PTransactionInput_metadata m) total_size
      in (total_size, m\<lparr>PTransactionInput_cached_size := total_size\<rparr>))"

definition PTransactionInput_InternalSerialize :: "'u runtime \<Rightarrow> 'u PTransactionInput \<Rightarrow> string" where
  "PTransactionInput_InternalSerialize rt m =
     (if PTransactionInput_reference_transaction_hash m \<noteq> 0 then WriteUInt32ToArray rt 1 (PTransactionInput_reference_transaction_hash m) else '''') @
     (if PTransactionInput_utxo_index m \<noteq> 0 then WriteUInt32ToArray rt 2 (PTransactionInput_utxo_index m) else '''') @
     (if PTransactionInput_signature m \<noteq> 0 then WriteUInt32ToArray rt 3 (PTransactionInput_signature m) else '''') @
     unknown_bytes rt (PTransactionInput_metadata m)"

definition PTransactionInput_field :: "'u runtime \<Rightarrow> 'u PTransactionInput \<Rightarrow> uint32 \<Rightarrow> string \<Rightarrow> ('u PTransactionInput) step option" where
  "PTransactionInput_field rt m tag ptr =
     (if on_tag tag 1 8 then
        Some (field_step (\<lambda>v. m\<lparr>PTransactionInput_reference_transaction_hash := v\<rparr>) (ReadVarint32 rt ptr))
      else if on_tag tag 2 16 then
        Some (field_step (\<lambda>v. m\<lparr>PTransactionInput_utxo_index := v\<rparr>) (ReadVarint32 rt ptr))
      else if on_tag tag 3 24 then
        Some (field_step (\<lambda>v. m\<lparr>PTransactionInput_signature := v\<rparr>) (ReadVarint32 rt ptr))
      else Some (handle_unusual rt tag (\<lambda>u. m\<lparr>PTransactionInput_metadata := u\<rparr>) (PTransactionInput_metadata m) m ptr))"

definition PTransactionInput_InternalParse :: "'u runtime \<Rightarrow> string \<Rightarrow> 'u PTransactionInput \<Rightarrow> ('u PTransactionInput) parsed option" where
  "PTransactionInput_InternalParse rt ptr m = parse_loop rt (PTransactionInput_field rt) ptr m"

definition PTransactionInput_MergeFrom :: "'u runtime \<Rightarrow> 'u PTransactionInput \<Rightarrow> 'u PTransactionInput \<Rightarrow> 'u PTransactionInput" where
  "PTransactionInput_MergeFrom rt from m =
     (let m = m\<lparr>PTransactionInput_metadata := MergeUnknownFields rt (PTransactionInput_metadata m) (PTransactionInput_metadata from)\<rparr>;
          m = (if PTransactionInput_reference_transaction_hash from \<noteq> 0 then PTransactionInput_set_reference_transaction_hash (PTransactionInput_reference_transaction_hash from) m else m);
          m = (if PTransactionInput_utxo_index from \<noteq> 0 then PTransactionInput_set_utxo_index (PTransactionInput_utxo_index from) m else m);
          m = (if PTransactionInput_signature from \<noteq> 0 then PTransactionInput_set_signature (PTransactionInput_signature from) m else m)
      in m)"

lemma PTransactionInput_merge_reference_transaction_hash: "(if c then PTransactionInput_set_reference_transaction_hash v m else m) = m\<lparr>PTransactionInput_reference_transaction_hash := if c then v else PTransactionInput_reference_transaction_hash m\<rparr>"
  by (simp add: PTransactionInput_set_reference_transaction_hash_def)

lemma PTransactionInput_merge_utxo_index: "(if c then PTransactionInput_set_utxo_index v m else m) = m\<lparr>PTransactionInput_utxo_index := if c then v else PTransactionInput_utxo_index m\<rparr>"
  by (simp add: PTransactionInput_set_utxo_index_def)

lemma PTransactionInput_merge_signature: "(if c then PTransactionInput_set_signature v m else m) = m\<lparr>PTransactionInput_signature := if c then v else PTransactionInput_signature m\<rparr>"
  by (simp add: PTransactionInput_set_signature_def)

lemmas PTransactionInput_Merge = PTransactionInput_MergeFrom_def Let_def
  PTransactionInput_merge_reference_transaction_hash
  PTransactionInput_merge_utxo_index
  PTransactionInput_merge_signature

definition PTransactionInput_copy :: "'u runtime \<Rightarrow> 'u PTransactionInput \<Rightarrow> 'u PTransactionInput" where
  "PTransactionInput_copy rt from = \<lparr>
     PTransactionInput_metadata = MergeUnknownFields rt (no_unknown_fields rt) (PTransactionInput_metadata from),
     PTransactionInput_reference_transaction_hash = PTransactionInput_reference_transaction_hash from,
     PTransactionInput_utxo_index = PTransactionInput_utxo_index from,
     PTransactionInput_signature = PTransactionInput_signature from,
     PTransactionInput_cached_size = 0\<rparr>"

definition PTransactionInput_CopyFrom :: "'u runtime \<Rightarrow> 'u PTransactionInput \<Rightarrow> 'u PTransactionInput \<Rightarrow> 'u PTransactionInput" where
  "PTransactionInput_CopyFrom rt from m = PTransactionInput_MergeFrom rt from (PTransactionInput_Clear rt m)"

definition PTransactionInput_InternalSwap :: "'u PTransactionInput \<Rightarrow> 'u PTransactionInput \<Rightarrow> ('u PTransactionInput) \<times> ('u PTransactionInput)" where
  "PTransactionInput_InternalSwap m other =
     (other\<lparr>PTransactionInput_cached_size := PTransactionInput_cached_size m\<rparr>,
      m\<lparr>PTransactionInput_cached_size := PTransactionInput_cached_size other\<rparr>)"

definition PTransactionInput_ParseFromString :: "'u runtime \<Rightarrow> string \<Rightarrow> 'u PTransactionInput \<Rightarrow> ('u PTransactionInput) result" where
  "PTransactionInput_ParseFromString rt s m = ParseFromString (PTransactionInput_Clear rt) (PTransactionInput_InternalParse rt) s m"

definition PTransactionInput_SerializeToString :: "'u runtime \<Rightarrow> 'u PTransactionInput \<Rightarrow> string" where
  "PTransactionInput_SerializeToString rt m = SerializeToString (PTransactionInput_ByteSizeLong rt) (PTransactionInput_InternalSerialize rt) m"

text \<open>The bytes of a message whose sizes were just computed, and the messages the round trips are about.\<close>

definition PTransactionInput_wire :: "'u runtime \<Rightarrow> 'u PTransactionInput \<Rightarrow> string" where
  "PTransactionInput_wire rt m = PTransactionInput_InternalSerialize rt (snd (PTransactionInput_ByteSizeLong rt m))"

definition PTransactionInput_plain :: "'u runtime \<Rightarrow> 'u PTransactionInput \<Rightarrow> bool" where
  [codec_simps]: "PTransactionInput_plain rt m \<longleftrightarrow> \<not> have_unknown_fields rt (PTransactionInput_metadata m)"

context protobuf_runtime
begin

lemma PTransactionInput_parse_total: "PTransactionInput_InternalParse rt p m \<noteq> None"
  unfolding PTransactionInput_InternalParse_def
  by (rule parse_loop_total) (simp add: PTransactionInput_field_def)

lemma PTransactionInput_wire_eq:
  "PTransactionInput_wire rt m =
     (if PTransactionInput_reference_transaction_hash m \<noteq> 0 then WriteUInt32ToArray rt 1 (PTransactionInput_reference_transaction_hash m) else '''') @
     (if PTransactionInput_utxo_index m \<noteq> 0 then WriteUInt32ToArray rt 2 (PTransactionInput_utxo_index m) else '''') @
     (if PTransactionInput_signature m \<noteq> 0 then WriteUInt32ToArray rt 3 (PTransactionInput_signature m) else '''') @
     unknown_bytes rt (PTransactionInput_metadata m)"
  unfolding PTransactionInput_wire_def PTransactionInput_InternalSerialize_def PTransactionInput_ByteSizeLong_def Let_def
  by (simp split: option.splits)

lemma PTransactionInput_size_length: "fst (PTransactionInput_ByteSizeLong rt m) = length (PTransactionInput_wire rt m)"
  unfolding PTransactionInput_wire_eq PTransactionInput_ByteSizeLong_def Let_def
  by (simp only: length_fields rel_simps order_refl)
    (simp add: with_unknown_size_eq size_message length_concat comp_def sum_list_Suc
      case_prod_unfold  cong del: if_weak_cong split del: if_split split: option.split)

lemma PTransactionInput_cached_length: "PTransactionInput_cached_size (snd (PTransactionInput_ByteSizeLong rt m)) = length (PTransactionInput_wire rt m)"
  unfolding PTransactionInput_size_length [symmetric] by (simp add: PTransactionInput_ByteSizeLong_def Let_def)

lemma PTransactionInput_loop_reference_transaction_hash:
  "parse_loop rt (PTransactionInput_field rt) ((if v \<noteq> 0 then WriteUInt32ToArray rt 1 v else '''') @ r) m
     = parse_loop rt (PTransactionInput_field rt) r (m\<lparr>PTransactionInput_reference_transaction_hash := if v \<noteq> 0 then v else PTransactionInput_reference_transaction_hash m\<rparr>)"
  by (subst loop_uint32 [where upd = "\<lambda>v. m\<lparr>PTransactionInput_reference_transaction_hash := v\<rparr>"]) (simp_all add: PTransactionInput_field_def codec_simps)

lemma PTransactionInput_loop_utxo_index:
  "parse_loop rt (PTransactionInput_field rt) ((if v \<noteq> 0 then WriteUInt32ToArray rt 2 v else '''') @ r) m
     = parse_loop rt (PTransactionInput_field rt) r (m\<lparr>PTransactionInput_utxo_index := if v \<noteq> 0 then v else PTransactionInput_utxo_index m\<rparr>)"
  by (subst loop_uint32 [where upd = "\<lambda>v. m\<lparr>PTransactionInput_utxo_index := v\<rparr>"]) (simp_all add: PTransactionInput_field_def codec_simps)

lemma PTransactionInput_loop_signature:
  "parse_loop rt (PTransactionInput_field rt) ((if v \<noteq> 0 then WriteUInt32ToArray rt 3 v else '''') @ r) m
     = parse_loop rt (PTransactionInput_field rt) r (m\<lparr>PTransactionInput_signature := if v \<noteq> 0 then v else PTransactionInput_signature m\<rparr>)"
  by (subst loop_uint32 [where upd = "\<lambda>v. m\<lparr>PTransactionInput_signature := v\<rparr>"]) (simp_all add: PTransactionInput_field_def codec_simps)

lemma PTransactionInput_parse_wire:
  assumes "PTransactionInput_plain rt m" "length (PTransactionInput_wire rt m) \<le> MAX_SIZE"
  shows "PTransactionInput_InternalParse rt (PTransactionInput_wire rt m) m' = Some (Parsed (PTransactionInput_MergeFrom rt m m'))"
proof -
  have u: "unknown_bytes rt (PTransactionInput_metadata m) = ''''" "\<not> have_unknown_fields rt (PTransactionInput_metadata m)"
    using assms(1) by (simp_all add: codec_simps unknown_bytes_def)
  show ?thesis
    unfolding PTransactionInput_InternalParse_def PTransactionInput_wire_eq u
    by (simp only: PTransactionInput_loop_reference_transaction_hash
        PTransactionInput_loop_utxo_index
        PTransactionInput_loop_signature loop_end PTransactionInput_Merge)
      (simp add: codec_simps merge_none u cong del: if_weak_cong split del: if_split split: option.split)
qed

lemma PTransactionInput_MergeFrom_new:
  assumes "PTransactionInput_plain rt m"
  shows "PTransactionInput_MergeFrom rt m (PTransactionInput_new rt) = PTransactionInput_copy rt m"
  using assms by (simp only: PTransactionInput_Merge) (simp add: PTransactionInput_copy_def PTransactionInput_new_def codec_simps merge_none no_unknown
      cong del: if_weak_cong split del: if_split split: option.splits)

lemma PTransactionInput_roundtrip:
  assumes "PTransactionInput_plain rt m" "length (PTransactionInput_wire rt m) \<le> MAX_SIZE"
  shows "PTransactionInput_ParseFromString rt (PTransactionInput_SerializeToString rt m) m' = Inr (PTransactionInput_MergeFrom rt m (PTransactionInput_Clear rt m'))"
  using assms by (simp add: PTransactionInput_ParseFromString_def PTransactionInput_SerializeToString_def ParseFromString_def SerializeToString_def
      case_prod_unfold Let_def PTransactionInput_size_length PTransactionInput_parse_wire flip: PTransactionInput_wire_def)

lemma PTransactionInput_roundtrip_new:
  assumes "PTransactionInput_plain rt m" "length (PTransactionInput_wire rt m) \<le> MAX_SIZE"
  shows "PTransactionInput_ParseFromString rt (PTransactionInput_SerializeToString rt m) (PTransactionInput_new rt) = Inr (PTransactionInput_copy rt m)"
proof -
  have "PTransactionInput_Clear rt (PTransactionInput_new rt) = PTransactionInput_new rt"
    by (simp add: PTransactionInput_Clear_def PTransactionInput_new_def)
  then show ?thesis using PTransactionInput_roundtrip [OF assms] PTransactionInput_MergeFrom_new [OF assms(1)] by simp
qed

lemma PTransactionInput_ParseFromString_returns: "PTransactionInput_ParseFromString rt s m \<noteq> Inl Diverges"
  using PTransactionInput_parse_total [of s "PTransactionInput_Clear rt m"] by (auto simp: PTransactionInput_ParseFromString_def ParseFromString_def)

end

section \<open>PTransactionOutput\<close>

record 'u PTransactionOutput =
  PTransactionOutput_metadata :: 'u
  PTransactionOutput_amount :: uint32
  PTransactionOutput_public_key :: uint32
  PTransactionOutput_cached_size :: nat

definition PTransactionOutput_new :: "'u runtime \<Rightarrow> 'u PTransactionOutput" where
  "PTransactionOutput_new rt = \<lparr>
     PTransactionOutput_metadata = no_unknown_fields rt,
     PTransactionOutput_amount = 0,
     PTransactionOutput_public_key = 0,
     PTransactionOutput_cached_size = 0\<rparr>"

definition PTransactionOutput_set_amount :: "uint32 \<Rightarrow> 'u PTransactionOutput \<Rightarrow> 'u PTransactionOutput" where
  [codec_simps]: "PTransactionOutput_set_amount v m = m\<lparr>PTransactionOutput_amount := v\<rparr>"

definition PTransactionOutput_set_public_key :: "uint32 \<Rightarrow> 'u PTransactionOutput \<Rightarrow> 'u PTransactionOutput" where
  [codec_simps]: "PTransactionOutput_set_public_key v m = m\<lparr>PTransactionOutput_public_key := v\<rparr>"

definition PTransactionOutput_Clear :: "'u runtime \<Rightarrow> 'u PTransactionOutput \<Rightarrow> 'u PTransactionOutput" where
  "PTransactionOutput_Clear rt m = m\<lparr>
     PTransactionOutput_amount := 0,
     PTransactionOutput_public_key := 0,
     PTransactionOutput_metadata := no_unknown_fields rt\<rparr>"

definition PTransactionOutput_ByteSizeLong :: "'u runtime \<Rightarrow> 'u PTransactionOutput \<Rightarrow> nat \<times> 'u PTransactionOutput" where
  "PTransactionOutput_ByteSizeLong rt m =
     (let total_size = 0;
          total_size = total_size + (if PTransactionOutput_amount m \<noteq> 0 then 1 + UInt32Size rt (PTransactionOutput_amount m) else 0);
          total_size = total_size + (if PTransactionOutput_public_key m \<noteq> 0 then 1 + UInt32Size rt (PTransactionOutput_public_key m) else 0);
          total_size = with_unknown_size rt (PTransactionOutput_metadata m) total_size
      in (total_size, m\<lparr>PTransactionOutput_cached_size := total_size\<rparr>))"

definition PTransactionOutput_InternalSerialize :: "'u runtime \<Rightarrow> 'u PTransactionOutput \<Rightarrow> string" where
  "PTransactionOutput_InternalSerialize rt m =
     (if PTransactionOutput_amount m \<noteq> 0 then WriteUInt32ToArray rt 1 (PTransactionOutput_amount m) else '''') @
     (if PTransactionOutput_public_key m \<noteq> 0 then WriteUInt32ToArray rt 2 (PTransactionOutput_public_key m) else '''') @
     unknown_bytes rt (PTransactionOutput_metadata m)"

definition PTransactionOutput_field :: "'u runtime \<Rightarrow> 'u PTransactionOutput \<Rightarrow> uint32 \<Rightarrow> string \<Rightarrow> ('u PTransactionOutput) step option" where
  "PTransactionOutput_field rt m tag ptr =
     (if on_tag tag 1 8 then
        Some (field_step (\<lambda>v. m\<lparr>PTransactionOutput_amount := v\<rparr>) (ReadVarint32 rt ptr))
      else if on_tag tag 2 16 then
        Some (field_step (\<lambda>v. m\<lparr>PTransactionOutput_public_key := v\<rparr>) (ReadVarint32 rt ptr))
      else Some (handle_unusual rt tag (\<lambda>u. m\<lparr>PTransactionOutput_metadata := u\<rparr>) (PTransactionOutput_metadata m) m ptr))"

definition PTransactionOutput_InternalParse :: "'u runtime \<Rightarrow> string \<Rightarrow> 'u PTransactionOutput \<Rightarrow> ('u PTransactionOutput) parsed option" where
  "PTransactionOutput_InternalParse rt ptr m = parse_loop rt (PTransactionOutput_field rt) ptr m"

definition PTransactionOutput_MergeFrom :: "'u runtime \<Rightarrow> 'u PTransactionOutput \<Rightarrow> 'u PTransactionOutput \<Rightarrow> 'u PTransactionOutput" where
  "PTransactionOutput_MergeFrom rt from m =
     (let m = m\<lparr>PTransactionOutput_metadata := MergeUnknownFields rt (PTransactionOutput_metadata m) (PTransactionOutput_metadata from)\<rparr>;
          m = (if PTransactionOutput_amount from \<noteq> 0 then PTransactionOutput_set_amount (PTransactionOutput_amount from) m else m);
          m = (if PTransactionOutput_public_key from \<noteq> 0 then PTransactionOutput_set_public_key (PTransactionOutput_public_key from) m else m)
      in m)"

lemma PTransactionOutput_merge_amount: "(if c then PTransactionOutput_set_amount v m else m) = m\<lparr>PTransactionOutput_amount := if c then v else PTransactionOutput_amount m\<rparr>"
  by (simp add: PTransactionOutput_set_amount_def)

lemma PTransactionOutput_merge_public_key: "(if c then PTransactionOutput_set_public_key v m else m) = m\<lparr>PTransactionOutput_public_key := if c then v else PTransactionOutput_public_key m\<rparr>"
  by (simp add: PTransactionOutput_set_public_key_def)

lemmas PTransactionOutput_Merge = PTransactionOutput_MergeFrom_def Let_def
  PTransactionOutput_merge_amount
  PTransactionOutput_merge_public_key

definition PTransactionOutput_copy :: "'u runtime \<Rightarrow> 'u PTransactionOutput \<Rightarrow> 'u PTransactionOutput" where
  "PTransactionOutput_copy rt from = \<lparr>
     PTransactionOutput_metadata = MergeUnknownFields rt (no_unknown_fields rt) (PTransactionOutput_metadata from),
     PTransactionOutput_amount = PTransactionOutput_amount from,
     PTransactionOutput_public_key = PTransactionOutput_public_key from,
     PTransactionOutput_cached_size = 0\<rparr>"

definition PTransactionOutput_CopyFrom :: "'u runtime \<Rightarrow> 'u PTransactionOutput \<Rightarrow> 'u PTransactionOutput \<Rightarrow> 'u PTransactionOutput" where
  "PTransactionOutput_CopyFrom rt from m = PTransactionOutput_MergeFrom rt from (PTransactionOutput_Clear rt m)"

definition PTransactionOutput_InternalSwap :: "'u PTransactionOutput \<Rightarrow> 'u PTransactionOutput \<Rightarrow> ('u PTransactionOutput) \<times> ('u PTransactionOutput)" where
  "PTransactionOutput_InternalSwap m other =
     (other\<lparr>PTransactionOutput_cached_size := PTransactionOutput_cached_size m\<rparr>,
      m\<lparr>PTransactionOutput_cached_size := PTransactionOutput_cached_size other\<rparr>)"

definition PTransactionOutput_ParseFromString :: "'u runtime \<Rightarrow> string \<Rightarrow> 'u PTransactionOutput \<Rightarrow> ('u PTransactionOutput) result" where
  "PTransactionOutput_ParseFromString rt s m = ParseFromString (PTransactionOutput_Clear rt) (PTransactionOutput_InternalParse rt) s m"

definition PTransactionOutput_SerializeToString :: "'u runtime \<Rightarrow> 'u PTransactionOutput \<Rightarrow> string" where
  "PTransactionOutput_SerializeToString rt m = SerializeToString (PTransactionOutput_ByteSizeLong rt) (PTransactionOutput_InternalSerialize rt) m"

text \<open>The bytes of a message whose sizes were just computed, and the messages the round trips are about.\<close>

definition PTransactionOutput_wire :: "'u runtime \<Rightarrow> 'u PTransactionOutput \<Rightarrow> string" where
  "PTransactionOutput_wire rt m = PTransactionOutput_InternalSerialize rt (snd (PTransactionOutput_ByteSizeLong rt m))"

definition PTransactionOutput_plain :: "'u runtime \<Rightarrow> 'u PTransactionOutput \<Rightarrow> bool" where
  [codec_simps]: "PTransactionOutput_plain rt m \<longleftrightarrow> \<not> have_unknown_fields rt (PTransactionOutput_metadata m)"

context protobuf_runtime
begin

lemma PTransactionOutput_parse_total: "PTransactionOutput_InternalParse rt p m \<noteq> None"
  unfolding PTransactionOutput_InternalParse_def
  by (rule parse_loop_total) (simp add: PTransactionOutput_field_def)

lemma PTransactionOutput_wire_eq:
  "PTransactionOutput_wire rt m =
     (if PTransactionOutput_amount m \<noteq> 0 then WriteUInt32ToArray rt 1 (PTransactionOutput_amount m) else '''') @
     (if PTransactionOutput_public_key m \<noteq> 0 then WriteUInt32ToArray rt 2 (PTransactionOutput_public_key m) else '''') @
     unknown_bytes rt (PTransactionOutput_metadata m)"
  unfolding PTransactionOutput_wire_def PTransactionOutput_InternalSerialize_def PTransactionOutput_ByteSizeLong_def Let_def
  by (simp split: option.splits)

lemma PTransactionOutput_size_length: "fst (PTransactionOutput_ByteSizeLong rt m) = length (PTransactionOutput_wire rt m)"
  unfolding PTransactionOutput_wire_eq PTransactionOutput_ByteSizeLong_def Let_def
  by (simp only: length_fields rel_simps order_refl)
    (simp add: with_unknown_size_eq size_message length_concat comp_def sum_list_Suc
      case_prod_unfold  cong del: if_weak_cong split del: if_split split: option.split)

lemma PTransactionOutput_cached_length: "PTransactionOutput_cached_size (snd (PTransactionOutput_ByteSizeLong rt m)) = length (PTransactionOutput_wire rt m)"
  unfolding PTransactionOutput_size_length [symmetric] by (simp add: PTransactionOutput_ByteSizeLong_def Let_def)

lemma PTransactionOutput_loop_amount:
  "parse_loop rt (PTransactionOutput_field rt) ((if v \<noteq> 0 then WriteUInt32ToArray rt 1 v else '''') @ r) m
     = parse_loop rt (PTransactionOutput_field rt) r (m\<lparr>PTransactionOutput_amount := if v \<noteq> 0 then v else PTransactionOutput_amount m\<rparr>)"
  by (subst loop_uint32 [where upd = "\<lambda>v. m\<lparr>PTransactionOutput_amount := v\<rparr>"]) (simp_all add: PTransactionOutput_field_def codec_simps)

lemma PTransactionOutput_loop_public_key:
  "parse_loop rt (PTransactionOutput_field rt) ((if v \<noteq> 0 then WriteUInt32ToArray rt 2 v else '''') @ r) m
     = parse_loop rt (PTransactionOutput_field rt) r (m\<lparr>PTransactionOutput_public_key := if v \<noteq> 0 then v else PTransactionOutput_public_key m\<rparr>)"
  by (subst loop_uint32 [where upd = "\<lambda>v. m\<lparr>PTransactionOutput_public_key := v\<rparr>"]) (simp_all add: PTransactionOutput_field_def codec_simps)

lemma PTransactionOutput_parse_wire:
  assumes "PTransactionOutput_plain rt m" "length (PTransactionOutput_wire rt m) \<le> MAX_SIZE"
  shows "PTransactionOutput_InternalParse rt (PTransactionOutput_wire rt m) m' = Some (Parsed (PTransactionOutput_MergeFrom rt m m'))"
proof -
  have u: "unknown_bytes rt (PTransactionOutput_metadata m) = ''''" "\<not> have_unknown_fields rt (PTransactionOutput_metadata m)"
    using assms(1) by (simp_all add: codec_simps unknown_bytes_def)
  show ?thesis
    unfolding PTransactionOutput_InternalParse_def PTransactionOutput_wire_eq u
    by (simp only: PTransactionOutput_loop_amount
        PTransactionOutput_loop_public_key loop_end PTransactionOutput_Merge)
      (simp add: codec_simps merge_none u cong del: if_weak_cong split del: if_split split: option.split)
qed

lemma PTransactionOutput_MergeFrom_new:
  assumes "PTransactionOutput_plain rt m"
  shows "PTransactionOutput_MergeFrom rt m (PTransactionOutput_new rt) = PTransactionOutput_copy rt m"
  using assms by (simp only: PTransactionOutput_Merge) (simp add: PTransactionOutput_copy_def PTransactionOutput_new_def codec_simps merge_none no_unknown
      cong del: if_weak_cong split del: if_split split: option.splits)

lemma PTransactionOutput_roundtrip:
  assumes "PTransactionOutput_plain rt m" "length (PTransactionOutput_wire rt m) \<le> MAX_SIZE"
  shows "PTransactionOutput_ParseFromString rt (PTransactionOutput_SerializeToString rt m) m' = Inr (PTransactionOutput_MergeFrom rt m (PTransactionOutput_Clear rt m'))"
  using assms by (simp add: PTransactionOutput_ParseFromString_def PTransactionOutput_SerializeToString_def ParseFromString_def SerializeToString_def
      case_prod_unfold Let_def PTransactionOutput_size_length PTransactionOutput_parse_wire flip: PTransactionOutput_wire_def)

lemma PTransactionOutput_roundtrip_new:
  assumes "PTransactionOutput_plain rt m" "length (PTransactionOutput_wire rt m) \<le> MAX_SIZE"
  shows "PTransactionOutput_ParseFromString rt (PTransactionOutput_SerializeToString rt m) (PTransactionOutput_new rt) = Inr (PTransactionOutput_copy rt m)"
proof -
  have "PTransactionOutput_Clear rt (PTransactionOutput_new rt) = PTransactionOutput_new rt"
    by (simp add: PTransactionOutput_Clear_def PTransactionOutput_new_def)
  then show ?thesis using PTransactionOutput_roundtrip [OF assms] PTransactionOutput_MergeFrom_new [OF assms(1)] by simp
qed

lemma PTransactionOutput_ParseFromString_returns: "PTransactionOutput_ParseFromString rt s m \<noteq> Inl Diverges"
  using PTransactionOutput_parse_total [of s "PTransactionOutput_Clear rt m"] by (auto simp: PTransactionOutput_ParseFromString_def ParseFromString_def)

end

section \<open>PTransaction\<close>

record 'u PTransaction =
  PTransaction_metadata :: 'u
  PTransaction_transaction_inputs :: "'u PTransactionInput list"
  PTransaction_transaction_outputs :: "'u PTransactionOutput list"
  PTransaction_version :: uint32
  PTransaction_lock_time :: uint32
  PTransaction_cached_size :: nat

definition PTransaction_new :: "'u runtime \<Rightarrow> 'u PTransaction" where
  "PTransaction_new rt = \<lparr>
     PTransaction_metadata = no_unknown_fields rt,
     PTransaction_transaction_inputs = [],
     PTransaction_transaction_outputs = [],
     PTransaction_version = 0,
     PTransaction_lock_time = 0,
     PTransaction_cached_size = 0\<rparr>"

definition PTransaction_set_version :: "uint32 \<Rightarrow> 'u PTransaction \<Rightarrow> 'u PTransaction" where
  [codec_simps]: "PTransaction_set_version v m = m\<lparr>PTransaction_version := v\<rparr>"

definition PTransaction_add_transaction_inputs :: "'u PTransactionInput \<Rightarrow> 'u PTransaction \<Rightarrow> 'u PTransaction" where
  [codec_simps]: "PTransaction_add_transaction_inputs v m = m\<lparr>PTransaction_transaction_inputs := PTransaction_transaction_inputs m @ [v]\<rparr>"

definition PTransaction_add_transaction_outputs :: "'u PTransactionOutput \<Rightarrow> 'u PTransaction \<Rightarrow> 'u PTransaction" where
  [codec_simps]: "PTransaction_add_transaction_outputs v m = m\<lparr>PTransaction_transaction_outputs := PTransaction_transaction_outputs m @ [v]\<rparr>"

definition PTransaction_set_lock_time :: "uint32 \<Rightarrow> 'u PTransaction \<Rightarrow> 'u PTransaction" where
  [codec_simps]: "PTransaction_set_lock_time v m = m\<lparr>PTransaction_lock_time := v\<rparr>"

definition PTransaction_Clear :: "'u runtime \<Rightarrow> 'u PTransaction \<Rightarrow> 'u PTransaction" where
  "PTransaction_Clear rt m = m\<lparr>
     PTransaction_transaction_inputs := [],
     PTransaction_transaction_outputs := [],
     PTransaction_version := 0,
     PTransaction_lock_time := 0,
     PTransaction_metadata := no_unknown_fields rt\<rparr>"

definition PTransaction_ByteSizeLong :: "'u runtime \<Rightarrow> 'u PTransaction \<Rightarrow> nat \<times> 'u PTransaction" where
  "PTransaction_ByteSizeLong rt m =
     (let total_size = 0;
          transaction_inputs = map (PTransactionInput_ByteSizeLong rt) (PTransaction_transaction_inputs m);
          total_size = total_size + 1 * length (PTransaction_transaction_inputs m);
          total_size = total_size + sum_list (map (\<lambda>(n, _). MessageSize rt n) transaction_inputs);
          transaction_outputs = map (PTransactionOutput_ByteSizeLong rt) (PTransaction_transaction_outputs m);
          total_size = total_size + 1 * length (PTransaction_transaction_outputs m);
          total_size = total_size + sum_list (map (\<lambda>(n, _). MessageSize rt n) transaction_outputs);
          total_size = total_size + (if PTransaction_version m \<noteq> 0 then 1 + UInt32Size rt (PTransaction_version m) else 0);
          total_size = total_size + (if PTransaction_lock_time m \<noteq> 0 then 1 + UInt32Size rt (PTransaction_lock_time m) else 0);
          total_size = with_unknown_size rt (PTransaction_metadata m) total_size
      in (total_size, m\<lparr>PTransaction_transaction_inputs := map snd transaction_inputs,
           PTransaction_transaction_outputs := map snd transaction_outputs,
           PTransaction_cached_size := total_size\<rparr>))"

definition PTransaction_InternalSerialize :: "'u runtime \<Rightarrow> 'u PTransaction \<Rightarrow> string" where
  "PTransaction_InternalSerialize rt m =
     (if PTransaction_version m \<noteq> 0 then WriteUInt32ToArray rt 1 (PTransaction_version m) else '''') @
     concat (map (\<lambda>x. InternalWriteMessage rt 2 (PTransactionInput_cached_size x) (PTransactionInput_InternalSerialize rt x)) (PTransaction_transaction_inputs m)) @
     concat (map (\<lambda>x. InternalWriteMessage rt 3 (PTransactionOutput_cached_size x) (PTransactionOutput_InternalSerialize rt x)) (PTransaction_transaction_outputs m)) @
     (if PTransaction_lock_time m \<noteq> 0 then WriteUInt32ToArray rt 4 (PTransaction_lock_time m) else '''') @
     unknown_bytes rt (PTransaction_metadata m)"

definition PTransaction_field :: "'u runtime \<Rightarrow> 'u PTransaction \<Rightarrow> uint32 \<Rightarrow> string \<Rightarrow> ('u PTransaction) step option" where
  "PTransaction_field rt m tag ptr =
     (if on_tag tag 1 8 then
        Some (field_step (\<lambda>v. m\<lparr>PTransaction_version := v\<rparr>) (ReadVarint32 rt ptr))
      else if on_tag tag 2 18 then
        parse_repeated rt 18 (PTransactionInput_InternalParse rt) (PTransactionInput_new rt) PTransaction_add_transaction_inputs ptr m
      else if on_tag tag 3 26 then
        parse_repeated rt 26 (PTransactionOutput_InternalParse rt) (PTransactionOutput_new rt) PTransaction_add_transaction_outputs ptr m
      else if on_tag tag 4 32 then
        Some (field_step (\<lambda>v. m\<lparr>PTransaction_lock_time := v\<rparr>) (ReadVarint32 rt ptr))
      else Some (handle_unusual rt tag (\<lambda>u. m\<lparr>PTransaction_metadata := u\<rparr>) (PTransaction_metadata m) m ptr))"

definition PTransaction_InternalParse :: "'u runtime \<Rightarrow> string \<Rightarrow> 'u PTransaction \<Rightarrow> ('u PTransaction) parsed option" where
  "PTransaction_InternalParse rt ptr m = parse_loop rt (PTransaction_field rt) ptr m"

definition PTransaction_MergeFrom :: "'u runtime \<Rightarrow> 'u PTransaction \<Rightarrow> 'u PTransaction \<Rightarrow> 'u PTransaction" where
  "PTransaction_MergeFrom rt from m =
     (let m = m\<lparr>PTransaction_metadata := MergeUnknownFields rt (PTransaction_metadata m) (PTransaction_metadata from)\<rparr>;
          m = m\<lparr>PTransaction_transaction_inputs := PTransaction_transaction_inputs m @ map (\<lambda>x. PTransactionInput_MergeFrom rt x (PTransactionInput_new rt)) (PTransaction_transaction_inputs from)\<rparr>;
          m = m\<lparr>PTransaction_transaction_outputs := PTransaction_transaction_outputs m @ map (\<lambda>x. PTransactionOutput_MergeFrom rt x (PTransactionOutput_new rt)) (PTransaction_transaction_outputs from)\<rparr>;
          m = (if PTransaction_version from \<noteq> 0 then PTransaction_set_version (PTransaction_version from) m else m);
          m = (if PTransaction_lock_time from \<noteq> 0 then PTransaction_set_lock_time (PTransaction_lock_time from) m else m)
      in m)"

lemma PTransaction_merge_version: "(if c then PTransaction_set_version v m else m) = m\<lparr>PTransaction_version := if c then v else PTransaction_version m\<rparr>"
  by (simp add: PTransaction_set_version_def)

lemma PTransaction_merge_lock_time: "(if c then PTransaction_set_lock_time v m else m) = m\<lparr>PTransaction_lock_time := if c then v else PTransaction_lock_time m\<rparr>"
  by (simp add: PTransaction_set_lock_time_def)

lemmas PTransaction_Merge = PTransaction_MergeFrom_def Let_def
  PTransaction_merge_version
  PTransaction_merge_lock_time

definition PTransaction_copy :: "'u runtime \<Rightarrow> 'u PTransaction \<Rightarrow> 'u PTransaction" where
  "PTransaction_copy rt from = \<lparr>
     PTransaction_metadata = MergeUnknownFields rt (no_unknown_fields rt) (PTransaction_metadata from),
     PTransaction_transaction_inputs = map (\<lambda>x. PTransactionInput_MergeFrom rt x (PTransactionInput_new rt)) (PTransaction_transaction_inputs from),
     PTransaction_transaction_outputs = map (\<lambda>x. PTransactionOutput_MergeFrom rt x (PTransactionOutput_new rt)) (PTransaction_transaction_outputs from),
     PTransaction_version = PTransaction_version from,
     PTransaction_lock_time = PTransaction_lock_time from,
     PTransaction_cached_size = 0\<rparr>"

definition PTransaction_CopyFrom :: "'u runtime \<Rightarrow> 'u PTransaction \<Rightarrow> 'u PTransaction \<Rightarrow> 'u PTransaction" where
  "PTransaction_CopyFrom rt from m = PTransaction_MergeFrom rt from (PTransaction_Clear rt m)"

definition PTransaction_InternalSwap :: "'u PTransaction \<Rightarrow> 'u PTransaction \<Rightarrow> ('u PTransaction) \<times> ('u PTransaction)" where
  "PTransaction_InternalSwap m other =
     (other\<lparr>PTransaction_cached_size := PTransaction_cached_size m\<rparr>,
      m\<lparr>PTransaction_cached_size := PTransaction_cached_size other\<rparr>)"

definition PTransaction_ParseFromString :: "'u runtime \<Rightarrow> string \<Rightarrow> 'u PTransaction \<Rightarrow> ('u PTransaction) result" where
  "PTransaction_ParseFromString rt s m = ParseFromString (PTransaction_Clear rt) (PTransaction_InternalParse rt) s m"

definition PTransaction_SerializeToString :: "'u runtime \<Rightarrow> 'u PTransaction \<Rightarrow> string" where
  "PTransaction_SerializeToString rt m = SerializeToString (PTransaction_ByteSizeLong rt) (PTransaction_InternalSerialize rt) m"

text \<open>The bytes of a message whose sizes were just computed, and the messages the round trips are about.\<close>

definition PTransaction_wire :: "'u runtime \<Rightarrow> 'u PTransaction \<Rightarrow> string" where
  "PTransaction_wire rt m = PTransaction_InternalSerialize rt (snd (PTransaction_ByteSizeLong rt m))"

definition PTransaction_plain :: "'u runtime \<Rightarrow> 'u PTransaction \<Rightarrow> bool" where
  [codec_simps]: "PTransaction_plain rt m \<longleftrightarrow> \<not> have_unknown_fields rt (PTransaction_metadata m) \<and>
     list_all (PTransactionInput_plain rt) (PTransaction_transaction_inputs m) \<and>
     list_all (PTransactionOutput_plain rt) (PTransaction_transaction_outputs m)"

context protobuf_runtime
begin

lemma PTransaction_parse_total: "PTransaction_InternalParse rt p m \<noteq> None"
  unfolding PTransaction_InternalParse_def
  by (rule parse_loop_total) (simp add: PTransaction_field_def advances_message advances_repeated PTransactionInput_parse_total PTransactionOutput_parse_total)

lemma PTransaction_wire_eq:
  "PTransaction_wire rt m =
     (if PTransaction_version m \<noteq> 0 then WriteUInt32ToArray rt 1 (PTransaction_version m) else '''') @
     concat (map (\<lambda>b. InternalWriteMessage rt 2 (length b) b) (map (PTransactionInput_wire rt) (PTransaction_transaction_inputs m))) @
     concat (map (\<lambda>b. InternalWriteMessage rt 3 (length b) b) (map (PTransactionOutput_wire rt) (PTransaction_transaction_outputs m))) @
     (if PTransaction_lock_time m \<noteq> 0 then WriteUInt32ToArray rt 4 (PTransaction_lock_time m) else '''') @
     unknown_bytes rt (PTransaction_metadata m)"
  unfolding PTransaction_wire_def PTransaction_InternalSerialize_def PTransaction_ByteSizeLong_def Let_def
  by (simp add: comp_def PTransactionInput_cached_length PTransactionInput_wire_def [symmetric] PTransactionOutput_cached_length PTransactionOutput_wire_def [symmetric] split: option.splits)

lemma PTransaction_size_length: "fst (PTransaction_ByteSizeLong rt m) = length (PTransaction_wire rt m)"
  unfolding PTransaction_wire_eq PTransaction_ByteSizeLong_def Let_def
  by (simp only: length_fields rel_simps order_refl)
    (simp add: with_unknown_size_eq size_message length_concat comp_def sum_list_Suc
      case_prod_unfold PTransactionInput_size_length PTransactionOutput_size_length cong del: if_weak_cong split del: if_split split: option.split)

lemma PTransaction_cached_length: "PTransaction_cached_size (snd (PTransaction_ByteSizeLong rt m)) = length (PTransaction_wire rt m)"
  unfolding PTransaction_size_length [symmetric] by (simp add: PTransaction_ByteSizeLong_def Let_def)

lemma PTransaction_loop_version:
  "parse_loop rt (PTransaction_field rt) ((if v \<noteq> 0 then WriteUInt32ToArray rt 1 v else '''') @ r) m
     = parse_loop rt (PTransaction_field rt) r (m\<lparr>PTransaction_version := if v \<noteq> 0 then v else PTransaction_version m\<rparr>)"
  by (subst loop_uint32 [where upd = "\<lambda>v. m\<lparr>PTransaction_version := v\<rparr>"]) (simp_all add: PTransaction_field_def codec_simps)

lemma PTransaction_loop_transaction_inputs:
  assumes "\<And>x. x \<in> set v \<Longrightarrow> length (PTransactionInput_wire rt x) \<le> MAX_SIZE \<and> PTransactionInput_plain rt x"
  shows "parse_loop rt (PTransaction_field rt) (concat (map (\<lambda>b. InternalWriteMessage rt 2 (length b) b) (map (PTransactionInput_wire rt) v)) @ r) m
     = parse_loop rt (PTransaction_field rt) r (m\<lparr>PTransaction_transaction_inputs := PTransaction_transaction_inputs m @ map (\<lambda>x. PTransactionInput_MergeFrom rt x (PTransactionInput_new rt)) v\<rparr>)"
proof -
  have "fold PTransaction_add_transaction_inputs xs m = m\<lparr>PTransaction_transaction_inputs := PTransaction_transaction_inputs m @ xs\<rparr>" for xs
    by (induction xs arbitrary: m) (simp_all add: codec_simps)
  then show ?thesis using assms
    by (subst loop_repeated [where parse = "PTransactionInput_InternalParse rt" and new = "PTransactionInput_new rt"
          and add = "PTransaction_add_transaction_inputs" and ys = "map (\<lambda>x. PTransactionInput_MergeFrom rt x (PTransactionInput_new rt)) v"])
      (auto simp: PTransaction_field_def on_tag_numeral list_all2_map1 list_all2_map2 list_all2_same PTransactionInput_parse_wire)
qed

lemma PTransaction_loop_transaction_outputs:
  assumes "\<And>x. x \<in> set v \<Longrightarrow> length (PTransactionOutput_wire rt x) \<le> MAX_SIZE \<and> PTransactionOutput_plain rt x"
  shows "parse_loop rt (PTransaction_field rt) (concat (map (\<lambda>b. InternalWriteMessage rt 3 (length b) b) (map (PTransactionOutput_wire rt) v)) @ r) m
     = parse_loop rt (PTransaction_field rt) r (m\<lparr>PTransaction_transaction_outputs := PTransaction_transaction_outputs m @ map (\<lambda>x. PTransactionOutput_MergeFrom rt x (PTransactionOutput_new rt)) v\<rparr>)"
proof -
  have "fold PTransaction_add_transaction_outputs xs m = m\<lparr>PTransaction_transaction_outputs := PTransaction_transaction_outputs m @ xs\<rparr>" for xs
    by (induction xs arbitrary: m) (simp_all add: codec_simps)
  then show ?thesis using assms
    by (subst loop_repeated [where parse = "PTransactionOutput_InternalParse rt" and new = "PTransactionOutput_new rt"
          and add = "PTransaction_add_transaction_outputs" and ys = "map (\<lambda>x. PTransactionOutput_MergeFrom rt x (PTransactionOutput_new rt)) v"])
      (auto simp: PTransaction_field_def on_tag_numeral list_all2_map1 list_all2_map2 list_all2_same PTransactionOutput_parse_wire)
qed

lemma PTransaction_loop_lock_time:
  "parse_loop rt (PTransaction_field rt) ((if v \<noteq> 0 then WriteUInt32ToArray rt 4 v else '''') @ r) m
     = parse_loop rt (PTransaction_field rt) r (m\<lparr>PTransaction_lock_time := if v \<noteq> 0 then v else PTransaction_lock_time m\<rparr>)"
  by (subst loop_uint32 [where upd = "\<lambda>v. m\<lparr>PTransaction_lock_time := v\<rparr>"]) (simp_all add: PTransaction_field_def codec_simps)

lemma PTransaction_parse_wire:
  assumes "PTransaction_plain rt m" "length (PTransaction_wire rt m) \<le> MAX_SIZE"
  shows "PTransaction_InternalParse rt (PTransaction_wire rt m) m' = Some (Parsed (PTransaction_MergeFrom rt m m'))"
proof -
  have transaction_inputs: "length (PTransactionInput_wire rt x) \<le> MAX_SIZE \<and> PTransactionInput_plain rt x" if "x \<in> set (PTransaction_transaction_inputs m)" for x
    using assms that written_message_le [of 2 x "PTransaction_transaction_inputs m" "PTransactionInput_wire rt"] by (simp add: codec_simps PTransaction_wire_eq list_all_iff del: length_concat)
  have transaction_outputs: "length (PTransactionOutput_wire rt x) \<le> MAX_SIZE \<and> PTransactionOutput_plain rt x" if "x \<in> set (PTransaction_transaction_outputs m)" for x
    using assms that written_message_le [of 3 x "PTransaction_transaction_outputs m" "PTransactionOutput_wire rt"] by (simp add: codec_simps PTransaction_wire_eq list_all_iff del: length_concat)
  have u: "unknown_bytes rt (PTransaction_metadata m) = ''''" "\<not> have_unknown_fields rt (PTransaction_metadata m)"
    using assms(1) by (simp_all add: codec_simps unknown_bytes_def)
  show ?thesis
    unfolding PTransaction_InternalParse_def PTransaction_wire_eq u
    by (simp only: PTransaction_loop_version
        PTransaction_loop_transaction_inputs [OF transaction_inputs]
        PTransaction_loop_transaction_outputs [OF transaction_outputs]
        PTransaction_loop_lock_time loop_end PTransaction_Merge)
      (simp add: codec_simps merge_none u cong del: if_weak_cong split del: if_split split: option.split)
qed

lemma PTransaction_MergeFrom_new:
  assumes "PTransaction_plain rt m"
  shows "PTransaction_MergeFrom rt m (PTransaction_new rt) = PTransaction_copy rt m"
  using assms by (simp only: PTransaction_Merge) (simp add: PTransaction_copy_def PTransaction_new_def codec_simps merge_none no_unknown
      cong del: if_weak_cong split del: if_split split: option.splits)

lemma PTransaction_roundtrip:
  assumes "PTransaction_plain rt m" "length (PTransaction_wire rt m) \<le> MAX_SIZE"
  shows "PTransaction_ParseFromString rt (PTransaction_SerializeToString rt m) m' = Inr (PTransaction_MergeFrom rt m (PTransaction_Clear rt m'))"
  using assms by (simp add: PTransaction_ParseFromString_def PTransaction_SerializeToString_def ParseFromString_def SerializeToString_def
      case_prod_unfold Let_def PTransaction_size_length PTransaction_parse_wire flip: PTransaction_wire_def)

lemma PTransaction_roundtrip_new:
  assumes "PTransaction_plain rt m" "length (PTransaction_wire rt m) \<le> MAX_SIZE"
  shows "PTransaction_ParseFromString rt (PTransaction_SerializeToString rt m) (PTransaction_new rt) = Inr (PTransaction_copy rt m)"
proof -
  have "PTransaction_Clear rt (PTransaction_new rt) = PTransaction_new rt"
    by (simp add: PTransaction_Clear_def PTransaction_new_def)
  then show ?thesis using PTransaction_roundtrip [OF assms] PTransaction_MergeFrom_new [OF assms(1)] by simp
qed

lemma PTransaction_ParseFromString_returns: "PTransaction_ParseFromString rt s m \<noteq> Inl Diverges"
  using PTransaction_parse_total [of s "PTransaction_Clear rt m"] by (auto simp: PTransaction_ParseFromString_def ParseFromString_def)

end

end
