(* ===== verification/Proto_Block.thy ===== *)
theory Proto_Block
  imports Proto_Tx
begin

text \<open>
  The generated messages \<open>PBlockHeader\<close>, \<open>PBlock\<close> and \<open>PBlockRecord\<close>
  of \<open>core/src/proto/crypt.pb.cc\<close> and their
  accessors in \<open>core/include/proto/crypt.pb.h\<close>. A record has the metadata (unknown fields), the
  fields in the order of the class and the cached sizes; \<open>ByteSizeLong\<close> returns the size and the
  message with its caches filled, \<open>InternalSerialize\<close> reads the caches, \<open>field\<close> is
  the switch of the parse loop. The context blocks show that the parsers return on every input, that the size
  is the length of what is written, and that parsing what was written merges the message.
\<close>

section \<open>PBlockHeader\<close>

record 'u PBlockHeader =
  PBlockHeader_metadata :: 'u
  PBlockHeader_version :: uint32
  PBlockHeader_previous_block_hash :: uint32
  PBlockHeader_merkle_root :: uint32
  PBlockHeader_difficulty_target :: uint32
  PBlockHeader_nonce :: uint32
  PBlockHeader_timestamp :: uint32
  PBlockHeader_cached_size :: nat

definition PBlockHeader_new :: "'u runtime \<Rightarrow> 'u PBlockHeader" where
  "PBlockHeader_new rt = \<lparr>
     PBlockHeader_metadata = no_unknown_fields rt,
     PBlockHeader_version = 0,
     PBlockHeader_previous_block_hash = 0,
     PBlockHeader_merkle_root = 0,
     PBlockHeader_difficulty_target = 0,
     PBlockHeader_nonce = 0,
     PBlockHeader_timestamp = 0,
     PBlockHeader_cached_size = 0\<rparr>"

definition PBlockHeader_set_version :: "uint32 \<Rightarrow> 'u PBlockHeader \<Rightarrow> 'u PBlockHeader" where
  [codec_simps]: "PBlockHeader_set_version v m = m\<lparr>PBlockHeader_version := v\<rparr>"

definition PBlockHeader_set_previous_block_hash :: "uint32 \<Rightarrow> 'u PBlockHeader \<Rightarrow> 'u PBlockHeader" where
  [codec_simps]: "PBlockHeader_set_previous_block_hash v m = m\<lparr>PBlockHeader_previous_block_hash := v\<rparr>"

definition PBlockHeader_set_merkle_root :: "uint32 \<Rightarrow> 'u PBlockHeader \<Rightarrow> 'u PBlockHeader" where
  [codec_simps]: "PBlockHeader_set_merkle_root v m = m\<lparr>PBlockHeader_merkle_root := v\<rparr>"

definition PBlockHeader_set_difficulty_target :: "uint32 \<Rightarrow> 'u PBlockHeader \<Rightarrow> 'u PBlockHeader" where
  [codec_simps]: "PBlockHeader_set_difficulty_target v m = m\<lparr>PBlockHeader_difficulty_target := v\<rparr>"

definition PBlockHeader_set_nonce :: "uint32 \<Rightarrow> 'u PBlockHeader \<Rightarrow> 'u PBlockHeader" where
  [codec_simps]: "PBlockHeader_set_nonce v m = m\<lparr>PBlockHeader_nonce := v\<rparr>"

definition PBlockHeader_set_timestamp :: "uint32 \<Rightarrow> 'u PBlockHeader \<Rightarrow> 'u PBlockHeader" where
  [codec_simps]: "PBlockHeader_set_timestamp v m = m\<lparr>PBlockHeader_timestamp := v\<rparr>"

definition PBlockHeader_Clear :: "'u runtime \<Rightarrow> 'u PBlockHeader \<Rightarrow> 'u PBlockHeader" where
  "PBlockHeader_Clear rt m = m\<lparr>
     PBlockHeader_version := 0,
     PBlockHeader_previous_block_hash := 0,
     PBlockHeader_merkle_root := 0,
     PBlockHeader_difficulty_target := 0,
     PBlockHeader_nonce := 0,
     PBlockHeader_timestamp := 0,
     PBlockHeader_metadata := no_unknown_fields rt\<rparr>"

definition PBlockHeader_ByteSizeLong :: "'u runtime \<Rightarrow> 'u PBlockHeader \<Rightarrow> nat \<times> 'u PBlockHeader" where
  "PBlockHeader_ByteSizeLong rt m =
     (let total_size = 0;
          total_size = total_size + (if PBlockHeader_version m \<noteq> 0 then 1 + UInt32Size rt (PBlockHeader_version m) else 0);
          total_size = total_size + (if PBlockHeader_previous_block_hash m \<noteq> 0 then 1 + UInt32Size rt (PBlockHeader_previous_block_hash m) else 0);
          total_size = total_size + (if PBlockHeader_merkle_root m \<noteq> 0 then 1 + UInt32Size rt (PBlockHeader_merkle_root m) else 0);
          total_size = total_size + (if PBlockHeader_difficulty_target m \<noteq> 0 then 1 + UInt32Size rt (PBlockHeader_difficulty_target m) else 0);
          total_size = total_size + (if PBlockHeader_nonce m \<noteq> 0 then 1 + UInt32Size rt (PBlockHeader_nonce m) else 0);
          total_size = total_size + (if PBlockHeader_timestamp m \<noteq> 0 then 1 + UInt32Size rt (PBlockHeader_timestamp m) else 0);
          total_size = with_unknown_size rt (PBlockHeader_metadata m) total_size
      in (total_size, m\<lparr>PBlockHeader_cached_size := total_size\<rparr>))"

definition PBlockHeader_InternalSerialize :: "'u runtime \<Rightarrow> 'u PBlockHeader \<Rightarrow> string" where
  "PBlockHeader_InternalSerialize rt m =
     (if PBlockHeader_version m \<noteq> 0 then WriteUInt32ToArray rt 1 (PBlockHeader_version m) else '''') @
     (if PBlockHeader_previous_block_hash m \<noteq> 0 then WriteUInt32ToArray rt 2 (PBlockHeader_previous_block_hash m) else '''') @
     (if PBlockHeader_merkle_root m \<noteq> 0 then WriteUInt32ToArray rt 3 (PBlockHeader_merkle_root m) else '''') @
     (if PBlockHeader_difficulty_target m \<noteq> 0 then WriteUInt32ToArray rt 4 (PBlockHeader_difficulty_target m) else '''') @
     (if PBlockHeader_nonce m \<noteq> 0 then WriteUInt32ToArray rt 5 (PBlockHeader_nonce m) else '''') @
     (if PBlockHeader_timestamp m \<noteq> 0 then WriteUInt32ToArray rt 6 (PBlockHeader_timestamp m) else '''') @
     unknown_bytes rt (PBlockHeader_metadata m)"

definition PBlockHeader_field :: "'u runtime \<Rightarrow> 'u PBlockHeader \<Rightarrow> uint32 \<Rightarrow> string \<Rightarrow> ('u PBlockHeader) step option" where
  "PBlockHeader_field rt m tag ptr =
     (if on_tag tag 1 8 then
        Some (field_step (\<lambda>v. m\<lparr>PBlockHeader_version := v\<rparr>) (ReadVarint32 rt ptr))
      else if on_tag tag 2 16 then
        Some (field_step (\<lambda>v. m\<lparr>PBlockHeader_previous_block_hash := v\<rparr>) (ReadVarint32 rt ptr))
      else if on_tag tag 3 24 then
        Some (field_step (\<lambda>v. m\<lparr>PBlockHeader_merkle_root := v\<rparr>) (ReadVarint32 rt ptr))
      else if on_tag tag 4 32 then
        Some (field_step (\<lambda>v. m\<lparr>PBlockHeader_difficulty_target := v\<rparr>) (ReadVarint32 rt ptr))
      else if on_tag tag 5 40 then
        Some (field_step (\<lambda>v. m\<lparr>PBlockHeader_nonce := v\<rparr>) (ReadVarint32 rt ptr))
      else if on_tag tag 6 48 then
        Some (field_step (\<lambda>v. m\<lparr>PBlockHeader_timestamp := v\<rparr>) (ReadVarint32 rt ptr))
      else Some (handle_unusual rt tag (\<lambda>u. m\<lparr>PBlockHeader_metadata := u\<rparr>) (PBlockHeader_metadata m) m ptr))"

definition PBlockHeader_InternalParse :: "'u runtime \<Rightarrow> string \<Rightarrow> 'u PBlockHeader \<Rightarrow> ('u PBlockHeader) parsed option" where
  "PBlockHeader_InternalParse rt ptr m = parse_loop rt (PBlockHeader_field rt) ptr m"

definition PBlockHeader_MergeFrom :: "'u runtime \<Rightarrow> 'u PBlockHeader \<Rightarrow> 'u PBlockHeader \<Rightarrow> 'u PBlockHeader" where
  "PBlockHeader_MergeFrom rt from m =
     (let m = m\<lparr>PBlockHeader_metadata := MergeUnknownFields rt (PBlockHeader_metadata m) (PBlockHeader_metadata from)\<rparr>;
          m = (if PBlockHeader_version from \<noteq> 0 then PBlockHeader_set_version (PBlockHeader_version from) m else m);
          m = (if PBlockHeader_previous_block_hash from \<noteq> 0 then PBlockHeader_set_previous_block_hash (PBlockHeader_previous_block_hash from) m else m);
          m = (if PBlockHeader_merkle_root from \<noteq> 0 then PBlockHeader_set_merkle_root (PBlockHeader_merkle_root from) m else m);
          m = (if PBlockHeader_difficulty_target from \<noteq> 0 then PBlockHeader_set_difficulty_target (PBlockHeader_difficulty_target from) m else m);
          m = (if PBlockHeader_nonce from \<noteq> 0 then PBlockHeader_set_nonce (PBlockHeader_nonce from) m else m);
          m = (if PBlockHeader_timestamp from \<noteq> 0 then PBlockHeader_set_timestamp (PBlockHeader_timestamp from) m else m)
      in m)"

lemma PBlockHeader_merge_version: "(if c then PBlockHeader_set_version v m else m) = m\<lparr>PBlockHeader_version := if c then v else PBlockHeader_version m\<rparr>"
  by (simp add: PBlockHeader_set_version_def)

lemma PBlockHeader_merge_previous_block_hash: "(if c then PBlockHeader_set_previous_block_hash v m else m) = m\<lparr>PBlockHeader_previous_block_hash := if c then v else PBlockHeader_previous_block_hash m\<rparr>"
  by (simp add: PBlockHeader_set_previous_block_hash_def)

lemma PBlockHeader_merge_merkle_root: "(if c then PBlockHeader_set_merkle_root v m else m) = m\<lparr>PBlockHeader_merkle_root := if c then v else PBlockHeader_merkle_root m\<rparr>"
  by (simp add: PBlockHeader_set_merkle_root_def)

lemma PBlockHeader_merge_difficulty_target: "(if c then PBlockHeader_set_difficulty_target v m else m) = m\<lparr>PBlockHeader_difficulty_target := if c then v else PBlockHeader_difficulty_target m\<rparr>"
  by (simp add: PBlockHeader_set_difficulty_target_def)

lemma PBlockHeader_merge_nonce: "(if c then PBlockHeader_set_nonce v m else m) = m\<lparr>PBlockHeader_nonce := if c then v else PBlockHeader_nonce m\<rparr>"
  by (simp add: PBlockHeader_set_nonce_def)

lemma PBlockHeader_merge_timestamp: "(if c then PBlockHeader_set_timestamp v m else m) = m\<lparr>PBlockHeader_timestamp := if c then v else PBlockHeader_timestamp m\<rparr>"
  by (simp add: PBlockHeader_set_timestamp_def)

lemmas PBlockHeader_Merge = PBlockHeader_MergeFrom_def Let_def
  PBlockHeader_merge_version
  PBlockHeader_merge_previous_block_hash
  PBlockHeader_merge_merkle_root
  PBlockHeader_merge_difficulty_target
  PBlockHeader_merge_nonce
  PBlockHeader_merge_timestamp

definition PBlockHeader_copy :: "'u runtime \<Rightarrow> 'u PBlockHeader \<Rightarrow> 'u PBlockHeader" where
  "PBlockHeader_copy rt from = \<lparr>
     PBlockHeader_metadata = MergeUnknownFields rt (no_unknown_fields rt) (PBlockHeader_metadata from),
     PBlockHeader_version = PBlockHeader_version from,
     PBlockHeader_previous_block_hash = PBlockHeader_previous_block_hash from,
     PBlockHeader_merkle_root = PBlockHeader_merkle_root from,
     PBlockHeader_difficulty_target = PBlockHeader_difficulty_target from,
     PBlockHeader_nonce = PBlockHeader_nonce from,
     PBlockHeader_timestamp = PBlockHeader_timestamp from,
     PBlockHeader_cached_size = 0\<rparr>"

definition PBlockHeader_CopyFrom :: "'u runtime \<Rightarrow> 'u PBlockHeader \<Rightarrow> 'u PBlockHeader \<Rightarrow> 'u PBlockHeader" where
  "PBlockHeader_CopyFrom rt from m = PBlockHeader_MergeFrom rt from (PBlockHeader_Clear rt m)"

definition PBlockHeader_InternalSwap :: "'u PBlockHeader \<Rightarrow> 'u PBlockHeader \<Rightarrow> ('u PBlockHeader) \<times> ('u PBlockHeader)" where
  "PBlockHeader_InternalSwap m other =
     (other\<lparr>PBlockHeader_cached_size := PBlockHeader_cached_size m\<rparr>,
      m\<lparr>PBlockHeader_cached_size := PBlockHeader_cached_size other\<rparr>)"

definition PBlockHeader_ParseFromString :: "'u runtime \<Rightarrow> string \<Rightarrow> 'u PBlockHeader \<Rightarrow> ('u PBlockHeader) result" where
  "PBlockHeader_ParseFromString rt s m = ParseFromString (PBlockHeader_Clear rt) (PBlockHeader_InternalParse rt) s m"

definition PBlockHeader_SerializeToString :: "'u runtime \<Rightarrow> 'u PBlockHeader \<Rightarrow> string" where
  "PBlockHeader_SerializeToString rt m = SerializeToString (PBlockHeader_ByteSizeLong rt) (PBlockHeader_InternalSerialize rt) m"

text \<open>The bytes of a message whose sizes were just computed, and the messages the round trips are about.\<close>

definition PBlockHeader_wire :: "'u runtime \<Rightarrow> 'u PBlockHeader \<Rightarrow> string" where
  "PBlockHeader_wire rt m = PBlockHeader_InternalSerialize rt (snd (PBlockHeader_ByteSizeLong rt m))"

definition PBlockHeader_plain :: "'u runtime \<Rightarrow> 'u PBlockHeader \<Rightarrow> bool" where
  [codec_simps]: "PBlockHeader_plain rt m \<longleftrightarrow> \<not> have_unknown_fields rt (PBlockHeader_metadata m)"

context protobuf_runtime
begin

lemma PBlockHeader_parse_total: "PBlockHeader_InternalParse rt p m \<noteq> None"
  unfolding PBlockHeader_InternalParse_def
  by (rule parse_loop_total) (simp add: PBlockHeader_field_def)

lemma PBlockHeader_wire_eq:
  "PBlockHeader_wire rt m =
     (if PBlockHeader_version m \<noteq> 0 then WriteUInt32ToArray rt 1 (PBlockHeader_version m) else '''') @
     (if PBlockHeader_previous_block_hash m \<noteq> 0 then WriteUInt32ToArray rt 2 (PBlockHeader_previous_block_hash m) else '''') @
     (if PBlockHeader_merkle_root m \<noteq> 0 then WriteUInt32ToArray rt 3 (PBlockHeader_merkle_root m) else '''') @
     (if PBlockHeader_difficulty_target m \<noteq> 0 then WriteUInt32ToArray rt 4 (PBlockHeader_difficulty_target m) else '''') @
     (if PBlockHeader_nonce m \<noteq> 0 then WriteUInt32ToArray rt 5 (PBlockHeader_nonce m) else '''') @
     (if PBlockHeader_timestamp m \<noteq> 0 then WriteUInt32ToArray rt 6 (PBlockHeader_timestamp m) else '''') @
     unknown_bytes rt (PBlockHeader_metadata m)"
  unfolding PBlockHeader_wire_def PBlockHeader_InternalSerialize_def PBlockHeader_ByteSizeLong_def Let_def
  by (simp split: option.splits)

lemma PBlockHeader_size_length: "fst (PBlockHeader_ByteSizeLong rt m) = length (PBlockHeader_wire rt m)"
  unfolding PBlockHeader_wire_eq PBlockHeader_ByteSizeLong_def Let_def
  by (simp only: length_fields rel_simps order_refl)
    (simp add: with_unknown_size_eq size_message length_concat comp_def sum_list_Suc
      case_prod_unfold  cong del: if_weak_cong split del: if_split split: option.split)

lemma PBlockHeader_cached_length: "PBlockHeader_cached_size (snd (PBlockHeader_ByteSizeLong rt m)) = length (PBlockHeader_wire rt m)"
  unfolding PBlockHeader_size_length [symmetric] by (simp add: PBlockHeader_ByteSizeLong_def Let_def)

lemma PBlockHeader_loop_version:
  "parse_loop rt (PBlockHeader_field rt) ((if v \<noteq> 0 then WriteUInt32ToArray rt 1 v else '''') @ r) m
     = parse_loop rt (PBlockHeader_field rt) r (m\<lparr>PBlockHeader_version := if v \<noteq> 0 then v else PBlockHeader_version m\<rparr>)"
  by (subst loop_uint32 [where upd = "\<lambda>v. m\<lparr>PBlockHeader_version := v\<rparr>"]) (simp_all add: PBlockHeader_field_def codec_simps)

lemma PBlockHeader_loop_previous_block_hash:
  "parse_loop rt (PBlockHeader_field rt) ((if v \<noteq> 0 then WriteUInt32ToArray rt 2 v else '''') @ r) m
     = parse_loop rt (PBlockHeader_field rt) r (m\<lparr>PBlockHeader_previous_block_hash := if v \<noteq> 0 then v else PBlockHeader_previous_block_hash m\<rparr>)"
  by (subst loop_uint32 [where upd = "\<lambda>v. m\<lparr>PBlockHeader_previous_block_hash := v\<rparr>"]) (simp_all add: PBlockHeader_field_def codec_simps)

lemma PBlockHeader_loop_merkle_root:
  "parse_loop rt (PBlockHeader_field rt) ((if v \<noteq> 0 then WriteUInt32ToArray rt 3 v else '''') @ r) m
     = parse_loop rt (PBlockHeader_field rt) r (m\<lparr>PBlockHeader_merkle_root := if v \<noteq> 0 then v else PBlockHeader_merkle_root m\<rparr>)"
  by (subst loop_uint32 [where upd = "\<lambda>v. m\<lparr>PBlockHeader_merkle_root := v\<rparr>"]) (simp_all add: PBlockHeader_field_def codec_simps)

lemma PBlockHeader_loop_difficulty_target:
  "parse_loop rt (PBlockHeader_field rt) ((if v \<noteq> 0 then WriteUInt32ToArray rt 4 v else '''') @ r) m
     = parse_loop rt (PBlockHeader_field rt) r (m\<lparr>PBlockHeader_difficulty_target := if v \<noteq> 0 then v else PBlockHeader_difficulty_target m\<rparr>)"
  by (subst loop_uint32 [where upd = "\<lambda>v. m\<lparr>PBlockHeader_difficulty_target := v\<rparr>"]) (simp_all add: PBlockHeader_field_def codec_simps)

lemma PBlockHeader_loop_nonce:
  "parse_loop rt (PBlockHeader_field rt) ((if v \<noteq> 0 then WriteUInt32ToArray rt 5 v else '''') @ r) m
     = parse_loop rt (PBlockHeader_field rt) r (m\<lparr>PBlockHeader_nonce := if v \<noteq> 0 then v else PBlockHeader_nonce m\<rparr>)"
  by (subst loop_uint32 [where upd = "\<lambda>v. m\<lparr>PBlockHeader_nonce := v\<rparr>"]) (simp_all add: PBlockHeader_field_def codec_simps)

lemma PBlockHeader_loop_timestamp:
  "parse_loop rt (PBlockHeader_field rt) ((if v \<noteq> 0 then WriteUInt32ToArray rt 6 v else '''') @ r) m
     = parse_loop rt (PBlockHeader_field rt) r (m\<lparr>PBlockHeader_timestamp := if v \<noteq> 0 then v else PBlockHeader_timestamp m\<rparr>)"
  by (subst loop_uint32 [where upd = "\<lambda>v. m\<lparr>PBlockHeader_timestamp := v\<rparr>"]) (simp_all add: PBlockHeader_field_def codec_simps)

lemma PBlockHeader_parse_wire:
  assumes "PBlockHeader_plain rt m" "length (PBlockHeader_wire rt m) \<le> MAX_SIZE"
  shows "PBlockHeader_InternalParse rt (PBlockHeader_wire rt m) m' = Some (Parsed (PBlockHeader_MergeFrom rt m m'))"
proof -
  have u: "unknown_bytes rt (PBlockHeader_metadata m) = ''''" "\<not> have_unknown_fields rt (PBlockHeader_metadata m)"
    using assms(1) by (simp_all add: codec_simps unknown_bytes_def)
  show ?thesis
    unfolding PBlockHeader_InternalParse_def PBlockHeader_wire_eq u
    by (simp only: PBlockHeader_loop_version
        PBlockHeader_loop_previous_block_hash
        PBlockHeader_loop_merkle_root
        PBlockHeader_loop_difficulty_target
        PBlockHeader_loop_nonce
        PBlockHeader_loop_timestamp loop_end PBlockHeader_Merge)
      (simp add: codec_simps merge_none u cong del: if_weak_cong split del: if_split split: option.split)
qed

lemma PBlockHeader_MergeFrom_new:
  assumes "PBlockHeader_plain rt m"
  shows "PBlockHeader_MergeFrom rt m (PBlockHeader_new rt) = PBlockHeader_copy rt m"
  using assms by (simp only: PBlockHeader_Merge) (simp add: PBlockHeader_copy_def PBlockHeader_new_def codec_simps merge_none no_unknown
      cong del: if_weak_cong split del: if_split split: option.splits)

lemma PBlockHeader_roundtrip:
  assumes "PBlockHeader_plain rt m" "length (PBlockHeader_wire rt m) \<le> MAX_SIZE"
  shows "PBlockHeader_ParseFromString rt (PBlockHeader_SerializeToString rt m) m' = Inr (PBlockHeader_MergeFrom rt m (PBlockHeader_Clear rt m'))"
  using assms by (simp add: PBlockHeader_ParseFromString_def PBlockHeader_SerializeToString_def ParseFromString_def SerializeToString_def
      case_prod_unfold Let_def PBlockHeader_size_length PBlockHeader_parse_wire flip: PBlockHeader_wire_def)

lemma PBlockHeader_roundtrip_new:
  assumes "PBlockHeader_plain rt m" "length (PBlockHeader_wire rt m) \<le> MAX_SIZE"
  shows "PBlockHeader_ParseFromString rt (PBlockHeader_SerializeToString rt m) (PBlockHeader_new rt) = Inr (PBlockHeader_copy rt m)"
proof -
  have "PBlockHeader_Clear rt (PBlockHeader_new rt) = PBlockHeader_new rt"
    by (simp add: PBlockHeader_Clear_def PBlockHeader_new_def)
  then show ?thesis using PBlockHeader_roundtrip [OF assms] PBlockHeader_MergeFrom_new [OF assms(1)] by simp
qed

lemma PBlockHeader_ParseFromString_returns: "PBlockHeader_ParseFromString rt s m \<noteq> Inl Diverges"
  using PBlockHeader_parse_total [of s "PBlockHeader_Clear rt m"] by (auto simp: PBlockHeader_ParseFromString_def ParseFromString_def)

end

section \<open>PBlock\<close>

record 'u PBlock =
  PBlock_metadata :: 'u
  PBlock_transactions :: "'u PTransaction list"
  PBlock_block_header :: "'u PBlockHeader option"
  PBlock_hash :: uint32
  PBlock_calculate_fees :: uint32
  PBlock_obtain_merkle_root :: uint32
  PBlock_cached_size :: nat

definition PBlock_new :: "'u runtime \<Rightarrow> 'u PBlock" where
  "PBlock_new rt = \<lparr>
     PBlock_metadata = no_unknown_fields rt,
     PBlock_transactions = [],
     PBlock_block_header = None,
     PBlock_hash = 0,
     PBlock_calculate_fees = 0,
     PBlock_obtain_merkle_root = 0,
     PBlock_cached_size = 0\<rparr>"

definition PBlock_has_block_header :: "'u PBlock \<Rightarrow> bool" where
  [codec_simps]: "PBlock_has_block_header m \<longleftrightarrow> PBlock_block_header m \<noteq> None"

definition PBlock_get_block_header :: "'u runtime \<Rightarrow> 'u PBlock \<Rightarrow> 'u PBlockHeader" where
  [codec_simps]: "PBlock_get_block_header rt m = (case PBlock_block_header m of None \<Rightarrow> PBlockHeader_new rt | Some x \<Rightarrow> x)"

definition PBlock_mutable_block_header :: "'u runtime \<Rightarrow> 'u PBlock \<Rightarrow> 'u PBlockHeader" where
  [codec_simps]: "PBlock_mutable_block_header rt m = (if PBlock_block_header m = None then PBlockHeader_new rt else the (PBlock_block_header m))"

definition PBlock_set_allocated_block_header :: "'u PBlockHeader option \<Rightarrow> 'u PBlock \<Rightarrow> 'u PBlock" where
  [codec_simps]: "PBlock_set_allocated_block_header p m = m\<lparr>PBlock_block_header := p\<rparr>"

definition PBlock_add_transactions :: "'u PTransaction \<Rightarrow> 'u PBlock \<Rightarrow> 'u PBlock" where
  [codec_simps]: "PBlock_add_transactions v m = m\<lparr>PBlock_transactions := PBlock_transactions m @ [v]\<rparr>"

definition PBlock_set_hash :: "uint32 \<Rightarrow> 'u PBlock \<Rightarrow> 'u PBlock" where
  [codec_simps]: "PBlock_set_hash v m = m\<lparr>PBlock_hash := v\<rparr>"

definition PBlock_set_calculate_fees :: "uint32 \<Rightarrow> 'u PBlock \<Rightarrow> 'u PBlock" where
  [codec_simps]: "PBlock_set_calculate_fees v m = m\<lparr>PBlock_calculate_fees := v\<rparr>"

definition PBlock_set_obtain_merkle_root :: "uint32 \<Rightarrow> 'u PBlock \<Rightarrow> 'u PBlock" where
  [codec_simps]: "PBlock_set_obtain_merkle_root v m = m\<lparr>PBlock_obtain_merkle_root := v\<rparr>"

definition PBlock_Clear :: "'u runtime \<Rightarrow> 'u PBlock \<Rightarrow> 'u PBlock" where
  "PBlock_Clear rt m = m\<lparr>
     PBlock_transactions := [],
     PBlock_block_header := None,
     PBlock_hash := 0,
     PBlock_calculate_fees := 0,
     PBlock_obtain_merkle_root := 0,
     PBlock_metadata := no_unknown_fields rt\<rparr>"

definition PBlock_ByteSizeLong :: "'u runtime \<Rightarrow> 'u PBlock \<Rightarrow> nat \<times> 'u PBlock" where
  "PBlock_ByteSizeLong rt m =
     (let total_size = 0;
          transactions = map (PTransaction_ByteSizeLong rt) (PBlock_transactions m);
          total_size = total_size + 1 * length (PBlock_transactions m);
          total_size = total_size + sum_list (map (\<lambda>(n, _). MessageSize rt n) transactions);
          block_header = map_option (PBlockHeader_ByteSizeLong rt) (PBlock_block_header m);
          total_size = total_size + (case block_header of None \<Rightarrow> 0 | Some (n, _) \<Rightarrow> 1 + MessageSize rt n);
          total_size = total_size + (if PBlock_hash m \<noteq> 0 then 1 + UInt32Size rt (PBlock_hash m) else 0);
          total_size = total_size + (if PBlock_calculate_fees m \<noteq> 0 then 1 + UInt32Size rt (PBlock_calculate_fees m) else 0);
          total_size = total_size + (if PBlock_obtain_merkle_root m \<noteq> 0 then 1 + UInt32Size rt (PBlock_obtain_merkle_root m) else 0);
          total_size = with_unknown_size rt (PBlock_metadata m) total_size
      in (total_size, m\<lparr>PBlock_transactions := map snd transactions,
           PBlock_block_header := map_option snd block_header,
           PBlock_cached_size := total_size\<rparr>))"

definition PBlock_InternalSerialize :: "'u runtime \<Rightarrow> 'u PBlock \<Rightarrow> string" where
  "PBlock_InternalSerialize rt m =
     (case PBlock_block_header m of None \<Rightarrow> '''' | Some x \<Rightarrow> InternalWriteMessage rt 1 (PBlockHeader_cached_size x) (PBlockHeader_InternalSerialize rt x)) @
     concat (map (\<lambda>x. InternalWriteMessage rt 2 (PTransaction_cached_size x) (PTransaction_InternalSerialize rt x)) (PBlock_transactions m)) @
     (if PBlock_hash m \<noteq> 0 then WriteUInt32ToArray rt 3 (PBlock_hash m) else '''') @
     (if PBlock_calculate_fees m \<noteq> 0 then WriteUInt32ToArray rt 4 (PBlock_calculate_fees m) else '''') @
     (if PBlock_obtain_merkle_root m \<noteq> 0 then WriteUInt32ToArray rt 5 (PBlock_obtain_merkle_root m) else '''') @
     unknown_bytes rt (PBlock_metadata m)"

definition PBlock_field :: "'u runtime \<Rightarrow> 'u PBlock \<Rightarrow> uint32 \<Rightarrow> string \<Rightarrow> ('u PBlock) step option" where
  "PBlock_field rt m tag ptr =
     (if on_tag tag 1 10 then
        map_option (field_step (\<lambda>x. m\<lparr>PBlock_block_header := Some x\<rparr>))
        (ParseMessage rt (PBlockHeader_InternalParse rt) (PBlock_mutable_block_header rt m) ptr)
      else if on_tag tag 2 18 then
        parse_repeated rt 18 (PTransaction_InternalParse rt) (PTransaction_new rt) PBlock_add_transactions ptr m
      else if on_tag tag 3 24 then
        Some (field_step (\<lambda>v. m\<lparr>PBlock_hash := v\<rparr>) (ReadVarint32 rt ptr))
      else if on_tag tag 4 32 then
        Some (field_step (\<lambda>v. m\<lparr>PBlock_calculate_fees := v\<rparr>) (ReadVarint32 rt ptr))
      else if on_tag tag 5 40 then
        Some (field_step (\<lambda>v. m\<lparr>PBlock_obtain_merkle_root := v\<rparr>) (ReadVarint32 rt ptr))
      else Some (handle_unusual rt tag (\<lambda>u. m\<lparr>PBlock_metadata := u\<rparr>) (PBlock_metadata m) m ptr))"

definition PBlock_InternalParse :: "'u runtime \<Rightarrow> string \<Rightarrow> 'u PBlock \<Rightarrow> ('u PBlock) parsed option" where
  "PBlock_InternalParse rt ptr m = parse_loop rt (PBlock_field rt) ptr m"

definition PBlock_MergeFrom :: "'u runtime \<Rightarrow> 'u PBlock \<Rightarrow> 'u PBlock \<Rightarrow> 'u PBlock" where
  "PBlock_MergeFrom rt from m =
     (let m = m\<lparr>PBlock_metadata := MergeUnknownFields rt (PBlock_metadata m) (PBlock_metadata from)\<rparr>;
          m = m\<lparr>PBlock_transactions := PBlock_transactions m @ map (\<lambda>x. PTransaction_MergeFrom rt x (PTransaction_new rt)) (PBlock_transactions from)\<rparr>;
          m = (if PBlock_has_block_header from
               then m\<lparr>PBlock_block_header := Some (PBlockHeader_MergeFrom rt (PBlock_get_block_header rt from) (PBlock_mutable_block_header rt m))\<rparr> else m);
          m = (if PBlock_hash from \<noteq> 0 then PBlock_set_hash (PBlock_hash from) m else m);
          m = (if PBlock_calculate_fees from \<noteq> 0 then PBlock_set_calculate_fees (PBlock_calculate_fees from) m else m);
          m = (if PBlock_obtain_merkle_root from \<noteq> 0 then PBlock_set_obtain_merkle_root (PBlock_obtain_merkle_root from) m else m)
      in m)"

lemma PBlock_merge_hash: "(if c then PBlock_set_hash v m else m) = m\<lparr>PBlock_hash := if c then v else PBlock_hash m\<rparr>"
  by (simp add: PBlock_set_hash_def)

lemma PBlock_merge_calculate_fees: "(if c then PBlock_set_calculate_fees v m else m) = m\<lparr>PBlock_calculate_fees := if c then v else PBlock_calculate_fees m\<rparr>"
  by (simp add: PBlock_set_calculate_fees_def)

lemma PBlock_merge_obtain_merkle_root: "(if c then PBlock_set_obtain_merkle_root v m else m) = m\<lparr>PBlock_obtain_merkle_root := if c then v else PBlock_obtain_merkle_root m\<rparr>"
  by (simp add: PBlock_set_obtain_merkle_root_def)

lemmas PBlock_Merge = PBlock_MergeFrom_def Let_def
  PBlock_merge_hash
  PBlock_merge_calculate_fees
  PBlock_merge_obtain_merkle_root

definition PBlock_copy :: "'u runtime \<Rightarrow> 'u PBlock \<Rightarrow> 'u PBlock" where
  "PBlock_copy rt from = \<lparr>
     PBlock_metadata = MergeUnknownFields rt (no_unknown_fields rt) (PBlock_metadata from),
     PBlock_transactions = map (\<lambda>x. PTransaction_MergeFrom rt x (PTransaction_new rt)) (PBlock_transactions from),
     PBlock_block_header = map_option (PBlockHeader_copy rt) (PBlock_block_header from),
     PBlock_hash = PBlock_hash from,
     PBlock_calculate_fees = PBlock_calculate_fees from,
     PBlock_obtain_merkle_root = PBlock_obtain_merkle_root from,
     PBlock_cached_size = 0\<rparr>"

definition PBlock_CopyFrom :: "'u runtime \<Rightarrow> 'u PBlock \<Rightarrow> 'u PBlock \<Rightarrow> 'u PBlock" where
  "PBlock_CopyFrom rt from m = PBlock_MergeFrom rt from (PBlock_Clear rt m)"

definition PBlock_InternalSwap :: "'u PBlock \<Rightarrow> 'u PBlock \<Rightarrow> ('u PBlock) \<times> ('u PBlock)" where
  "PBlock_InternalSwap m other =
     (other\<lparr>PBlock_cached_size := PBlock_cached_size m\<rparr>,
      m\<lparr>PBlock_cached_size := PBlock_cached_size other\<rparr>)"

definition PBlock_ParseFromString :: "'u runtime \<Rightarrow> string \<Rightarrow> 'u PBlock \<Rightarrow> ('u PBlock) result" where
  "PBlock_ParseFromString rt s m = ParseFromString (PBlock_Clear rt) (PBlock_InternalParse rt) s m"

definition PBlock_SerializeToString :: "'u runtime \<Rightarrow> 'u PBlock \<Rightarrow> string" where
  "PBlock_SerializeToString rt m = SerializeToString (PBlock_ByteSizeLong rt) (PBlock_InternalSerialize rt) m"

text \<open>The bytes of a message whose sizes were just computed, and the messages the round trips are about.\<close>

definition PBlock_wire :: "'u runtime \<Rightarrow> 'u PBlock \<Rightarrow> string" where
  "PBlock_wire rt m = PBlock_InternalSerialize rt (snd (PBlock_ByteSizeLong rt m))"

definition PBlock_plain :: "'u runtime \<Rightarrow> 'u PBlock \<Rightarrow> bool" where
  [codec_simps]: "PBlock_plain rt m \<longleftrightarrow> \<not> have_unknown_fields rt (PBlock_metadata m) \<and>
     list_all (PTransaction_plain rt) (PBlock_transactions m) \<and>
     (case PBlock_block_header m of None \<Rightarrow> True | Some x \<Rightarrow> PBlockHeader_plain rt x)"

context protobuf_runtime
begin

lemma PBlock_parse_total: "PBlock_InternalParse rt p m \<noteq> None"
  unfolding PBlock_InternalParse_def
  by (rule parse_loop_total) (simp add: PBlock_field_def advances_message advances_repeated PBlockHeader_parse_total PTransaction_parse_total)

lemma PBlock_wire_eq:
  "PBlock_wire rt m =
     (case PBlock_block_header m of None \<Rightarrow> '''' | Some x \<Rightarrow> InternalWriteMessage rt 1 (length (PBlockHeader_wire rt x)) (PBlockHeader_wire rt x)) @
     concat (map (\<lambda>b. InternalWriteMessage rt 2 (length b) b) (map (PTransaction_wire rt) (PBlock_transactions m))) @
     (if PBlock_hash m \<noteq> 0 then WriteUInt32ToArray rt 3 (PBlock_hash m) else '''') @
     (if PBlock_calculate_fees m \<noteq> 0 then WriteUInt32ToArray rt 4 (PBlock_calculate_fees m) else '''') @
     (if PBlock_obtain_merkle_root m \<noteq> 0 then WriteUInt32ToArray rt 5 (PBlock_obtain_merkle_root m) else '''') @
     unknown_bytes rt (PBlock_metadata m)"
  unfolding PBlock_wire_def PBlock_InternalSerialize_def PBlock_ByteSizeLong_def Let_def
  by (simp add: comp_def PBlockHeader_cached_length PBlockHeader_wire_def [symmetric] PTransaction_cached_length PTransaction_wire_def [symmetric] split: option.splits)

lemma PBlock_size_length: "fst (PBlock_ByteSizeLong rt m) = length (PBlock_wire rt m)"
  unfolding PBlock_wire_eq PBlock_ByteSizeLong_def Let_def
  by (simp only: length_fields rel_simps order_refl)
    (simp add: with_unknown_size_eq size_message length_concat comp_def sum_list_Suc
      case_prod_unfold PBlockHeader_size_length PTransaction_size_length cong del: if_weak_cong split del: if_split split: option.split)

lemma PBlock_cached_length: "PBlock_cached_size (snd (PBlock_ByteSizeLong rt m)) = length (PBlock_wire rt m)"
  unfolding PBlock_size_length [symmetric] by (simp add: PBlock_ByteSizeLong_def Let_def)

lemma PBlock_loop_block_header:
  assumes "\<And>x. v = Some x \<Longrightarrow> length (PBlockHeader_wire rt x) \<le> MAX_SIZE \<and> PBlockHeader_plain rt x"
  shows "parse_loop rt (PBlock_field rt) ((case v of None \<Rightarrow> '''' | Some x \<Rightarrow> InternalWriteMessage rt 1 (length (PBlockHeader_wire rt x)) (PBlockHeader_wire rt x)) @ r) m
     = parse_loop rt (PBlock_field rt) r (m\<lparr>PBlock_block_header := case v of None \<Rightarrow> PBlock_block_header m
         | Some x \<Rightarrow> Some (PBlockHeader_MergeFrom rt x (PBlock_mutable_block_header rt m))\<rparr>)"
proof (cases v)
  case (Some x)
  then show ?thesis using assms [of x]
    by (simp, subst loop_message [where upd = "\<lambda>x. m\<lparr>PBlock_block_header := Some x\<rparr>"
          and parse = "PBlockHeader_InternalParse rt" and x = "PBlock_mutable_block_header rt m"])
      (simp_all add: PBlockHeader_parse_wire PBlock_field_def codec_simps)
qed simp

lemma PBlock_loop_transactions:
  assumes "\<And>x. x \<in> set v \<Longrightarrow> length (PTransaction_wire rt x) \<le> MAX_SIZE \<and> PTransaction_plain rt x"
  shows "parse_loop rt (PBlock_field rt) (concat (map (\<lambda>b. InternalWriteMessage rt 2 (length b) b) (map (PTransaction_wire rt) v)) @ r) m
     = parse_loop rt (PBlock_field rt) r (m\<lparr>PBlock_transactions := PBlock_transactions m @ map (\<lambda>x. PTransaction_MergeFrom rt x (PTransaction_new rt)) v\<rparr>)"
proof -
  have "fold PBlock_add_transactions xs m = m\<lparr>PBlock_transactions := PBlock_transactions m @ xs\<rparr>" for xs
    by (induction xs arbitrary: m) (simp_all add: codec_simps)
  then show ?thesis using assms
    by (subst loop_repeated [where parse = "PTransaction_InternalParse rt" and new = "PTransaction_new rt"
          and add = "PBlock_add_transactions" and ys = "map (\<lambda>x. PTransaction_MergeFrom rt x (PTransaction_new rt)) v"])
      (auto simp: PBlock_field_def on_tag_numeral list_all2_map1 list_all2_map2 list_all2_same PTransaction_parse_wire)
qed

lemma PBlock_loop_hash:
  "parse_loop rt (PBlock_field rt) ((if v \<noteq> 0 then WriteUInt32ToArray rt 3 v else '''') @ r) m
     = parse_loop rt (PBlock_field rt) r (m\<lparr>PBlock_hash := if v \<noteq> 0 then v else PBlock_hash m\<rparr>)"
  by (subst loop_uint32 [where upd = "\<lambda>v. m\<lparr>PBlock_hash := v\<rparr>"]) (simp_all add: PBlock_field_def codec_simps)

lemma PBlock_loop_calculate_fees:
  "parse_loop rt (PBlock_field rt) ((if v \<noteq> 0 then WriteUInt32ToArray rt 4 v else '''') @ r) m
     = parse_loop rt (PBlock_field rt) r (m\<lparr>PBlock_calculate_fees := if v \<noteq> 0 then v else PBlock_calculate_fees m\<rparr>)"
  by (subst loop_uint32 [where upd = "\<lambda>v. m\<lparr>PBlock_calculate_fees := v\<rparr>"]) (simp_all add: PBlock_field_def codec_simps)

lemma PBlock_loop_obtain_merkle_root:
  "parse_loop rt (PBlock_field rt) ((if v \<noteq> 0 then WriteUInt32ToArray rt 5 v else '''') @ r) m
     = parse_loop rt (PBlock_field rt) r (m\<lparr>PBlock_obtain_merkle_root := if v \<noteq> 0 then v else PBlock_obtain_merkle_root m\<rparr>)"
  by (subst loop_uint32 [where upd = "\<lambda>v. m\<lparr>PBlock_obtain_merkle_root := v\<rparr>"]) (simp_all add: PBlock_field_def codec_simps)

lemma PBlock_parse_wire:
  assumes "PBlock_plain rt m" "length (PBlock_wire rt m) \<le> MAX_SIZE"
  shows "PBlock_InternalParse rt (PBlock_wire rt m) m' = Some (Parsed (PBlock_MergeFrom rt m m'))"
proof -
  have block_header: "length (PBlockHeader_wire rt x) \<le> MAX_SIZE \<and> PBlockHeader_plain rt x" if "PBlock_block_header m = Some x" for x
    using assms that size_message_ge [of "length (PBlockHeader_wire rt x)"] by (simp add: codec_simps PBlock_wire_eq size_message)
  have transactions: "length (PTransaction_wire rt x) \<le> MAX_SIZE \<and> PTransaction_plain rt x" if "x \<in> set (PBlock_transactions m)" for x
    using assms that written_message_le [of 2 x "PBlock_transactions m" "PTransaction_wire rt"] by (simp add: codec_simps PBlock_wire_eq list_all_iff del: length_concat)
  have u: "unknown_bytes rt (PBlock_metadata m) = ''''" "\<not> have_unknown_fields rt (PBlock_metadata m)"
    using assms(1) by (simp_all add: codec_simps unknown_bytes_def)
  show ?thesis
    unfolding PBlock_InternalParse_def PBlock_wire_eq u
    by (simp only: PBlock_loop_block_header [OF block_header]
        PBlock_loop_transactions [OF transactions]
        PBlock_loop_hash
        PBlock_loop_calculate_fees
        PBlock_loop_obtain_merkle_root loop_end PBlock_Merge)
      (simp add: codec_simps merge_none u cong del: if_weak_cong split del: if_split split: option.split)
qed

lemma PBlock_MergeFrom_new:
  assumes "PBlock_plain rt m"
  shows "PBlock_MergeFrom rt m (PBlock_new rt) = PBlock_copy rt m"
  using assms by (simp only: PBlock_Merge) (simp add: PBlock_copy_def PBlock_new_def codec_simps merge_none no_unknown PBlockHeader_MergeFrom_new
      cong del: if_weak_cong split del: if_split split: option.splits)

lemma PBlock_roundtrip:
  assumes "PBlock_plain rt m" "length (PBlock_wire rt m) \<le> MAX_SIZE"
  shows "PBlock_ParseFromString rt (PBlock_SerializeToString rt m) m' = Inr (PBlock_MergeFrom rt m (PBlock_Clear rt m'))"
  using assms by (simp add: PBlock_ParseFromString_def PBlock_SerializeToString_def ParseFromString_def SerializeToString_def
      case_prod_unfold Let_def PBlock_size_length PBlock_parse_wire flip: PBlock_wire_def)

lemma PBlock_roundtrip_new:
  assumes "PBlock_plain rt m" "length (PBlock_wire rt m) \<le> MAX_SIZE"
  shows "PBlock_ParseFromString rt (PBlock_SerializeToString rt m) (PBlock_new rt) = Inr (PBlock_copy rt m)"
proof -
  have "PBlock_Clear rt (PBlock_new rt) = PBlock_new rt"
    by (simp add: PBlock_Clear_def PBlock_new_def)
  then show ?thesis using PBlock_roundtrip [OF assms] PBlock_MergeFrom_new [OF assms(1)] by simp
qed

lemma PBlock_ParseFromString_returns: "PBlock_ParseFromString rt s m \<noteq> Inl Diverges"
  using PBlock_parse_total [of s "PBlock_Clear rt m"] by (auto simp: PBlock_ParseFromString_def ParseFromString_def)

end

section \<open>PBlockRecord\<close>

record 'u PBlockRecord =
  PBlockRecord_metadata :: 'u
  PBlockRecord_block_file_stored :: string
  PBlockRecord_undo_file_stored :: string
  PBlockRecord_block_header :: "'u PBlockHeader option"
  PBlockRecord_height :: uint32
  PBlockRecord_num_transactions :: uint32
  PBlockRecord_block_offset_start :: uint32
  PBlockRecord_block_offset_end :: uint32
  PBlockRecord_undo_offset_start :: uint32
  PBlockRecord_undo_offset_end :: uint32
  PBlockRecord_cached_size :: nat

definition PBlockRecord_new :: "'u runtime \<Rightarrow> 'u PBlockRecord" where
  "PBlockRecord_new rt = \<lparr>
     PBlockRecord_metadata = no_unknown_fields rt,
     PBlockRecord_block_file_stored = '''',
     PBlockRecord_undo_file_stored = '''',
     PBlockRecord_block_header = None,
     PBlockRecord_height = 0,
     PBlockRecord_num_transactions = 0,
     PBlockRecord_block_offset_start = 0,
     PBlockRecord_block_offset_end = 0,
     PBlockRecord_undo_offset_start = 0,
     PBlockRecord_undo_offset_end = 0,
     PBlockRecord_cached_size = 0\<rparr>"

definition PBlockRecord_has_block_header :: "'u PBlockRecord \<Rightarrow> bool" where
  [codec_simps]: "PBlockRecord_has_block_header m \<longleftrightarrow> PBlockRecord_block_header m \<noteq> None"

definition PBlockRecord_get_block_header :: "'u runtime \<Rightarrow> 'u PBlockRecord \<Rightarrow> 'u PBlockHeader" where
  [codec_simps]: "PBlockRecord_get_block_header rt m = (case PBlockRecord_block_header m of None \<Rightarrow> PBlockHeader_new rt | Some x \<Rightarrow> x)"

definition PBlockRecord_mutable_block_header :: "'u runtime \<Rightarrow> 'u PBlockRecord \<Rightarrow> 'u PBlockHeader" where
  [codec_simps]: "PBlockRecord_mutable_block_header rt m = (if PBlockRecord_block_header m = None then PBlockHeader_new rt else the (PBlockRecord_block_header m))"

definition PBlockRecord_set_allocated_block_header :: "'u PBlockHeader option \<Rightarrow> 'u PBlockRecord \<Rightarrow> 'u PBlockRecord" where
  [codec_simps]: "PBlockRecord_set_allocated_block_header p m = m\<lparr>PBlockRecord_block_header := p\<rparr>"

definition PBlockRecord_set_height :: "uint32 \<Rightarrow> 'u PBlockRecord \<Rightarrow> 'u PBlockRecord" where
  [codec_simps]: "PBlockRecord_set_height v m = m\<lparr>PBlockRecord_height := v\<rparr>"

definition PBlockRecord_set_num_transactions :: "uint32 \<Rightarrow> 'u PBlockRecord \<Rightarrow> 'u PBlockRecord" where
  [codec_simps]: "PBlockRecord_set_num_transactions v m = m\<lparr>PBlockRecord_num_transactions := v\<rparr>"

definition PBlockRecord_set_block_file_stored :: "string \<Rightarrow> 'u PBlockRecord \<Rightarrow> 'u PBlockRecord" where
  [codec_simps]: "PBlockRecord_set_block_file_stored v m = m\<lparr>PBlockRecord_block_file_stored := v\<rparr>"

definition PBlockRecord_set_block_offset_start :: "uint32 \<Rightarrow> 'u PBlockRecord \<Rightarrow> 'u PBlockRecord" where
  [codec_simps]: "PBlockRecord_set_block_offset_start v m = m\<lparr>PBlockRecord_block_offset_start := v\<rparr>"

definition PBlockRecord_set_block_offset_end :: "uint32 \<Rightarrow> 'u PBlockRecord \<Rightarrow> 'u PBlockRecord" where
  [codec_simps]: "PBlockRecord_set_block_offset_end v m = m\<lparr>PBlockRecord_block_offset_end := v\<rparr>"

definition PBlockRecord_set_undo_file_stored :: "string \<Rightarrow> 'u PBlockRecord \<Rightarrow> 'u PBlockRecord" where
  [codec_simps]: "PBlockRecord_set_undo_file_stored v m = m\<lparr>PBlockRecord_undo_file_stored := v\<rparr>"

definition PBlockRecord_set_undo_offset_start :: "uint32 \<Rightarrow> 'u PBlockRecord \<Rightarrow> 'u PBlockRecord" where
  [codec_simps]: "PBlockRecord_set_undo_offset_start v m = m\<lparr>PBlockRecord_undo_offset_start := v\<rparr>"

definition PBlockRecord_set_undo_offset_end :: "uint32 \<Rightarrow> 'u PBlockRecord \<Rightarrow> 'u PBlockRecord" where
  [codec_simps]: "PBlockRecord_set_undo_offset_end v m = m\<lparr>PBlockRecord_undo_offset_end := v\<rparr>"

definition PBlockRecord_Clear :: "'u runtime \<Rightarrow> 'u PBlockRecord \<Rightarrow> 'u PBlockRecord" where
  "PBlockRecord_Clear rt m = m\<lparr>
     PBlockRecord_block_file_stored := '''',
     PBlockRecord_undo_file_stored := '''',
     PBlockRecord_block_header := None,
     PBlockRecord_height := 0,
     PBlockRecord_num_transactions := 0,
     PBlockRecord_block_offset_start := 0,
     PBlockRecord_block_offset_end := 0,
     PBlockRecord_undo_offset_start := 0,
     PBlockRecord_undo_offset_end := 0,
     PBlockRecord_metadata := no_unknown_fields rt\<rparr>"

definition PBlockRecord_ByteSizeLong :: "'u runtime \<Rightarrow> 'u PBlockRecord \<Rightarrow> nat \<times> 'u PBlockRecord" where
  "PBlockRecord_ByteSizeLong rt m =
     (let total_size = 0;
          total_size = total_size + (if PBlockRecord_block_file_stored m \<noteq> '''' then 1 + StringSize rt (PBlockRecord_block_file_stored m) else 0);
          total_size = total_size + (if PBlockRecord_undo_file_stored m \<noteq> '''' then 1 + StringSize rt (PBlockRecord_undo_file_stored m) else 0);
          block_header = map_option (PBlockHeader_ByteSizeLong rt) (PBlockRecord_block_header m);
          total_size = total_size + (case block_header of None \<Rightarrow> 0 | Some (n, _) \<Rightarrow> 1 + MessageSize rt n);
          total_size = total_size + (if PBlockRecord_height m \<noteq> 0 then 1 + UInt32Size rt (PBlockRecord_height m) else 0);
          total_size = total_size + (if PBlockRecord_num_transactions m \<noteq> 0 then 1 + UInt32Size rt (PBlockRecord_num_transactions m) else 0);
          total_size = total_size + (if PBlockRecord_block_offset_start m \<noteq> 0 then 1 + UInt32Size rt (PBlockRecord_block_offset_start m) else 0);
          total_size = total_size + (if PBlockRecord_block_offset_end m \<noteq> 0 then 1 + UInt32Size rt (PBlockRecord_block_offset_end m) else 0);
          total_size = total_size + (if PBlockRecord_undo_offset_start m \<noteq> 0 then 1 + UInt32Size rt (PBlockRecord_undo_offset_start m) else 0);
          total_size = total_size + (if PBlockRecord_undo_offset_end m \<noteq> 0 then 1 + UInt32Size rt (PBlockRecord_undo_offset_end m) else 0);
          total_size = with_unknown_size rt (PBlockRecord_metadata m) total_size
      in (total_size, m\<lparr>PBlockRecord_block_header := map_option snd block_header,
           PBlockRecord_cached_size := total_size\<rparr>))"

definition PBlockRecord_InternalSerialize :: "'u runtime \<Rightarrow> 'u PBlockRecord \<Rightarrow> string" where
  "PBlockRecord_InternalSerialize rt m =
     (case PBlockRecord_block_header m of None \<Rightarrow> '''' | Some x \<Rightarrow> InternalWriteMessage rt 1 (PBlockHeader_cached_size x) (PBlockHeader_InternalSerialize rt x)) @
     (if PBlockRecord_height m \<noteq> 0 then WriteUInt32ToArray rt 2 (PBlockRecord_height m) else '''') @
     (if PBlockRecord_num_transactions m \<noteq> 0 then WriteUInt32ToArray rt 3 (PBlockRecord_num_transactions m) else '''') @
     (if PBlockRecord_block_file_stored m \<noteq> '''' then WriteStringMaybeAliased rt 4 (PBlockRecord_block_file_stored m) else '''') @
     (if PBlockRecord_block_offset_start m \<noteq> 0 then WriteUInt32ToArray rt 5 (PBlockRecord_block_offset_start m) else '''') @
     (if PBlockRecord_block_offset_end m \<noteq> 0 then WriteUInt32ToArray rt 6 (PBlockRecord_block_offset_end m) else '''') @
     (if PBlockRecord_undo_file_stored m \<noteq> '''' then WriteStringMaybeAliased rt 7 (PBlockRecord_undo_file_stored m) else '''') @
     (if PBlockRecord_undo_offset_start m \<noteq> 0 then WriteUInt32ToArray rt 8 (PBlockRecord_undo_offset_start m) else '''') @
     (if PBlockRecord_undo_offset_end m \<noteq> 0 then WriteUInt32ToArray rt 9 (PBlockRecord_undo_offset_end m) else '''') @
     unknown_bytes rt (PBlockRecord_metadata m)"

definition PBlockRecord_field :: "'u runtime \<Rightarrow> 'u PBlockRecord \<Rightarrow> uint32 \<Rightarrow> string \<Rightarrow> ('u PBlockRecord) step option" where
  "PBlockRecord_field rt m tag ptr =
     (if on_tag tag 1 10 then
        map_option (field_step (\<lambda>x. m\<lparr>PBlockRecord_block_header := Some x\<rparr>))
        (ParseMessage rt (PBlockHeader_InternalParse rt) (PBlockRecord_mutable_block_header rt m) ptr)
      else if on_tag tag 2 16 then
        Some (field_step (\<lambda>v. m\<lparr>PBlockRecord_height := v\<rparr>) (ReadVarint32 rt ptr))
      else if on_tag tag 3 24 then
        Some (field_step (\<lambda>v. m\<lparr>PBlockRecord_num_transactions := v\<rparr>) (ReadVarint32 rt ptr))
      else if on_tag tag 4 34 then
        Some (string_step rt (\<lambda>v. m\<lparr>PBlockRecord_block_file_stored := v\<rparr>) (InlineGreedyStringParser rt (PBlockRecord_block_file_stored m) ptr))
      else if on_tag tag 5 40 then
        Some (field_step (\<lambda>v. m\<lparr>PBlockRecord_block_offset_start := v\<rparr>) (ReadVarint32 rt ptr))
      else if on_tag tag 6 48 then
        Some (field_step (\<lambda>v. m\<lparr>PBlockRecord_block_offset_end := v\<rparr>) (ReadVarint32 rt ptr))
      else if on_tag tag 7 58 then
        Some (string_step rt (\<lambda>v. m\<lparr>PBlockRecord_undo_file_stored := v\<rparr>) (InlineGreedyStringParser rt (PBlockRecord_undo_file_stored m) ptr))
      else if on_tag tag 8 64 then
        Some (field_step (\<lambda>v. m\<lparr>PBlockRecord_undo_offset_start := v\<rparr>) (ReadVarint32 rt ptr))
      else if on_tag tag 9 72 then
        Some (field_step (\<lambda>v. m\<lparr>PBlockRecord_undo_offset_end := v\<rparr>) (ReadVarint32 rt ptr))
      else Some (handle_unusual rt tag (\<lambda>u. m\<lparr>PBlockRecord_metadata := u\<rparr>) (PBlockRecord_metadata m) m ptr))"

definition PBlockRecord_InternalParse :: "'u runtime \<Rightarrow> string \<Rightarrow> 'u PBlockRecord \<Rightarrow> ('u PBlockRecord) parsed option" where
  "PBlockRecord_InternalParse rt ptr m = parse_loop rt (PBlockRecord_field rt) ptr m"

definition PBlockRecord_MergeFrom :: "'u runtime \<Rightarrow> 'u PBlockRecord \<Rightarrow> 'u PBlockRecord \<Rightarrow> 'u PBlockRecord" where
  "PBlockRecord_MergeFrom rt from m =
     (let m = m\<lparr>PBlockRecord_metadata := MergeUnknownFields rt (PBlockRecord_metadata m) (PBlockRecord_metadata from)\<rparr>;
          m = (if PBlockRecord_block_file_stored from \<noteq> '''' then PBlockRecord_set_block_file_stored (PBlockRecord_block_file_stored from) m else m);
          m = (if PBlockRecord_undo_file_stored from \<noteq> '''' then PBlockRecord_set_undo_file_stored (PBlockRecord_undo_file_stored from) m else m);
          m = (if PBlockRecord_has_block_header from
               then m\<lparr>PBlockRecord_block_header := Some (PBlockHeader_MergeFrom rt (PBlockRecord_get_block_header rt from) (PBlockRecord_mutable_block_header rt m))\<rparr> else m);
          m = (if PBlockRecord_height from \<noteq> 0 then PBlockRecord_set_height (PBlockRecord_height from) m else m);
          m = (if PBlockRecord_num_transactions from \<noteq> 0 then PBlockRecord_set_num_transactions (PBlockRecord_num_transactions from) m else m);
          m = (if PBlockRecord_block_offset_start from \<noteq> 0 then PBlockRecord_set_block_offset_start (PBlockRecord_block_offset_start from) m else m);
          m = (if PBlockRecord_block_offset_end from \<noteq> 0 then PBlockRecord_set_block_offset_end (PBlockRecord_block_offset_end from) m else m);
          m = (if PBlockRecord_undo_offset_start from \<noteq> 0 then PBlockRecord_set_undo_offset_start (PBlockRecord_undo_offset_start from) m else m);
          m = (if PBlockRecord_undo_offset_end from \<noteq> 0 then PBlockRecord_set_undo_offset_end (PBlockRecord_undo_offset_end from) m else m)
      in m)"

lemma PBlockRecord_merge_height: "(if c then PBlockRecord_set_height v m else m) = m\<lparr>PBlockRecord_height := if c then v else PBlockRecord_height m\<rparr>"
  by (simp add: PBlockRecord_set_height_def)

lemma PBlockRecord_merge_num_transactions: "(if c then PBlockRecord_set_num_transactions v m else m) = m\<lparr>PBlockRecord_num_transactions := if c then v else PBlockRecord_num_transactions m\<rparr>"
  by (simp add: PBlockRecord_set_num_transactions_def)

lemma PBlockRecord_merge_block_file_stored: "(if c then PBlockRecord_set_block_file_stored v m else m) = m\<lparr>PBlockRecord_block_file_stored := if c then v else PBlockRecord_block_file_stored m\<rparr>"
  by (simp add: PBlockRecord_set_block_file_stored_def)

lemma PBlockRecord_merge_block_offset_start: "(if c then PBlockRecord_set_block_offset_start v m else m) = m\<lparr>PBlockRecord_block_offset_start := if c then v else PBlockRecord_block_offset_start m\<rparr>"
  by (simp add: PBlockRecord_set_block_offset_start_def)

lemma PBlockRecord_merge_block_offset_end: "(if c then PBlockRecord_set_block_offset_end v m else m) = m\<lparr>PBlockRecord_block_offset_end := if c then v else PBlockRecord_block_offset_end m\<rparr>"
  by (simp add: PBlockRecord_set_block_offset_end_def)

lemma PBlockRecord_merge_undo_file_stored: "(if c then PBlockRecord_set_undo_file_stored v m else m) = m\<lparr>PBlockRecord_undo_file_stored := if c then v else PBlockRecord_undo_file_stored m\<rparr>"
  by (simp add: PBlockRecord_set_undo_file_stored_def)

lemma PBlockRecord_merge_undo_offset_start: "(if c then PBlockRecord_set_undo_offset_start v m else m) = m\<lparr>PBlockRecord_undo_offset_start := if c then v else PBlockRecord_undo_offset_start m\<rparr>"
  by (simp add: PBlockRecord_set_undo_offset_start_def)

lemma PBlockRecord_merge_undo_offset_end: "(if c then PBlockRecord_set_undo_offset_end v m else m) = m\<lparr>PBlockRecord_undo_offset_end := if c then v else PBlockRecord_undo_offset_end m\<rparr>"
  by (simp add: PBlockRecord_set_undo_offset_end_def)

lemmas PBlockRecord_Merge = PBlockRecord_MergeFrom_def Let_def
  PBlockRecord_merge_height
  PBlockRecord_merge_num_transactions
  PBlockRecord_merge_block_file_stored
  PBlockRecord_merge_block_offset_start
  PBlockRecord_merge_block_offset_end
  PBlockRecord_merge_undo_file_stored
  PBlockRecord_merge_undo_offset_start
  PBlockRecord_merge_undo_offset_end

definition PBlockRecord_copy :: "'u runtime \<Rightarrow> 'u PBlockRecord \<Rightarrow> 'u PBlockRecord" where
  "PBlockRecord_copy rt from = \<lparr>
     PBlockRecord_metadata = MergeUnknownFields rt (no_unknown_fields rt) (PBlockRecord_metadata from),
     PBlockRecord_block_file_stored = PBlockRecord_block_file_stored from,
     PBlockRecord_undo_file_stored = PBlockRecord_undo_file_stored from,
     PBlockRecord_block_header = map_option (PBlockHeader_copy rt) (PBlockRecord_block_header from),
     PBlockRecord_height = PBlockRecord_height from,
     PBlockRecord_num_transactions = PBlockRecord_num_transactions from,
     PBlockRecord_block_offset_start = PBlockRecord_block_offset_start from,
     PBlockRecord_block_offset_end = PBlockRecord_block_offset_end from,
     PBlockRecord_undo_offset_start = PBlockRecord_undo_offset_start from,
     PBlockRecord_undo_offset_end = PBlockRecord_undo_offset_end from,
     PBlockRecord_cached_size = 0\<rparr>"

definition PBlockRecord_CopyFrom :: "'u runtime \<Rightarrow> 'u PBlockRecord \<Rightarrow> 'u PBlockRecord \<Rightarrow> 'u PBlockRecord" where
  "PBlockRecord_CopyFrom rt from m = PBlockRecord_MergeFrom rt from (PBlockRecord_Clear rt m)"

definition PBlockRecord_InternalSwap :: "'u PBlockRecord \<Rightarrow> 'u PBlockRecord \<Rightarrow> ('u PBlockRecord) \<times> ('u PBlockRecord)" where
  "PBlockRecord_InternalSwap m other =
     (other\<lparr>PBlockRecord_cached_size := PBlockRecord_cached_size m\<rparr>,
      m\<lparr>PBlockRecord_cached_size := PBlockRecord_cached_size other\<rparr>)"

definition PBlockRecord_ParseFromString :: "'u runtime \<Rightarrow> string \<Rightarrow> 'u PBlockRecord \<Rightarrow> ('u PBlockRecord) result" where
  "PBlockRecord_ParseFromString rt s m = ParseFromString (PBlockRecord_Clear rt) (PBlockRecord_InternalParse rt) s m"

definition PBlockRecord_SerializeToString :: "'u runtime \<Rightarrow> 'u PBlockRecord \<Rightarrow> string" where
  "PBlockRecord_SerializeToString rt m = SerializeToString (PBlockRecord_ByteSizeLong rt) (PBlockRecord_InternalSerialize rt) m"

text \<open>The bytes of a message whose sizes were just computed, and the messages the round trips are about.\<close>

definition PBlockRecord_wire :: "'u runtime \<Rightarrow> 'u PBlockRecord \<Rightarrow> string" where
  "PBlockRecord_wire rt m = PBlockRecord_InternalSerialize rt (snd (PBlockRecord_ByteSizeLong rt m))"

definition PBlockRecord_plain :: "'u runtime \<Rightarrow> 'u PBlockRecord \<Rightarrow> bool" where
  [codec_simps]: "PBlockRecord_plain rt m \<longleftrightarrow> \<not> have_unknown_fields rt (PBlockRecord_metadata m) \<and>
     ascii (PBlockRecord_block_file_stored m) \<and>
     ascii (PBlockRecord_undo_file_stored m) \<and>
     (case PBlockRecord_block_header m of None \<Rightarrow> True | Some x \<Rightarrow> PBlockHeader_plain rt x)"

context protobuf_runtime
begin

lemma PBlockRecord_parse_total: "PBlockRecord_InternalParse rt p m \<noteq> None"
  unfolding PBlockRecord_InternalParse_def
  by (rule parse_loop_total) (simp add: PBlockRecord_field_def advances_message advances_repeated PBlockHeader_parse_total)

lemma PBlockRecord_wire_eq:
  "PBlockRecord_wire rt m =
     (case PBlockRecord_block_header m of None \<Rightarrow> '''' | Some x \<Rightarrow> InternalWriteMessage rt 1 (length (PBlockHeader_wire rt x)) (PBlockHeader_wire rt x)) @
     (if PBlockRecord_height m \<noteq> 0 then WriteUInt32ToArray rt 2 (PBlockRecord_height m) else '''') @
     (if PBlockRecord_num_transactions m \<noteq> 0 then WriteUInt32ToArray rt 3 (PBlockRecord_num_transactions m) else '''') @
     (if PBlockRecord_block_file_stored m \<noteq> '''' then WriteStringMaybeAliased rt 4 (PBlockRecord_block_file_stored m) else '''') @
     (if PBlockRecord_block_offset_start m \<noteq> 0 then WriteUInt32ToArray rt 5 (PBlockRecord_block_offset_start m) else '''') @
     (if PBlockRecord_block_offset_end m \<noteq> 0 then WriteUInt32ToArray rt 6 (PBlockRecord_block_offset_end m) else '''') @
     (if PBlockRecord_undo_file_stored m \<noteq> '''' then WriteStringMaybeAliased rt 7 (PBlockRecord_undo_file_stored m) else '''') @
     (if PBlockRecord_undo_offset_start m \<noteq> 0 then WriteUInt32ToArray rt 8 (PBlockRecord_undo_offset_start m) else '''') @
     (if PBlockRecord_undo_offset_end m \<noteq> 0 then WriteUInt32ToArray rt 9 (PBlockRecord_undo_offset_end m) else '''') @
     unknown_bytes rt (PBlockRecord_metadata m)"
  unfolding PBlockRecord_wire_def PBlockRecord_InternalSerialize_def PBlockRecord_ByteSizeLong_def Let_def
  by (simp add: comp_def PBlockHeader_cached_length PBlockHeader_wire_def [symmetric] split: option.splits)

lemma PBlockRecord_size_length: "fst (PBlockRecord_ByteSizeLong rt m) = length (PBlockRecord_wire rt m)"
  unfolding PBlockRecord_wire_eq PBlockRecord_ByteSizeLong_def Let_def
  by (simp only: length_fields rel_simps order_refl)
    (simp add: with_unknown_size_eq size_message length_concat comp_def sum_list_Suc
      case_prod_unfold PBlockHeader_size_length cong del: if_weak_cong split del: if_split split: option.split)

lemma PBlockRecord_cached_length: "PBlockRecord_cached_size (snd (PBlockRecord_ByteSizeLong rt m)) = length (PBlockRecord_wire rt m)"
  unfolding PBlockRecord_size_length [symmetric] by (simp add: PBlockRecord_ByteSizeLong_def Let_def)

lemma PBlockRecord_loop_block_header:
  assumes "\<And>x. v = Some x \<Longrightarrow> length (PBlockHeader_wire rt x) \<le> MAX_SIZE \<and> PBlockHeader_plain rt x"
  shows "parse_loop rt (PBlockRecord_field rt) ((case v of None \<Rightarrow> '''' | Some x \<Rightarrow> InternalWriteMessage rt 1 (length (PBlockHeader_wire rt x)) (PBlockHeader_wire rt x)) @ r) m
     = parse_loop rt (PBlockRecord_field rt) r (m\<lparr>PBlockRecord_block_header := case v of None \<Rightarrow> PBlockRecord_block_header m
         | Some x \<Rightarrow> Some (PBlockHeader_MergeFrom rt x (PBlockRecord_mutable_block_header rt m))\<rparr>)"
proof (cases v)
  case (Some x)
  then show ?thesis using assms [of x]
    by (simp, subst loop_message [where upd = "\<lambda>x. m\<lparr>PBlockRecord_block_header := Some x\<rparr>"
          and parse = "PBlockHeader_InternalParse rt" and x = "PBlockRecord_mutable_block_header rt m"])
      (simp_all add: PBlockHeader_parse_wire PBlockRecord_field_def codec_simps)
qed simp

lemma PBlockRecord_loop_height:
  "parse_loop rt (PBlockRecord_field rt) ((if v \<noteq> 0 then WriteUInt32ToArray rt 2 v else '''') @ r) m
     = parse_loop rt (PBlockRecord_field rt) r (m\<lparr>PBlockRecord_height := if v \<noteq> 0 then v else PBlockRecord_height m\<rparr>)"
  by (subst loop_uint32 [where upd = "\<lambda>v. m\<lparr>PBlockRecord_height := v\<rparr>"]) (simp_all add: PBlockRecord_field_def codec_simps)

lemma PBlockRecord_loop_num_transactions:
  "parse_loop rt (PBlockRecord_field rt) ((if v \<noteq> 0 then WriteUInt32ToArray rt 3 v else '''') @ r) m
     = parse_loop rt (PBlockRecord_field rt) r (m\<lparr>PBlockRecord_num_transactions := if v \<noteq> 0 then v else PBlockRecord_num_transactions m\<rparr>)"
  by (subst loop_uint32 [where upd = "\<lambda>v. m\<lparr>PBlockRecord_num_transactions := v\<rparr>"]) (simp_all add: PBlockRecord_field_def codec_simps)

lemma PBlockRecord_loop_block_file_stored:
  assumes "length v \<le> MAX_SIZE" "ascii v"
  shows "parse_loop rt (PBlockRecord_field rt) ((if v \<noteq> '''' then WriteStringMaybeAliased rt 4 v else '''') @ r) m
     = parse_loop rt (PBlockRecord_field rt) r (m\<lparr>PBlockRecord_block_file_stored := if v \<noteq> '''' then v else PBlockRecord_block_file_stored m\<rparr>)"
  by (subst loop_string [where upd = "\<lambda>v. m\<lparr>PBlockRecord_block_file_stored := v\<rparr>" and old = "PBlockRecord_block_file_stored m"]) (simp_all add: assms PBlockRecord_field_def codec_simps)

lemma PBlockRecord_loop_block_offset_start:
  "parse_loop rt (PBlockRecord_field rt) ((if v \<noteq> 0 then WriteUInt32ToArray rt 5 v else '''') @ r) m
     = parse_loop rt (PBlockRecord_field rt) r (m\<lparr>PBlockRecord_block_offset_start := if v \<noteq> 0 then v else PBlockRecord_block_offset_start m\<rparr>)"
  by (subst loop_uint32 [where upd = "\<lambda>v. m\<lparr>PBlockRecord_block_offset_start := v\<rparr>"]) (simp_all add: PBlockRecord_field_def codec_simps)

lemma PBlockRecord_loop_block_offset_end:
  "parse_loop rt (PBlockRecord_field rt) ((if v \<noteq> 0 then WriteUInt32ToArray rt 6 v else '''') @ r) m
     = parse_loop rt (PBlockRecord_field rt) r (m\<lparr>PBlockRecord_block_offset_end := if v \<noteq> 0 then v else PBlockRecord_block_offset_end m\<rparr>)"
  by (subst loop_uint32 [where upd = "\<lambda>v. m\<lparr>PBlockRecord_block_offset_end := v\<rparr>"]) (simp_all add: PBlockRecord_field_def codec_simps)

lemma PBlockRecord_loop_undo_file_stored:
  assumes "length v \<le> MAX_SIZE" "ascii v"
  shows "parse_loop rt (PBlockRecord_field rt) ((if v \<noteq> '''' then WriteStringMaybeAliased rt 7 v else '''') @ r) m
     = parse_loop rt (PBlockRecord_field rt) r (m\<lparr>PBlockRecord_undo_file_stored := if v \<noteq> '''' then v else PBlockRecord_undo_file_stored m\<rparr>)"
  by (subst loop_string [where upd = "\<lambda>v. m\<lparr>PBlockRecord_undo_file_stored := v\<rparr>" and old = "PBlockRecord_undo_file_stored m"]) (simp_all add: assms PBlockRecord_field_def codec_simps)

lemma PBlockRecord_loop_undo_offset_start:
  "parse_loop rt (PBlockRecord_field rt) ((if v \<noteq> 0 then WriteUInt32ToArray rt 8 v else '''') @ r) m
     = parse_loop rt (PBlockRecord_field rt) r (m\<lparr>PBlockRecord_undo_offset_start := if v \<noteq> 0 then v else PBlockRecord_undo_offset_start m\<rparr>)"
  by (subst loop_uint32 [where upd = "\<lambda>v. m\<lparr>PBlockRecord_undo_offset_start := v\<rparr>"]) (simp_all add: PBlockRecord_field_def codec_simps)

lemma PBlockRecord_loop_undo_offset_end:
  "parse_loop rt (PBlockRecord_field rt) ((if v \<noteq> 0 then WriteUInt32ToArray rt 9 v else '''') @ r) m
     = parse_loop rt (PBlockRecord_field rt) r (m\<lparr>PBlockRecord_undo_offset_end := if v \<noteq> 0 then v else PBlockRecord_undo_offset_end m\<rparr>)"
  by (subst loop_uint32 [where upd = "\<lambda>v. m\<lparr>PBlockRecord_undo_offset_end := v\<rparr>"]) (simp_all add: PBlockRecord_field_def codec_simps)

lemma PBlockRecord_parse_wire:
  assumes "PBlockRecord_plain rt m" "length (PBlockRecord_wire rt m) \<le> MAX_SIZE"
  shows "PBlockRecord_InternalParse rt (PBlockRecord_wire rt m) m' = Some (Parsed (PBlockRecord_MergeFrom rt m m'))"
proof -
  have block_header: "length (PBlockHeader_wire rt x) \<le> MAX_SIZE \<and> PBlockHeader_plain rt x" if "PBlockRecord_block_header m = Some x" for x
    using assms that size_message_ge [of "length (PBlockHeader_wire rt x)"] by (simp add: codec_simps PBlockRecord_wire_eq size_message)
  have block_file_stored: "length (PBlockRecord_block_file_stored m) \<le> MAX_SIZE" "ascii (PBlockRecord_block_file_stored m)"
    using assms size_string_ge [of "PBlockRecord_block_file_stored m"] by (auto simp: codec_simps PBlockRecord_wire_eq size_string split: if_splits)
  have undo_file_stored: "length (PBlockRecord_undo_file_stored m) \<le> MAX_SIZE" "ascii (PBlockRecord_undo_file_stored m)"
    using assms size_string_ge [of "PBlockRecord_undo_file_stored m"] by (auto simp: codec_simps PBlockRecord_wire_eq size_string split: if_splits)
  have u: "unknown_bytes rt (PBlockRecord_metadata m) = ''''" "\<not> have_unknown_fields rt (PBlockRecord_metadata m)"
    using assms(1) by (simp_all add: codec_simps unknown_bytes_def)
  show ?thesis
    unfolding PBlockRecord_InternalParse_def PBlockRecord_wire_eq u
    by (simp only: PBlockRecord_loop_block_header [OF block_header]
        PBlockRecord_loop_height
        PBlockRecord_loop_num_transactions
        PBlockRecord_loop_block_file_stored [OF block_file_stored]
        PBlockRecord_loop_block_offset_start
        PBlockRecord_loop_block_offset_end
        PBlockRecord_loop_undo_file_stored [OF undo_file_stored]
        PBlockRecord_loop_undo_offset_start
        PBlockRecord_loop_undo_offset_end loop_end PBlockRecord_Merge)
      (simp add: codec_simps merge_none u cong del: if_weak_cong split del: if_split split: option.split)
qed

lemma PBlockRecord_MergeFrom_new:
  assumes "PBlockRecord_plain rt m"
  shows "PBlockRecord_MergeFrom rt m (PBlockRecord_new rt) = PBlockRecord_copy rt m"
  using assms by (simp only: PBlockRecord_Merge) (simp add: PBlockRecord_copy_def PBlockRecord_new_def codec_simps merge_none no_unknown PBlockHeader_MergeFrom_new
      cong del: if_weak_cong split del: if_split split: option.splits)

lemma PBlockRecord_roundtrip:
  assumes "PBlockRecord_plain rt m" "length (PBlockRecord_wire rt m) \<le> MAX_SIZE"
  shows "PBlockRecord_ParseFromString rt (PBlockRecord_SerializeToString rt m) m' = Inr (PBlockRecord_MergeFrom rt m (PBlockRecord_Clear rt m'))"
  using assms by (simp add: PBlockRecord_ParseFromString_def PBlockRecord_SerializeToString_def ParseFromString_def SerializeToString_def
      case_prod_unfold Let_def PBlockRecord_size_length PBlockRecord_parse_wire flip: PBlockRecord_wire_def)

lemma PBlockRecord_roundtrip_new:
  assumes "PBlockRecord_plain rt m" "length (PBlockRecord_wire rt m) \<le> MAX_SIZE"
  shows "PBlockRecord_ParseFromString rt (PBlockRecord_SerializeToString rt m) (PBlockRecord_new rt) = Inr (PBlockRecord_copy rt m)"
proof -
  have "PBlockRecord_Clear rt (PBlockRecord_new rt) = PBlockRecord_new rt"
    by (simp add: PBlockRecord_Clear_def PBlockRecord_new_def)
  then show ?thesis using PBlockRecord_roundtrip [OF assms] PBlockRecord_MergeFrom_new [OF assms(1)] by simp
qed

lemma PBlockRecord_ParseFromString_returns: "PBlockRecord_ParseFromString rt s m \<noteq> Inl Diverges"
  using PBlockRecord_parse_total [of s "PBlockRecord_Clear rt m"] by (auto simp: PBlockRecord_ParseFromString_def ParseFromString_def)

end

end
