(* ===== verification/Primitives.thy ===== *)
theory Primitives
  imports Proto_Block
begin

text \<open>
  The classes of \<open>core/src/primitives\<close>: \<open>TransactionInput\<close>, \<open>TransactionOutput\<close>,
  \<open>Transaction\<close>, \<open>BlockHeader\<close> and \<open>Block\<close>, with their constructors, setters,
  \<open>serialize\<close> and \<open>deserialize\<close> over the generated messages. A
  \<open>unique_ptr\<close> that the code never leaves null is the object itself; the pointer that
  \<open>Block::deserialize\<close> returns may be null and is an option. Parameters of type
  \<open>uint8_t\<close> truncate the 32-bit field they are given (\<open>ucast\<close>). The theorems are the
  round trips, for every object whose message stays within the size the runtime accepts.
\<close>

section \<open>Objects\<close>

record TransactionInput =
  reference_transaction_hash :: uint32
  utxo_index :: uint8
  signature :: uint32

definition TransactionInput_new :: "uint32 \<Rightarrow> uint8 \<Rightarrow> uint32 \<Rightarrow> TransactionInput" where
  "TransactionInput_new reference_transaction_hash' utxo_index' signature' =
     \<lparr>reference_transaction_hash = reference_transaction_hash', utxo_index = utxo_index', signature = signature'\<rparr>"

record TransactionOutput =
  amount :: uint32
  public_key :: uint32

definition TransactionOutput_new :: "uint32 \<Rightarrow> uint32 \<Rightarrow> TransactionOutput" where
  "TransactionOutput_new amount' public_key' = \<lparr>amount = amount', public_key = public_key'\<rparr>"

record Transaction =
  Transaction_version :: uint8
  transaction_inputs :: "TransactionInput list"
  transaction_outputs :: "TransactionOutput list"
  lock_time :: uint32

definition Transaction_new ::
  "TransactionInput list \<Rightarrow> TransactionOutput list \<Rightarrow> uint8 \<Rightarrow> uint32 \<Rightarrow> Transaction" where
  "Transaction_new transaction_inputs' transaction_outputs' version' lock_time' =
     \<lparr>Transaction_version = version', transaction_inputs = transaction_inputs',
      transaction_outputs = transaction_outputs', lock_time = lock_time'\<rparr>"

record BlockHeader =
  BlockHeader_version :: uint8
  previous_block_hash :: uint32
  merkle_root :: uint32
  difficulty_target :: uint32
  nonce :: uint32
  timestamp :: uint32

definition BlockHeader_new ::
  "uint8 \<Rightarrow> uint32 \<Rightarrow> uint32 \<Rightarrow> uint32 \<Rightarrow> uint32 \<Rightarrow> uint32 \<Rightarrow> BlockHeader" where
  "BlockHeader_new version' previous_block_hash' merkle_root' difficulty_target' nonce' timestamp' =
     \<lparr>BlockHeader_version = version', previous_block_hash = previous_block_hash', merkle_root = merkle_root',
      difficulty_target = difficulty_target', nonce = nonce', timestamp = timestamp'\<rparr>"

definition BlockHeader_set_version :: "uint8 \<Rightarrow> BlockHeader \<Rightarrow> BlockHeader" where
  [cpp_simps]: "BlockHeader_set_version version' h = h\<lparr>BlockHeader_version := version'\<rparr>"

definition set_previous_block_hash :: "uint32 \<Rightarrow> BlockHeader \<Rightarrow> BlockHeader" where
  [cpp_simps]: "set_previous_block_hash previous_block_hash' h = h\<lparr>previous_block_hash := previous_block_hash'\<rparr>"

definition set_merkle_root :: "uint32 \<Rightarrow> BlockHeader \<Rightarrow> BlockHeader" where
  [cpp_simps]: "set_merkle_root merkle_root' h = h\<lparr>merkle_root := merkle_root'\<rparr>"

definition set_difficulty_target :: "uint32 \<Rightarrow> BlockHeader \<Rightarrow> BlockHeader" where
  [cpp_simps]: "set_difficulty_target difficulty_target' h = h\<lparr>difficulty_target := difficulty_target'\<rparr>"

definition set_nonce :: "uint32 \<Rightarrow> BlockHeader \<Rightarrow> BlockHeader" where
  [cpp_simps]: "set_nonce nonce' h = h\<lparr>nonce := nonce'\<rparr>"

definition set_timestamp :: "uint32 \<Rightarrow> BlockHeader \<Rightarrow> BlockHeader" where
  [cpp_simps]: "set_timestamp timestamp' h = h\<lparr>timestamp := timestamp'\<rparr>"

record Block =
  Block_block_header :: BlockHeader
  transactions :: "Transaction list"

definition Block_new :: "BlockHeader \<Rightarrow> Transaction list \<Rightarrow> Block" where
  "Block_new block_header' transactions' = \<lparr>Block_block_header = block_header', transactions = transactions'\<rparr>"

definition set_block_header :: "BlockHeader \<Rightarrow> Block \<Rightarrow> Block" where
  "set_block_header block_header' b = b\<lparr>Block_block_header := block_header'\<rparr>"

definition set_transactions :: "Transaction list \<Rightarrow> Block \<Rightarrow> Block" where
  "set_transactions transactions' b = b\<lparr>transactions := transactions'\<rparr>"

text \<open>
  \<open>Block::get_transactions\<close>: one pair of vectors is filled and moved out of, transaction by
  transaction; moving empties it.
\<close>

definition get_transactions_step ::
  "Transaction \<Rightarrow> Transaction list \<times> TransactionInput list \<times> TransactionOutput list
     \<Rightarrow> Transaction list \<times> TransactionInput list \<times> TransactionOutput list" where
  "get_transactions_step tx = (\<lambda>(result, transactionInputs, transactionOutputs).
     let transactionInputs = transactionInputs @
           map (\<lambda>i. TransactionInput_new (reference_transaction_hash i) (utxo_index i) (signature i)) (transaction_inputs tx);
         transactionOutputs = transactionOutputs @
           map (\<lambda>out. TransactionOutput_new (amount out) (public_key out)) (transaction_outputs tx)
     in (result @ [Transaction_new transactionInputs transactionOutputs 0 0], [], []))"

definition get_transactions :: "Block \<Rightarrow> Transaction list" where
  "get_transactions b = fst (fold get_transactions_step (transactions b) ([], [], []))"

section \<open>Serialisation\<close>

definition TransactionInput_serialize :: "'u runtime \<Rightarrow> TransactionInput \<Rightarrow> string" where
  "TransactionInput_serialize rt transaction_input =
     (let p = PTransactionInput_new rt;
          p = PTransactionInput_set_reference_transaction_hash (reference_transaction_hash transaction_input) p;
          p = PTransactionInput_set_signature (signature transaction_input) p;
          p = PTransactionInput_set_utxo_index (ucast (utxo_index transaction_input)) p
      in PTransactionInput_SerializeToString rt p)"

definition TransactionInput_deserialize :: "'u runtime \<Rightarrow> string \<Rightarrow> TransactionInput result" where
  "TransactionInput_deserialize rt s =
     res_bind (PTransactionInput_ParseFromString rt s (PTransactionInput_new rt)) (\<lambda>p.
     Inr (TransactionInput_new (PTransactionInput_reference_transaction_hash p)
       (ucast (PTransactionInput_utxo_index p)) (PTransactionInput_signature p)))"

definition TransactionOutput_serialize :: "'u runtime \<Rightarrow> TransactionOutput \<Rightarrow> string" where
  "TransactionOutput_serialize rt transaction_output =
     (let p = PTransactionOutput_new rt;
          p = PTransactionOutput_set_amount (amount transaction_output) p;
          p = PTransactionOutput_set_public_key (public_key transaction_output) p
      in PTransactionOutput_SerializeToString rt p)"

definition TransactionOutput_deserialize :: "'u runtime \<Rightarrow> string \<Rightarrow> TransactionOutput result" where
  "TransactionOutput_deserialize rt s =
     res_bind (PTransactionOutput_ParseFromString rt s (PTransactionOutput_new rt)) (\<lambda>p.
     Inr (TransactionOutput_new (PTransactionOutput_amount p) (PTransactionOutput_public_key p)))"

text \<open>The loops over the inputs and outputs, as \<open>Transaction\<close> and \<open>Block\<close> write them.\<close>

definition add_input :: "'u runtime \<Rightarrow> TransactionInput \<Rightarrow> 'u PTransaction \<Rightarrow> 'u PTransaction" where
  "add_input rt i ptransaction =
     (let ptxi = PTransactionInput_new rt;
          ptxi = PTransactionInput_set_reference_transaction_hash (reference_transaction_hash i) ptxi;
          ptxi = PTransactionInput_set_signature (signature i) ptxi;
          ptxi = PTransactionInput_set_utxo_index (ucast (utxo_index i)) ptxi
      in PTransaction_add_transaction_inputs ptxi ptransaction)"

definition add_output :: "'u runtime \<Rightarrow> TransactionOutput \<Rightarrow> 'u PTransaction \<Rightarrow> 'u PTransaction" where
  "add_output rt out ptransaction =
     (let ptxo = PTransactionOutput_new rt;
          ptxo = PTransactionOutput_set_amount (amount out) ptxo;
          ptxo = PTransactionOutput_set_public_key (public_key out) ptxo
      in PTransaction_add_transaction_outputs ptxo ptransaction)"

definition fill_transaction :: "'u runtime \<Rightarrow> Transaction \<Rightarrow> 'u PTransaction \<Rightarrow> 'u PTransaction" where
  "fill_transaction rt tx ptransaction =
     (let ptransaction = PTransaction_set_version (ucast (Transaction_version tx)) ptransaction;
          ptransaction = fold (add_input rt) (transaction_inputs tx) ptransaction;
          ptransaction = fold (add_output rt) (transaction_outputs tx) ptransaction
      in PTransaction_set_lock_time (lock_time tx) ptransaction)"

definition Transaction_serialize :: "'u runtime \<Rightarrow> Transaction \<Rightarrow> string" where
  "Transaction_serialize rt tx =
     PTransaction_SerializeToString rt (fill_transaction rt tx (PTransaction_new rt))"

definition read_input :: "'u PTransactionInput \<Rightarrow> TransactionInput" where
  "read_input ptxi =
     TransactionInput_new (PTransactionInput_reference_transaction_hash ptxi)
       (ucast (PTransactionInput_utxo_index ptxi)) (PTransactionInput_signature ptxi)"

definition read_output :: "'u PTransactionOutput \<Rightarrow> TransactionOutput" where
  "read_output ptxo = TransactionOutput_new (PTransactionOutput_amount ptxo) (PTransactionOutput_public_key ptxo)"

definition read_transaction :: "'u PTransaction \<Rightarrow> Transaction" where
  "read_transaction ptransaction =
     (let txis = fold (\<lambda>p txis. txis @ [read_input p]) (PTransaction_transaction_inputs ptransaction) [];
          txos = fold (\<lambda>p txos. txos @ [read_output p]) (PTransaction_transaction_outputs ptransaction) []
      in Transaction_new txis txos (ucast (PTransaction_version ptransaction)) (PTransaction_lock_time ptransaction))"

definition Transaction_deserialize :: "'u runtime \<Rightarrow> string \<Rightarrow> Transaction result" where
  "Transaction_deserialize rt s =
     res_bind (PTransaction_ParseFromString rt s (PTransaction_new rt)) (\<lambda>p. Inr (read_transaction p))"

definition BlockHeader_serialize :: "'u runtime \<Rightarrow> BlockHeader \<Rightarrow> string" where
  "BlockHeader_serialize rt block_header =
     (let p = PBlockHeader_new rt;
          p = PBlockHeader_set_version (ucast (BlockHeader_version block_header)) p;
          p = PBlockHeader_set_nonce (nonce block_header) p;
          p = PBlockHeader_set_merkle_root (merkle_root block_header) p;
          p = PBlockHeader_set_difficulty_target (difficulty_target block_header) p;
          p = PBlockHeader_set_previous_block_hash (previous_block_hash block_header) p;
          p = PBlockHeader_set_timestamp (timestamp block_header) p
      in PBlockHeader_SerializeToString rt p)"

definition BlockHeader_deserialize :: "'u runtime \<Rightarrow> string \<Rightarrow> BlockHeader result" where
  "BlockHeader_deserialize rt s =
     res_bind (PBlockHeader_ParseFromString rt s (PBlockHeader_new rt)) (\<lambda>p.
     let block_header = BlockHeader_new 0 0 0 0 0 0;
         block_header = BlockHeader_set_version (ucast (PBlockHeader_version p)) block_header;
         block_header = set_nonce (PBlockHeader_nonce p) block_header;
         block_header = set_merkle_root (PBlockHeader_merkle_root p) block_header;
         block_header = set_difficulty_target (PBlockHeader_difficulty_target p) block_header;
         block_header = set_previous_block_hash (PBlockHeader_previous_block_hash p) block_header;
         block_header = set_timestamp (PBlockHeader_timestamp p) block_header
     in Inr block_header)"

text \<open>The header inside a block or a block record is written and read by the code of the owner.\<close>

definition fill_header :: "'u runtime \<Rightarrow> BlockHeader \<Rightarrow> 'u PBlockHeader" where
  "fill_header rt h =
     (let p = PBlockHeader_new rt;
          p = PBlockHeader_set_version (ucast (BlockHeader_version h)) p;
          p = PBlockHeader_set_previous_block_hash (previous_block_hash h) p;
          p = PBlockHeader_set_merkle_root (merkle_root h) p;
          p = PBlockHeader_set_difficulty_target (difficulty_target h) p;
          p = PBlockHeader_set_nonce (nonce h) p
      in PBlockHeader_set_timestamp (timestamp h) p)"

definition read_header :: "'u PBlockHeader \<Rightarrow> BlockHeader" where
  "read_header p =
     BlockHeader_new (ucast (PBlockHeader_version p)) (PBlockHeader_previous_block_hash p)
       (PBlockHeader_merkle_root p) (PBlockHeader_difficulty_target p) (PBlockHeader_nonce p)
       (PBlockHeader_timestamp p)"

definition Block_serialize :: "'u runtime \<Rightarrow> Block \<Rightarrow> string" where
  "Block_serialize rt block =
     (let pblock = PBlock_new rt;
          pblock = PBlock_set_allocated_block_header (Some (fill_header rt (Block_block_header block))) pblock;
          pblock = fold (\<lambda>tx pblock. PBlock_add_transactions (fill_transaction rt tx (PTransaction_new rt)) pblock)
                     (transactions block) pblock
      in PBlock_SerializeToString rt pblock)"

definition Block_deserialize :: "'u runtime \<Rightarrow> string \<Rightarrow> Block option result" where
  "Block_deserialize rt s =
     (if s = '''' then Inr None
      else res_bind (PBlock_ParseFromString rt s (PBlock_new rt)) (\<lambda>pblock.
        let block_header' = read_header (PBlock_get_block_header rt pblock);
            transactions' = fold (\<lambda>p txs. txs @ [read_transaction p]) (PBlock_transactions pblock) []
        in Inr (Some (Block_new block_header' transactions'))))"

section \<open>Lemmas\<close>

lemma fold_snoc: "fold (\<lambda>x ys. ys @ [f x]) xs ys = ys @ map f xs"
  by (induction xs arbitrary: ys) simp_all

lemma ucast_8_32 [simp]: "(ucast (ucast (v :: uint8) :: uint32) :: uint8) = v"
  by (rule bit_word_eqI) (simp add: bit_simps)

lemma TransactionInput_same [simp]: "TransactionInput_new (reference_transaction_hash i) (utxo_index i) (signature i) = i"
  by (simp add: TransactionInput_new_def)

lemma TransactionOutput_same [simp]: "TransactionOutput_new (amount out) (public_key out) = out"
  by (simp add: TransactionOutput_new_def)

lemma get_transactions_fold:
  "fold get_transactions_step txs (result, [], []) =
     (result @ map (\<lambda>tx. Transaction_new (transaction_inputs tx) (transaction_outputs tx) 0 0) txs, [], [])"
  by (induction txs arbitrary: result) (simp_all add: get_transactions_step_def)

text \<open>The messages that the code builds, field by field.\<close>

definition proto_input :: "'u runtime \<Rightarrow> TransactionInput \<Rightarrow> 'u PTransactionInput" where
  "proto_input rt i = (PTransactionInput_new rt)
     \<lparr>PTransactionInput_reference_transaction_hash := reference_transaction_hash i,
      PTransactionInput_utxo_index := ucast (utxo_index i), PTransactionInput_signature := signature i\<rparr>"

definition proto_output :: "'u runtime \<Rightarrow> TransactionOutput \<Rightarrow> 'u PTransactionOutput" where
  "proto_output rt out = (PTransactionOutput_new rt)
     \<lparr>PTransactionOutput_amount := amount out, PTransactionOutput_public_key := public_key out\<rparr>"

lemma fold_add_input: "fold (add_input rt) is p =
    p\<lparr>PTransaction_transaction_inputs := PTransaction_transaction_inputs p @ map (proto_input rt) is\<rparr>"
  by (induction "is" arbitrary: p) (simp_all add: add_input_def proto_input_def codec_simps)

lemma fold_add_output: "fold (add_output rt) os p =
    p\<lparr>PTransaction_transaction_outputs := PTransaction_transaction_outputs p @ map (proto_output rt) os\<rparr>"
  by (induction os arbitrary: p) (simp_all add: add_output_def proto_output_def codec_simps)

lemma fill_transaction_eq: "fill_transaction rt tx p =
    p\<lparr>PTransaction_transaction_inputs := PTransaction_transaction_inputs p @ map (proto_input rt) (transaction_inputs tx),
      PTransaction_transaction_outputs := PTransaction_transaction_outputs p @ map (proto_output rt) (transaction_outputs tx),
      PTransaction_version := ucast (Transaction_version tx), PTransaction_lock_time := lock_time tx\<rparr>"
  by (simp add: fill_transaction_def fold_add_input fold_add_output codec_simps)

lemma fold_add_transactions:
  "fold (\<lambda>tx b. PBlock_add_transactions (f tx) b) txs b = b\<lparr>PBlock_transactions := PBlock_transactions b @ map f txs\<rparr>"
  by (induction txs arbitrary: b) (simp_all add: codec_simps)

text \<open>A bound on the size of a transaction and of a block on the wire.\<close>

definition Transaction_weight :: "Transaction \<Rightarrow> nat" where
  "Transaction_weight tx = 12 + 24 * length (transaction_inputs tx) + 18 * length (transaction_outputs tx)"

definition Block_weight :: "Block \<Rightarrow> nat" where
  "Block_weight b = 42 + (\<Sum>tx\<leftarrow>transactions b. 6 + Transaction_weight tx)"

lemma header_copy: "read_header (PBlockHeader_copy rt (fill_header rt h)) = h"
  by (simp add: read_header_def PBlockHeader_copy_def fill_header_def codec_simps BlockHeader_new_def)

lemma input_copy: "read_input (proto_input rt i) = i"
  by (simp add: read_input_def proto_input_def)

lemma output_copy: "read_output (proto_output rt out) = out"
  by (simp add: read_output_def proto_output_def)

context protobuf_runtime
begin

lemma proto_input_wire: "PTransactionInput_plain rt (proto_input rt i)" "length (PTransactionInput_wire rt (proto_input rt i)) \<le> 18"
proof -
  let ?m = "proto_input rt i"
  show *: "PTransactionInput_plain rt ?m"
    by (simp add: proto_input_def PTransactionInput_new_def codec_simps no_unknown)
  show "length (PTransactionInput_wire rt ?m) \<le> 18"
    using written_uint32_le [of 1 "PTransactionInput_reference_transaction_hash ?m"]
      written_uint32_le [of 2 "PTransactionInput_utxo_index ?m"] written_uint32_le [of 3 "PTransactionInput_signature ?m"] *
    by (simp only: PTransactionInput_wire_eq length_append codec_simps unknown_bytes_def) simp
qed

lemma proto_output_wire: "PTransactionOutput_plain rt (proto_output rt out)" "length (PTransactionOutput_wire rt (proto_output rt out)) \<le> 12"
proof -
  let ?m = "proto_output rt out"
  show *: "PTransactionOutput_plain rt ?m"
    by (simp add: proto_output_def PTransactionOutput_new_def codec_simps no_unknown)
  show "length (PTransactionOutput_wire rt ?m) \<le> 12"
    using written_uint32_le [of 1 "PTransactionOutput_amount ?m"] written_uint32_le [of 2 "PTransactionOutput_public_key ?m"] *
    by (simp only: PTransactionOutput_wire_eq length_append codec_simps unknown_bytes_def) simp
qed

lemma fill_header_wire: "PBlockHeader_plain rt (fill_header rt h)" "length (PBlockHeader_wire rt (fill_header rt h)) \<le> 36"
proof -
  let ?m = "fill_header rt h"
  show *: "PBlockHeader_plain rt ?m"
    by (simp add: fill_header_def PBlockHeader_new_def codec_simps no_unknown)
  show "length (PBlockHeader_wire rt ?m) \<le> 36"
    using written_uint32_le [of 1 "PBlockHeader_version ?m"] written_uint32_le [of 2 "PBlockHeader_previous_block_hash ?m"]
      written_uint32_le [of 3 "PBlockHeader_merkle_root ?m"] written_uint32_le [of 4 "PBlockHeader_difficulty_target ?m"]
      written_uint32_le [of 5 "PBlockHeader_nonce ?m"] written_uint32_le [of 6 "PBlockHeader_timestamp ?m"] *
    by (simp only: PBlockHeader_wire_eq length_append codec_simps unknown_bytes_def) simp
qed

lemma fill_transaction_wire:
  assumes "Transaction_weight tx \<le> INT_MAX"
  shows "PTransaction_plain rt (fill_transaction rt tx (PTransaction_new rt))"
    and "length (PTransaction_wire rt (fill_transaction rt tx (PTransaction_new rt))) \<le> Transaction_weight tx"
proof -
  let ?m = "fill_transaction rt tx (PTransaction_new rt)"
  show *: "PTransaction_plain rt ?m"
    by (simp add: fill_transaction_eq PTransaction_new_def codec_simps no_unknown list_all_iff
        proto_input_wire [unfolded codec_simps] proto_output_wire [unfolded codec_simps])
  have "length (concat (map (\<lambda>b. InternalWriteMessage rt 2 (length b) b)
      (map (\<lambda>i. PTransactionInput_wire rt (proto_input rt i)) (transaction_inputs tx))))
      \<le> (\<Sum>i\<leftarrow>transaction_inputs tx. 6 + 18)"
    by (rule written_messages_le) (auto simp: proto_input_wire INT_MAX_def)
  moreover have "length (concat (map (\<lambda>b. InternalWriteMessage rt 3 (length b) b)
      (map (\<lambda>out. PTransactionOutput_wire rt (proto_output rt out)) (transaction_outputs tx))))
      \<le> (\<Sum>out\<leftarrow>transaction_outputs tx. 6 + 12)"
    by (rule written_messages_le) (auto simp: proto_output_wire INT_MAX_def)
  ultimately show "length (PTransaction_wire rt ?m) \<le> Transaction_weight tx"
    using written_uint32_le [of 1 "PTransaction_version ?m"] written_uint32_le [of 4 "PTransaction_lock_time ?m"] *
    by (simp only: PTransaction_wire_eq length_append codec_simps unknown_bytes_def)
      (simp add: fill_transaction_eq PTransaction_new_def Transaction_weight_def comp_def sum_list_triv del: length_concat)
qed

end

text \<open>Reading back what was written, through the generated messages.\<close>

definition proto_block :: "'u runtime \<Rightarrow> Block \<Rightarrow> 'u PBlock" where
  "proto_block rt b = (PBlock_new rt)
     \<lparr>PBlock_block_header := Some (fill_header rt (Block_block_header b)),
      PBlock_transactions := map (\<lambda>tx. fill_transaction rt tx (PTransaction_new rt)) (transactions b)\<rparr>"

lemma Block_serialize_eq: "Block_serialize rt b = PBlock_SerializeToString rt (proto_block rt b)"
  unfolding Block_serialize_def Let_def fold_add_transactions
  by (simp add: proto_block_def PBlock_set_allocated_block_header_def PBlock_new_def)

lemma Transaction_weight_le:
  assumes "Block_weight b \<le> MAX_SIZE" "tx \<in> set (transactions b)"
  shows "Transaction_weight tx \<le> INT_MAX"
proof -
  have "6 + Transaction_weight tx \<le> (\<Sum>tx\<leftarrow>transactions b. 6 + Transaction_weight tx)"
    using assms(2) by (intro member_le_sum_list) auto
  then show ?thesis using assms(1) by (simp add: Block_weight_def MAX_SIZE_def)
qed

context protobuf_runtime
begin

lemma read_input_merged: "read_input (PTransactionInput_MergeFrom rt (proto_input rt i) (PTransactionInput_new rt)) = i"
  unfolding PTransactionInput_MergeFrom_new [OF proto_input_wire(1)]
  using input_copy [of rt i] by (simp add: read_input_def PTransactionInput_copy_def)

lemma read_output_merged: "read_output (PTransactionOutput_MergeFrom rt (proto_output rt out) (PTransactionOutput_new rt)) = out"
  unfolding PTransactionOutput_MergeFrom_new [OF proto_output_wire(1)]
  using output_copy [of rt out] by (simp add: read_output_def PTransactionOutput_copy_def)

lemma read_transaction_copy:
  "read_transaction (PTransaction_copy rt (fill_transaction rt tx (PTransaction_new rt))) = tx"
  by (simp add: read_transaction_def PTransaction_copy_def fill_transaction_eq PTransaction_new_def fold_snoc
      comp_def read_input_merged read_output_merged Transaction_new_def)

lemma read_transaction_merged:
  assumes "Transaction_weight tx \<le> INT_MAX"
  shows "read_transaction (PTransaction_MergeFrom rt (fill_transaction rt tx (PTransaction_new rt)) (PTransaction_new rt)) = tx"
  unfolding PTransaction_MergeFrom_new [OF fill_transaction_wire(1) [OF assms]] by (rule read_transaction_copy)

lemma TransactionInput_deserialize_serialize:
  "TransactionInput_deserialize rt (TransactionInput_serialize rt i) = Inr i"
proof -
  have "TransactionInput_serialize rt i = PTransactionInput_SerializeToString rt (proto_input rt i)"
    by (simp add: TransactionInput_serialize_def proto_input_def PTransactionInput_new_def codec_simps Let_def)
  moreover have "length (PTransactionInput_wire rt (proto_input rt i)) \<le> MAX_SIZE"
    using proto_input_wire(2) [of i] by (simp add: MAX_SIZE_def INT_MAX_def)
  ultimately show ?thesis
    using PTransactionInput_roundtrip_new [OF proto_input_wire(1)]
    by (simp add: TransactionInput_deserialize_def PTransactionInput_copy_def proto_input_def)
qed

lemma TransactionOutput_deserialize_serialize:
  "TransactionOutput_deserialize rt (TransactionOutput_serialize rt out) = Inr out"
proof -
  have "TransactionOutput_serialize rt out = PTransactionOutput_SerializeToString rt (proto_output rt out)"
    by (simp add: TransactionOutput_serialize_def proto_output_def PTransactionOutput_new_def codec_simps Let_def)
  moreover have "length (PTransactionOutput_wire rt (proto_output rt out)) \<le> MAX_SIZE"
    using proto_output_wire(2) [of out] by (simp add: MAX_SIZE_def INT_MAX_def)
  ultimately show ?thesis
    using PTransactionOutput_roundtrip_new [OF proto_output_wire(1)]
    by (simp add: TransactionOutput_deserialize_def PTransactionOutput_copy_def proto_output_def)
qed

lemma Transaction_deserialize_serialize:
  assumes "Transaction_weight tx \<le> MAX_SIZE"
  shows "Transaction_deserialize rt (Transaction_serialize rt tx) = Inr tx"
proof -
  have w: "Transaction_weight tx \<le> INT_MAX" using assms by (simp add: MAX_SIZE_def)
  show ?thesis
    using PTransaction_roundtrip_new [OF fill_transaction_wire(1) [OF w]] fill_transaction_wire(2) [OF w] assms
    by (simp add: Transaction_deserialize_def Transaction_serialize_def read_transaction_copy)
qed

lemma BlockHeader_deserialize_serialize: "BlockHeader_deserialize rt (BlockHeader_serialize rt h) = Inr h"
proof -
  have "BlockHeader_serialize rt h = PBlockHeader_SerializeToString rt (fill_header rt h)"
    by (simp add: BlockHeader_serialize_def fill_header_def PBlockHeader_new_def codec_simps Let_def)
  moreover have "length (PBlockHeader_wire rt (fill_header rt h)) \<le> MAX_SIZE"
    using fill_header_wire(2) [of h] by (simp add: MAX_SIZE_def INT_MAX_def)
  moreover have "BlockHeader_deserialize rt s = res_bind (PBlockHeader_ParseFromString rt s (PBlockHeader_new rt)) (\<lambda>p. Inr (read_header p))" for s
    by (simp add: BlockHeader_deserialize_def read_header_def BlockHeader_new_def cpp_simps Let_def)
  ultimately show ?thesis
    using PBlockHeader_roundtrip_new [OF fill_header_wire(1)] by (simp add: header_copy)
qed

lemma proto_block_wire:
  assumes "Block_weight b \<le> MAX_SIZE"
  shows "PBlock_plain rt (proto_block rt b)" and "length (PBlock_wire rt (proto_block rt b)) \<le> Block_weight b"
    and "PBlock_wire rt (proto_block rt b) \<noteq> ''''"
proof -
  let ?m = "proto_block rt b"
  let ?fill = "\<lambda>tx. fill_transaction rt tx (PTransaction_new rt)"
  note tx = Transaction_weight_le [OF assms]
  show *: "PBlock_plain rt ?m"
    using fill_header_wire(1) fill_transaction_wire(1) [OF tx]
    by (simp add: proto_block_def PBlock_new_def PBlock_plain_def no_unknown list_all_iff)
  have "length (concat (map (\<lambda>b. InternalWriteMessage rt 2 (length b) b)
      (map (\<lambda>tx. PTransaction_wire rt (?fill tx)) (transactions b)))) \<le> (\<Sum>tx\<leftarrow>transactions b. 6 + Transaction_weight tx)"
    by (rule written_messages_le) (auto simp: fill_transaction_wire(2) tx)
  moreover have "length (InternalWriteMessage rt 1 (length (PBlockHeader_wire rt (fill_header rt (Block_block_header b))))
      (PBlockHeader_wire rt (fill_header rt (Block_block_header b)))) \<le> 6 + 36"
    using fill_header_wire(2) by (intro message_written_le) (auto simp: INT_MAX_def)
  ultimately show "length (PBlock_wire rt ?m) \<le> Block_weight b"
    using * by (simp add: PBlock_wire_eq proto_block_def PBlock_new_def PBlock_plain_def unknown_bytes_def
        Block_weight_def comp_def del: length_concat)
  show "PBlock_wire rt ?m \<noteq> ''''"
    by (simp add: PBlock_wire_eq proto_block_def nonempty_message)
qed

lemma Block_serialize_wire:
  assumes "Block_weight b \<le> MAX_SIZE"
  shows "Block_serialize rt b = PBlock_wire rt (proto_block rt b)" "length (Block_serialize rt b) \<le> Block_weight b"
proof -
  have len: "length (PBlock_wire rt (proto_block rt b)) \<le> MAX_SIZE"
    using proto_block_wire(2) [OF assms] assms by linarith
  show "Block_serialize rt b = PBlock_wire rt (proto_block rt b)"
    using len by (simp add: Block_serialize_eq PBlock_SerializeToString_def SerializeToString_def case_prod_unfold Let_def
        PBlock_size_length flip: PBlock_wire_def)
  then show "length (Block_serialize rt b) \<le> Block_weight b"
    using proto_block_wire(2) [OF assms] by simp
qed

lemma Block_deserialize_serialize:
  assumes "Block_weight b \<le> MAX_SIZE"
  shows "Block_deserialize rt (Block_serialize rt b) = Inr (Some b)"
proof -
  have len: "length (PBlock_wire rt (proto_block rt b)) \<le> MAX_SIZE"
    using proto_block_wire(2) [OF assms] assms by linarith
  note tx = Transaction_weight_le [OF assms]
  have "Block_serialize rt b \<noteq> []"
    using proto_block_wire(3) [OF assms] by (simp add: Block_serialize_wire(1) [OF assms])
  then have "PBlock_SerializeToString rt (proto_block rt b) \<noteq> []" by (simp add: Block_serialize_eq)
  then show ?thesis
    using PBlock_roundtrip_new [OF proto_block_wire(1) [OF assms] len]
    by (simp add: Block_deserialize_def Block_serialize_eq PBlock_copy_def proto_block_def codec_simps fold_snoc
        header_copy Block_new_def comp_def read_transaction_merged [OF tx] cong: map_cong)
qed

end

end
