(* ===== verification/Db.thy ===== *)
theory Db
  imports Prelude
begin

text \<open>
  The in-memory key-value store of \<open>core/src/db/db.cpp\<close>: batch operations, the
  \<open>Database\<close> class with its locked and unlocked operations, and the interface
  \<open>kv_store\<close> that the block-info database and the coin database rely on. The
  \<open>std::unordered_map\<close> is a map; \<open>operator[]\<close> on a missing key inserts the empty
  string, so every read returns the store it may have grown. The \<open>lock_guard\<close> of the
  \<open>_safely\<close> operations makes each of them one atomic step, which is what a definition is.
\<close>

section \<open>Data\<close>

datatype HashTableWriteOperation = DELETE | PUT

record BatchOperation =
  operation :: HashTableWriteOperation
  bop_key :: string
  bop_value :: string

record Batch =
  batch :: "BatchOperation list"

record Database =
  store :: "string \<rightharpoonup> string"

section \<open>Operations\<close>

definition BatchOperation_new :: "HashTableWriteOperation \<Rightarrow> string \<Rightarrow> string \<Rightarrow> BatchOperation" where
  "BatchOperation_new op k v = \<lparr>operation = op, bop_key = k, bop_value = v\<rparr>"

lemma BatchOperation_new_sel [db_simps]:
  "operation (BatchOperation_new op k v) = op" "bop_key (BatchOperation_new op k v) = k" "bop_value (BatchOperation_new op k v) = v"
  by (simp_all add: BatchOperation_new_def)

definition Batch_new :: Batch where
  "Batch_new = \<lparr>batch = []\<rparr>"

definition Batch_delete :: "string \<Rightarrow> Batch \<Rightarrow> Batch" where
  "Batch_delete k b = b\<lparr>batch := batch b @ [BatchOperation_new DELETE k '''']\<rparr>"

definition Batch_put :: "string \<Rightarrow> string \<Rightarrow> Batch \<Rightarrow> Batch" where
  "Batch_put k v b = b\<lparr>batch := batch b @ [BatchOperation_new PUT k v]\<rparr>"

definition Database_new :: Database where
  "Database_new = \<lparr>store = Map.empty\<rparr>"

text \<open>\<open>_store[key]\<close>: the value, and the store with the key in it.\<close>

definition map_index :: "string \<Rightarrow> (string \<rightharpoonup> string) \<Rightarrow> string \<times> (string \<rightharpoonup> string)" where
  "map_index k m = (case m k of Some v \<Rightarrow> (v, m) | None \<Rightarrow> ('''', m(k \<mapsto> '''')))"

definition Database_get :: "string \<Rightarrow> Database \<Rightarrow> string \<times> Database" where
  "Database_get k d = (let (v, m) = map_index k (store d) in (v, d\<lparr>store := m\<rparr>))"

definition get_safely :: "string \<Rightarrow> Database \<Rightarrow> string \<times> Database" where
  "get_safely k d = (let (v, m) = map_index k (store d) in (v, d\<lparr>store := m\<rparr>))"

definition apply_batch_operation :: "BatchOperation \<Rightarrow> (string \<rightharpoonup> string) \<Rightarrow> (string \<rightharpoonup> string)" where
  "apply_batch_operation bop m =
     (if operation bop = DELETE then m(bop_key bop := None)
      else if operation bop = PUT then m(bop_key bop \<mapsto> bop_value bop)
      else m)"

definition batch_write_safely :: "Batch \<Rightarrow> Database \<Rightarrow> Database" where
  "batch_write_safely b d = d\<lparr>store := fold apply_batch_operation (batch b) (store d)\<rparr>"

fun batch_read :: "string list \<Rightarrow> Database \<Rightarrow> string list \<times> Database" where
  "batch_read [] d = ([], d)"
| "batch_read (k # ks) d =
     (let (v, m) = map_index k (store d);
          (vs, d') = batch_read ks (d\<lparr>store := m\<rparr>)
      in (v # vs, d'))"

fun batch_read_safely :: "string list \<Rightarrow> Database \<Rightarrow> string list \<times> Database" where
  "batch_read_safely [] d = ([], d)"
| "batch_read_safely (k # ks) d =
     (let (v, m) = map_index k (store d);
          (vs, d') = batch_read_safely ks (d\<lparr>store := m\<rparr>)
      in (v # vs, d'))"

definition put_safely :: "string \<Rightarrow> string \<Rightarrow> Database \<Rightarrow> Database" where
  "put_safely k v d = d\<lparr>store := (store d)(k \<mapsto> v)\<rparr>"

definition delete_safely :: "string \<Rightarrow> Database \<Rightarrow> Database" where
  "delete_safely k d = d\<lparr>store := (store d)(k := None)\<rparr>"

definition Database_has :: "string \<Rightarrow> Database \<Rightarrow> bool" where
  "Database_has k d = (store d k \<noteq> None)"

section \<open>The key-value interface\<close>

text \<open>
  What the two clients use: \<open>look\<close> is the value a read returns, \<open>has\<close> tells
  whether the key is there. A read never changes what a later read returns, but it may add
  keys.
\<close>

locale kv_store =
  fixes look :: "'s \<Rightarrow> 'k \<Rightarrow> 'v"
    and has :: "'k \<Rightarrow> 's \<Rightarrow> bool"
    and get :: "'k \<Rightarrow> 's \<Rightarrow> 'v \<times> 's"
    and put :: "'k \<Rightarrow> 'v \<Rightarrow> 's \<Rightarrow> 's"
    and delete :: "'k \<Rightarrow> 's \<Rightarrow> 's"
    and absent :: 'v
  assumes get_value: "fst (get k s) = look s k"
    and get_look: "look (snd (get k s)) = look s"
    and get_has: "has l (snd (get k s)) \<longleftrightarrow> has l s \<or> l = k"
    and put_look: "look (put k v s) = (look s)(k := v)"
    and put_has: "has l (put k v s) \<longleftrightarrow> has l s \<or> l = k"
    and delete_look: "look (delete k s) = (look s)(k := absent)"
    and delete_has: "has l (delete k s) \<longleftrightarrow> has l s \<and> l \<noteq> k"
    and absent_look: "\<not> has k s \<Longrightarrow> look s k = absent"
begin

lemma read_own_write: "fst (get k (put k v s)) = v"
  by (simp add: get_value put_look)

lemma read_other_write: "k \<noteq> l \<Longrightarrow> fst (get l (put k v s)) = fst (get l s)"
  by (simp add: get_value put_look)

lemma read_after_delete: "fst (get k (delete k s)) = absent"
  by (simp add: get_value delete_look)

lemma repeated_read: "fst (get l (snd (get k s))) = fst (get l s)"
  by (simp add: get_value get_look)

lemma read_creates_key: "has k (snd (get k s))"
  by (simp add: get_has)

lemma last_put_wins: "look (put k v (put k w s)) = look (put k v s)"
  by (simp add: put_look)

end

definition look_up :: "Database \<Rightarrow> string \<Rightarrow> string" where
  "look_up d k = (case store d k of Some v \<Rightarrow> v | None \<Rightarrow> '''')"

lemma map_index_simps [db_simps]:
  "fst (map_index k m) = (case m k of Some v \<Rightarrow> v | None \<Rightarrow> '''')"
  "snd (map_index k m) l = (if l = k \<and> m k = None then Some '''' else m l)"
  by (auto simp: map_index_def split: option.splits)

lemma get_safely_simps [db_simps]:
  "fst (get_safely k d) = look_up d k"
  "look_up (snd (get_safely k d)) = look_up d"
  "Database_has l (snd (get_safely k d)) \<longleftrightarrow> Database_has l d \<or> l = k"
  by (auto simp: get_safely_def look_up_def Database_has_def map_index_def fun_eq_iff Let_def
      split: option.splits prod.splits)

lemma put_safely_simps [db_simps]:
  "look_up (put_safely k v d) = (look_up d)(k := v)"
  "Database_has l (put_safely k v d) \<longleftrightarrow> Database_has l d \<or> l = k"
  by (auto simp: put_safely_def look_up_def Database_has_def fun_eq_iff)

lemma delete_safely_simps [db_simps]:
  "look_up (delete_safely k d) = (look_up d)(k := '''')"
  "Database_has l (delete_safely k d) \<longleftrightarrow> Database_has l d \<and> l \<noteq> k"
  by (auto simp: delete_safely_def look_up_def Database_has_def fun_eq_iff)

lemma look_up_absent [db_simps]: "\<not> Database_has k d \<Longrightarrow> look_up d k = ''''"
  by (simp add: look_up_def Database_has_def)

interpretation dbkv: kv_store look_up Database_has get_safely put_safely delete_safely "''''"
  by unfold_locales (simp_all add: db_simps)

lemma Database_get_eq: "Database_get = get_safely"
  by (rule ext)+ (simp add: Database_get_def get_safely_def)

section \<open>Batches\<close>

lemma batch_Batch_put [db_simps]:
  "batch (Batch_put k v b) = batch b @ [BatchOperation_new PUT k v]"
  by (simp add: Batch_put_def)

lemma batch_Batch_delete [db_simps]:
  "batch (Batch_delete k b) = batch b @ [BatchOperation_new DELETE k '''']"
  by (simp add: Batch_delete_def)

lemma batch_write_put:
  "batch_write_safely (Batch_put k v b) d = put_safely k v (batch_write_safely b d)"
  by (simp add: batch_write_safely_def put_safely_def db_simps apply_batch_operation_def)

lemma batch_write_delete:
  "batch_write_safely (Batch_delete k b) d = delete_safely k (batch_write_safely b d)"
  by (simp add: batch_write_safely_def delete_safely_def db_simps apply_batch_operation_def)

lemma batch_write_new: "batch_write_safely Batch_new d = d"
  by (simp add: batch_write_safely_def Batch_new_def)

text \<open>The last operation on a key decides what is stored under it.\<close>

definition last_operation :: "string \<Rightarrow> BatchOperation list \<Rightarrow> BatchOperation option" where
  "last_operation k ops =
     (let xs = filter (\<lambda>bop. bop_key bop = k) ops in if xs = [] then None else Some (last xs))"

lemma fold_apply_batch_operation:
  "fold apply_batch_operation ops m k =
     (case last_operation k ops of
        None \<Rightarrow> m k
      | Some bop \<Rightarrow> if operation bop = DELETE then None else Some (bop_value bop))"
proof (induction ops rule: rev_induct)
  case Nil
  then show ?case by (simp add: last_operation_def)
next
  case (snoc x xs)
  show ?case
  proof (cases "bop_key x = k")
    case True
    then have "last_operation k (xs @ [x]) = Some x"
      by (simp add: last_operation_def)
    with True show ?thesis
      by (cases "operation x") (simp_all add: apply_batch_operation_def)
  next
    case False
    then have "last_operation k (xs @ [x]) = last_operation k xs"
      by (simp add: last_operation_def)
    with False snoc show ?thesis
      by (cases "operation x") (simp_all add: apply_batch_operation_def)
  qed
qed

lemma batch_write_store:
  "store (batch_write_safely b d) k =
     (case last_operation k (batch b) of
        None \<Rightarrow> store d k
      | Some bop \<Rightarrow> if operation bop = DELETE then None else Some (bop_value bop))"
  by (simp add: batch_write_safely_def fold_apply_batch_operation)

text \<open>Reading a batch of keys: the values of the store, one per key, in order.\<close>

lemma batch_read_values:
  "fst (batch_read ks d) = map (look_up d) ks \<and> look_up (snd (batch_read ks d)) = look_up d"
proof (induction ks arbitrary: d)
  case Nil
  then show ?case by simp
next
  case (Cons k ks)
  have "look_up (d\<lparr>store := snd (map_index k (store d))\<rparr>) = look_up d"
    using get_safely_simps(2) [of k d] by (simp add: get_safely_def split: prod.splits)
  with Cons [of "d\<lparr>store := snd (map_index k (store d))\<rparr>"] show ?case
    by (simp add: split_def map_index_simps look_up_def Let_def)
qed

lemma batch_read_safely_eq: "batch_read_safely ks d = batch_read ks d"
  by (induction ks arbitrary: d) simp_all

lemma batch_read_has:
  "Database_has l (snd (batch_read ks d)) \<longleftrightarrow> Database_has l d \<or> l \<in> set ks"
  by (induction ks arbitrary: d) (auto simp: split_def Database_has_def map_index_simps Let_def)

end
