(* ===== verification/Block_Info.thy ===== *)
theory Block_Info
  imports Primitives Db
begin

text \<open>
  Where a block is kept: \<open>FileInfo\<close> (\<open>core/src/chain_writer/file_info.cpp\<close>),
  \<open>BlockRecord\<close> and \<open>BlockInfoDatabase\<close> (\<open>core/src/block_info_database\<close>). A block
  record is stored in the key-value store under the decimal hash of its block; reading goes through
  \<open>get_safely\<close>, so an unknown hash yields the record of the empty string, never a null pointer,
  and leaves a key behind.
\<close>

section \<open>FileInfo and BlockRecord\<close>

record FileInfo =
  file_name :: string
  FileInfo_start :: uint16
  FileInfo_end :: uint16

definition FileInfo_new :: "string \<Rightarrow> uint16 \<Rightarrow> uint16 \<Rightarrow> FileInfo" where
  "FileInfo_new f s e = \<lparr>file_name = f, FileInfo_start = s, FileInfo_end = e\<rparr>"

record BlockRecord =
  BlockRecord_block_header :: BlockHeader
  height :: uint32
  num_transactions :: uint32
  block_file_stored :: string
  undo_file_stored :: string
  block_offset_start :: uint16
  block_offset_end :: uint16
  undo_offset_start :: uint16
  undo_offset_end :: uint16

definition BlockRecord_new ::
  "BlockHeader \<Rightarrow> uint32 \<Rightarrow> uint32 \<Rightarrow> FileInfo \<Rightarrow> FileInfo \<Rightarrow> BlockRecord" where
  "BlockRecord_new block_header' num_transactions' height' block_info undo_info =
     \<lparr>BlockRecord_block_header = block_header', height = height', num_transactions = num_transactions',
      block_file_stored = file_name block_info, undo_file_stored = file_name undo_info,
      block_offset_start = FileInfo_start block_info, block_offset_end = FileInfo_end block_info,
      undo_offset_start = FileInfo_start undo_info, undo_offset_end = FileInfo_end undo_info\<rparr>"

definition BlockRecord_serialize :: "'u runtime \<Rightarrow> BlockRecord \<Rightarrow> string" where
  "BlockRecord_serialize rt r =
     (let pblock_header = fill_header rt (BlockRecord_block_header r);
          p = PBlockRecord_new rt;
          p = PBlockRecord_set_allocated_block_header (Some pblock_header) p;
          p = PBlockRecord_set_height (height r) p;
          p = PBlockRecord_set_num_transactions (num_transactions r) p;
          p = PBlockRecord_set_block_file_stored (block_file_stored r) p;
          p = PBlockRecord_set_block_offset_start (ucast (block_offset_start r)) p;
          p = PBlockRecord_set_block_offset_end (ucast (block_offset_end r)) p;
          p = PBlockRecord_set_undo_file_stored (undo_file_stored r) p;
          p = PBlockRecord_set_undo_offset_start (ucast (undo_offset_start r)) p;
          p = PBlockRecord_set_undo_offset_end (ucast (undo_offset_end r)) p
      in PBlockRecord_SerializeToString rt p)"

definition BlockRecord_deserialize :: "'u runtime \<Rightarrow> string \<Rightarrow> BlockRecord result" where
  "BlockRecord_deserialize rt s =
     res_bind (PBlockRecord_ParseFromString rt s (PBlockRecord_new rt)) (\<lambda>p.
     let block_header' = read_header (PBlockRecord_get_block_header rt p);
         block_file_info = FileInfo_new (PBlockRecord_block_file_stored p)
           (ucast (PBlockRecord_block_offset_start p)) (ucast (PBlockRecord_block_offset_end p));
         undo_file_info = FileInfo_new (PBlockRecord_undo_file_stored p)
           (ucast (PBlockRecord_undo_offset_start p)) (ucast (PBlockRecord_undo_offset_end p))
     in Inr (BlockRecord_new block_header' (PBlockRecord_num_transactions p) (PBlockRecord_height p)
          block_file_info undo_file_info))"

section \<open>BlockInfoDatabase\<close>

record BlockInfoDatabase =
  info_database :: Database

definition BlockInfoDatabase_new :: BlockInfoDatabase where
  "BlockInfoDatabase_new = \<lparr>info_database = Database_new\<rparr>"

definition store_block_record :: "'u runtime \<Rightarrow> uint32 \<Rightarrow> BlockRecord \<Rightarrow> BlockInfoDatabase \<Rightarrow> BlockInfoDatabase" where
  "store_block_record rt h r d =
     d\<lparr>info_database := put_safely (to_string (unat h)) (BlockRecord_serialize rt r) (info_database d)\<rparr>"

definition get_block_record :: "'u runtime \<Rightarrow> uint32 \<Rightarrow> BlockInfoDatabase \<Rightarrow> (BlockRecord \<times> BlockInfoDatabase) result" where
  "get_block_record rt h d =
     (let (s, db) = get_safely (to_string (unat h)) (info_database d)
      in res_bind (BlockRecord_deserialize rt s) (\<lambda>r. Inr (r, d\<lparr>info_database := db\<rparr>)))"

section \<open>Lemmas\<close>

lemma FileInfo_same [simp]: "FileInfo_new (file_name l) (FileInfo_start l) (FileInfo_end l) = l"
  by (simp add: FileInfo_new_def)

text \<open>The record that a read of the empty string gives.\<close>

definition default_record :: BlockRecord where
  "default_record = BlockRecord_new (BlockHeader_new 0 0 0 0 0 0) 0 0 (FileInfo_new '''' 0 0) (FileInfo_new '''' 0 0)"

definition BlockRecord_ok :: "BlockRecord \<Rightarrow> bool" where
  "BlockRecord_ok r \<longleftrightarrow> ascii (block_file_stored r) \<and> ascii (undo_file_stored r) \<and>
     90 + length (block_file_stored r) + length (undo_file_stored r) \<le> MAX_SIZE"

lemma ucast_16_32 [simp]: "(ucast (ucast (v :: uint16) :: uint32) :: uint16) = v"
  by (rule bit_word_eqI) (simp add: bit_simps)

lemma BlockRecord_deserialize_Nil: "BlockRecord_deserialize rt '''' = Inr default_record"
  by (simp add: BlockRecord_deserialize_def PBlockRecord_ParseFromString_def ParseFromString_def
      PBlockRecord_InternalParse_def parse_loop_Nil PBlockRecord_Clear_def PBlockRecord_new_def
      PBlockHeader_new_def codec_simps read_header_def default_record_def)

definition proto_block_record :: "'u runtime \<Rightarrow> BlockRecord \<Rightarrow> 'u PBlockRecord" where
  "proto_block_record rt r = (PBlockRecord_new rt)
     \<lparr>PBlockRecord_block_file_stored := block_file_stored r, PBlockRecord_undo_file_stored := undo_file_stored r,
      PBlockRecord_block_header := Some (fill_header rt (BlockRecord_block_header r)),
      PBlockRecord_height := height r, PBlockRecord_num_transactions := num_transactions r,
      PBlockRecord_block_offset_start := ucast (block_offset_start r), PBlockRecord_block_offset_end := ucast (block_offset_end r),
      PBlockRecord_undo_offset_start := ucast (undo_offset_start r), PBlockRecord_undo_offset_end := ucast (undo_offset_end r)\<rparr>"

lemma BlockRecord_serialize_eq: "BlockRecord_serialize rt r = PBlockRecord_SerializeToString rt (proto_block_record rt r)"
  by (simp add: BlockRecord_serialize_def proto_block_record_def PBlockRecord_new_def codec_simps)

context protobuf_runtime
begin

lemma proto_block_record_wire:
  assumes "BlockRecord_ok r"
  shows "PBlockRecord_plain rt (proto_block_record rt r)"
    and "length (PBlockRecord_wire rt (proto_block_record rt r)) \<le> MAX_SIZE"
proof -
  let ?m = "proto_block_record rt r"
  let ?h = "fill_header rt (BlockRecord_block_header r)"
  show *: "PBlockRecord_plain rt ?m"
    using assms fill_header_wire(1)
    by (simp add: proto_block_record_def PBlockRecord_new_def PBlockRecord_plain_def no_unknown BlockRecord_ok_def)
  have sel: "PBlockRecord_block_header ?m = Some ?h" "PBlockRecord_block_file_stored ?m = block_file_stored r"
    "PBlockRecord_undo_file_stored ?m = undo_file_stored r"
    by (simp_all add: proto_block_record_def)
  have u: "unknown_bytes rt (PBlockRecord_metadata ?m) = ''''"
    using * by (simp add: unknown_bytes_def PBlockRecord_plain_def)
  have "length (InternalWriteMessage rt 1 (length (PBlockHeader_wire rt ?h)) (PBlockHeader_wire rt ?h)) \<le> 6 + 36"
    using fill_header_wire(2) by (intro message_written_le) (auto simp: INT_MAX_def)
  moreover have "length (block_file_stored r) \<le> INT_MAX" "length (undo_file_stored r) \<le> INT_MAX"
    using assms unfolding BlockRecord_ok_def MAX_SIZE_def by linarith+
  ultimately have "length (PBlockRecord_wire rt ?m) \<le> 90 + length (block_file_stored r) + length (undo_file_stored r)"
    using written_uint32_le [of 2 "PBlockRecord_height ?m"] written_uint32_le [of 3 "PBlockRecord_num_transactions ?m"]
      written_uint32_le [of 5 "PBlockRecord_block_offset_start ?m"] written_uint32_le [of 6 "PBlockRecord_block_offset_end ?m"]
      written_uint32_le [of 8 "PBlockRecord_undo_offset_start ?m"] written_uint32_le [of 9 "PBlockRecord_undo_offset_end ?m"]
      written_string_le [of 4 "block_file_stored r"] written_string_le [of 7 "undo_file_stored r"]
    unfolding PBlockRecord_wire_eq length_append sel u by (simp only: option.case) simp
  then show "length (PBlockRecord_wire rt ?m) \<le> MAX_SIZE"
    using assms by (simp add: BlockRecord_ok_def)
qed

lemma BlockRecord_deserialize_serialize:
  assumes "BlockRecord_ok r"
  shows "BlockRecord_deserialize rt (BlockRecord_serialize rt r) = Inr r"
  using PBlockRecord_roundtrip_new [OF proto_block_record_wire [OF assms]]
  by (simp add: BlockRecord_deserialize_def BlockRecord_serialize_eq PBlockRecord_copy_def proto_block_record_def
      codec_simps header_copy BlockRecord_new_def FileInfo_new_def)

end

text \<open>The block-info database as a map from hashes to records, with the default record elsewhere.\<close>

definition record_of :: "'u runtime \<Rightarrow> BlockInfoDatabase \<Rightarrow> uint32 \<Rightarrow> BlockRecord result" where
  "record_of rt d h = BlockRecord_deserialize rt (look_up (info_database d) (to_string (unat h)))"

lemma get_block_record_eq:
  "get_block_record rt h d = res_bind (record_of rt d h) (\<lambda>r. Inr (r, d\<lparr>info_database := snd (get_safely (to_string (unat h)) (info_database d))\<rparr>))"
  using dbkv.get_value [of "to_string (unat h)" "info_database d"]
  by (simp add: get_block_record_def record_of_def split_def Let_def)

lemma get_block_record_same: "get_block_record rt h d = Inr (r, d') \<Longrightarrow> record_of rt d' = record_of rt d"
  by (auto simp: get_block_record_eq record_of_def fun_eq_iff dbkv.get_look)

lemma record_of_store: "record_of rt (store_block_record rt h r d) h' =
    (if h' = h then BlockRecord_deserialize rt (BlockRecord_serialize rt r) else record_of rt d h')"
  by (simp add: record_of_def store_block_record_def dbkv.put_look)

lemma record_of_new: "record_of rt BlockInfoDatabase_new h = Inr default_record"
  by (simp add: record_of_def BlockInfoDatabase_new_def look_up_def Database_new_def BlockRecord_deserialize_Nil)

end
