(* ===== verification/Proto_Coin.thy ===== *)
theory Proto_Coin
  imports Proto_Runtime
begin

text \<open>
  The generated messages \<open>PCoinRecord\<close>, \<open>PUndoCoinRecord\<close> and \<open>PUndoBlock\<close>
  of \<open>core/src/proto/crypt.pb.cc\<close> and their
  accessors in \<open>core/include/proto/crypt.pb.h\<close>. A record has the metadata (unknown fields), the
  fields in the order of the class and the cached sizes; \<open>ByteSizeLong\<close> returns the size and the
  message with its caches filled, \<open>InternalSerialize\<close> reads the caches, \<open>field\<close> is
  the switch of the parse loop. The context blocks show that the parsers return on every input, that the size
  is the length of what is written, and that parsing what was written merges the message.
\<close>

section \<open>PCoinRecord\<close>

record 'u PCoinRecord =
  PCoinRecord_metadata :: 'u
  PCoinRecord_utxo :: "uint32 list"
  PCoinRecord_utxo_cached_byte_size :: nat
  PCoinRecord_amounts :: "uint32 list"
  PCoinRecord_amounts_cached_byte_size :: nat
  PCoinRecord_public_keys :: "uint32 list"
  PCoinRecord_public_keys_cached_byte_size :: nat
  PCoinRecord_version :: uint32
  PCoinRecord_is_coin_base :: bool
  PCoinRecord_height :: uint32
  PCoinRecord_cached_size :: nat

definition PCoinRecord_new :: "'u runtime \<Rightarrow> 'u PCoinRecord" where
  "PCoinRecord_new rt = \<lparr>
     PCoinRecord_metadata = no_unknown_fields rt,
     PCoinRecord_utxo = [],
     PCoinRecord_utxo_cached_byte_size = 0,
     PCoinRecord_amounts = [],
     PCoinRecord_amounts_cached_byte_size = 0,
     PCoinRecord_public_keys = [],
     PCoinRecord_public_keys_cached_byte_size = 0,
     PCoinRecord_version = 0,
     PCoinRecord_is_coin_base = False,
     PCoinRecord_height = 0,
     PCoinRecord_cached_size = 0\<rparr>"

definition PCoinRecord_set_version :: "uint32 \<Rightarrow> 'u PCoinRecord \<Rightarrow> 'u PCoinRecord" where
  [codec_simps]: "PCoinRecord_set_version v m = m\<lparr>PCoinRecord_version := v\<rparr>"

definition PCoinRecord_set_is_coin_base :: "bool \<Rightarrow> 'u PCoinRecord \<Rightarrow> 'u PCoinRecord" where
  [codec_simps]: "PCoinRecord_set_is_coin_base v m = m\<lparr>PCoinRecord_is_coin_base := v\<rparr>"

definition PCoinRecord_set_height :: "uint32 \<Rightarrow> 'u PCoinRecord \<Rightarrow> 'u PCoinRecord" where
  [codec_simps]: "PCoinRecord_set_height v m = m\<lparr>PCoinRecord_height := v\<rparr>"

definition PCoinRecord_add_utxo :: "uint32 \<Rightarrow> 'u PCoinRecord \<Rightarrow> 'u PCoinRecord" where
  [codec_simps]: "PCoinRecord_add_utxo v m = m\<lparr>PCoinRecord_utxo := PCoinRecord_utxo m @ [v]\<rparr>"

definition PCoinRecord_add_amounts :: "uint32 \<Rightarrow> 'u PCoinRecord \<Rightarrow> 'u PCoinRecord" where
  [codec_simps]: "PCoinRecord_add_amounts v m = m\<lparr>PCoinRecord_amounts := PCoinRecord_amounts m @ [v]\<rparr>"

definition PCoinRecord_add_public_keys :: "uint32 \<Rightarrow> 'u PCoinRecord \<Rightarrow> 'u PCoinRecord" where
  [codec_simps]: "PCoinRecord_add_public_keys v m = m\<lparr>PCoinRecord_public_keys := PCoinRecord_public_keys m @ [v]\<rparr>"

definition PCoinRecord_Clear :: "'u runtime \<Rightarrow> 'u PCoinRecord \<Rightarrow> 'u PCoinRecord" where
  "PCoinRecord_Clear rt m = m\<lparr>
     PCoinRecord_utxo := [],
     PCoinRecord_amounts := [],
     PCoinRecord_public_keys := [],
     PCoinRecord_version := 0,
     PCoinRecord_is_coin_base := False,
     PCoinRecord_height := 0,
     PCoinRecord_metadata := no_unknown_fields rt\<rparr>"

definition PCoinRecord_ByteSizeLong :: "'u runtime \<Rightarrow> 'u PCoinRecord \<Rightarrow> nat \<times> 'u PCoinRecord" where
  "PCoinRecord_ByteSizeLong rt m =
     (let total_size = 0;
          utxo_size = UInt32SizeRepeated rt (PCoinRecord_utxo m);
          total_size = total_size + (if 0 < utxo_size then 1 + Int32Size rt utxo_size else 0);
          total_size = total_size + utxo_size;
          amounts_size = UInt32SizeRepeated rt (PCoinRecord_amounts m);
          total_size = total_size + (if 0 < amounts_size then 1 + Int32Size rt amounts_size else 0);
          total_size = total_size + amounts_size;
          public_keys_size = UInt32SizeRepeated rt (PCoinRecord_public_keys m);
          total_size = total_size + (if 0 < public_keys_size then 1 + Int32Size rt public_keys_size else 0);
          total_size = total_size + public_keys_size;
          total_size = total_size + (if PCoinRecord_version m \<noteq> 0 then 1 + UInt32Size rt (PCoinRecord_version m) else 0);
          total_size = total_size + (if PCoinRecord_is_coin_base m then 1 + 1 else 0);
          total_size = total_size + (if PCoinRecord_height m \<noteq> 0 then 1 + UInt32Size rt (PCoinRecord_height m) else 0);
          total_size = with_unknown_size rt (PCoinRecord_metadata m) total_size
      in (total_size, m\<lparr>PCoinRecord_utxo_cached_byte_size := utxo_size,
           PCoinRecord_amounts_cached_byte_size := amounts_size,
           PCoinRecord_public_keys_cached_byte_size := public_keys_size,
           PCoinRecord_cached_size := total_size\<rparr>))"

definition PCoinRecord_InternalSerialize :: "'u runtime \<Rightarrow> 'u PCoinRecord \<Rightarrow> string" where
  "PCoinRecord_InternalSerialize rt m =
     (if PCoinRecord_version m \<noteq> 0 then WriteUInt32ToArray rt 1 (PCoinRecord_version m) else '''') @
     (if PCoinRecord_is_coin_base m then WriteBoolToArray rt 2 (PCoinRecord_is_coin_base m) else '''') @
     (if PCoinRecord_height m \<noteq> 0 then WriteUInt32ToArray rt 3 (PCoinRecord_height m) else '''') @
     (if 0 < PCoinRecord_utxo_cached_byte_size m then WriteUInt32Packed rt 4 (PCoinRecord_utxo m) (PCoinRecord_utxo_cached_byte_size m) else '''') @
     (if 0 < PCoinRecord_amounts_cached_byte_size m then WriteUInt32Packed rt 5 (PCoinRecord_amounts m) (PCoinRecord_amounts_cached_byte_size m) else '''') @
     (if 0 < PCoinRecord_public_keys_cached_byte_size m then WriteUInt32Packed rt 6 (PCoinRecord_public_keys m) (PCoinRecord_public_keys_cached_byte_size m) else '''') @
     unknown_bytes rt (PCoinRecord_metadata m)"

definition PCoinRecord_field :: "'u runtime \<Rightarrow> 'u PCoinRecord \<Rightarrow> uint32 \<Rightarrow> string \<Rightarrow> ('u PCoinRecord) step option" where
  "PCoinRecord_field rt m tag ptr =
     (if on_tag tag 1 8 then
        Some (field_step (\<lambda>v. m\<lparr>PCoinRecord_version := v\<rparr>) (ReadVarint32 rt ptr))
      else if on_tag tag 2 16 then
        Some (field_step (\<lambda>v. m\<lparr>PCoinRecord_is_coin_base := v \<noteq> 0\<rparr>) (ReadVarint64 rt ptr))
      else if on_tag tag 3 24 then
        Some (field_step (\<lambda>v. m\<lparr>PCoinRecord_height := v\<rparr>) (ReadVarint32 rt ptr))
      else if on_tag tag 4 34 then
        Some (field_step (\<lambda>v. m\<lparr>PCoinRecord_utxo := v\<rparr>) (PackedUInt32Parser rt (PCoinRecord_utxo m) ptr))
      else if on_tag tag 4 32 then
        Some (field_step (\<lambda>v. PCoinRecord_add_utxo v m) (ReadVarint32 rt ptr))
      else if on_tag tag 5 42 then
        Some (field_step (\<lambda>v. m\<lparr>PCoinRecord_amounts := v\<rparr>) (PackedUInt32Parser rt (PCoinRecord_amounts m) ptr))
      else if on_tag tag 5 40 then
        Some (field_step (\<lambda>v. PCoinRecord_add_amounts v m) (ReadVarint32 rt ptr))
      else if on_tag tag 6 50 then
        Some (field_step (\<lambda>v. m\<lparr>PCoinRecord_public_keys := v\<rparr>) (PackedUInt32Parser rt (PCoinRecord_public_keys m) ptr))
      else if on_tag tag 6 48 then
        Some (field_step (\<lambda>v. PCoinRecord_add_public_keys v m) (ReadVarint32 rt ptr))
      else Some (handle_unusual rt tag (\<lambda>u. m\<lparr>PCoinRecord_metadata := u\<rparr>) (PCoinRecord_metadata m) m ptr))"

definition PCoinRecord_InternalParse :: "'u runtime \<Rightarrow> string \<Rightarrow> 'u PCoinRecord \<Rightarrow> ('u PCoinRecord) parsed option" where
  "PCoinRecord_InternalParse rt ptr m = parse_loop rt (PCoinRecord_field rt) ptr m"

definition PCoinRecord_MergeFrom :: "'u runtime \<Rightarrow> 'u PCoinRecord \<Rightarrow> 'u PCoinRecord \<Rightarrow> 'u PCoinRecord" where
  "PCoinRecord_MergeFrom rt from m =
     (let m = m\<lparr>PCoinRecord_metadata := MergeUnknownFields rt (PCoinRecord_metadata m) (PCoinRecord_metadata from)\<rparr>;
          m = m\<lparr>PCoinRecord_utxo := PCoinRecord_utxo m @ PCoinRecord_utxo from\<rparr>;
          m = m\<lparr>PCoinRecord_amounts := PCoinRecord_amounts m @ PCoinRecord_amounts from\<rparr>;
          m = m\<lparr>PCoinRecord_public_keys := PCoinRecord_public_keys m @ PCoinRecord_public_keys from\<rparr>;
          m = (if PCoinRecord_version from \<noteq> 0 then PCoinRecord_set_version (PCoinRecord_version from) m else m);
          m = (if PCoinRecord_is_coin_base from then PCoinRecord_set_is_coin_base (PCoinRecord_is_coin_base from) m else m);
          m = (if PCoinRecord_height from \<noteq> 0 then PCoinRecord_set_height (PCoinRecord_height from) m else m)
      in m)"

lemma PCoinRecord_merge_version: "(if c then PCoinRecord_set_version v m else m) = m\<lparr>PCoinRecord_version := if c then v else PCoinRecord_version m\<rparr>"
  by (simp add: PCoinRecord_set_version_def)

lemma PCoinRecord_merge_is_coin_base: "(if c then PCoinRecord_set_is_coin_base v m else m) = m\<lparr>PCoinRecord_is_coin_base := if c then v else PCoinRecord_is_coin_base m\<rparr>"
  by (simp add: PCoinRecord_set_is_coin_base_def)

lemma PCoinRecord_merge_height: "(if c then PCoinRecord_set_height v m else m) = m\<lparr>PCoinRecord_height := if c then v else PCoinRecord_height m\<rparr>"
  by (simp add: PCoinRecord_set_height_def)

lemmas PCoinRecord_Merge = PCoinRecord_MergeFrom_def Let_def
  PCoinRecord_merge_version
  PCoinRecord_merge_is_coin_base
  PCoinRecord_merge_height

definition PCoinRecord_copy :: "'u runtime \<Rightarrow> 'u PCoinRecord \<Rightarrow> 'u PCoinRecord" where
  "PCoinRecord_copy rt from = \<lparr>
     PCoinRecord_metadata = MergeUnknownFields rt (no_unknown_fields rt) (PCoinRecord_metadata from),
     PCoinRecord_utxo = PCoinRecord_utxo from,
     PCoinRecord_utxo_cached_byte_size = 0,
     PCoinRecord_amounts = PCoinRecord_amounts from,
     PCoinRecord_amounts_cached_byte_size = 0,
     PCoinRecord_public_keys = PCoinRecord_public_keys from,
     PCoinRecord_public_keys_cached_byte_size = 0,
     PCoinRecord_version = PCoinRecord_version from,
     PCoinRecord_is_coin_base = PCoinRecord_is_coin_base from,
     PCoinRecord_height = PCoinRecord_height from,
     PCoinRecord_cached_size = 0\<rparr>"

definition PCoinRecord_CopyFrom :: "'u runtime \<Rightarrow> 'u PCoinRecord \<Rightarrow> 'u PCoinRecord \<Rightarrow> 'u PCoinRecord" where
  "PCoinRecord_CopyFrom rt from m = PCoinRecord_MergeFrom rt from (PCoinRecord_Clear rt m)"

definition PCoinRecord_InternalSwap :: "'u PCoinRecord \<Rightarrow> 'u PCoinRecord \<Rightarrow> ('u PCoinRecord) \<times> ('u PCoinRecord)" where
  "PCoinRecord_InternalSwap m other =
     (other\<lparr>PCoinRecord_utxo_cached_byte_size := PCoinRecord_utxo_cached_byte_size m, PCoinRecord_amounts_cached_byte_size := PCoinRecord_amounts_cached_byte_size m, PCoinRecord_public_keys_cached_byte_size := PCoinRecord_public_keys_cached_byte_size m, PCoinRecord_cached_size := PCoinRecord_cached_size m\<rparr>,
      m\<lparr>PCoinRecord_utxo_cached_byte_size := PCoinRecord_utxo_cached_byte_size other, PCoinRecord_amounts_cached_byte_size := PCoinRecord_amounts_cached_byte_size other, PCoinRecord_public_keys_cached_byte_size := PCoinRecord_public_keys_cached_byte_size other, PCoinRecord_cached_size := PCoinRecord_cached_size other\<rparr>)"

definition PCoinRecord_ParseFromString :: "'u runtime \<Rightarrow> string \<Rightarrow> 'u PCoinRecord \<Rightarrow> ('u PCoinRecord) result" where
  "PCoinRecord_ParseFromString rt s m = ParseFromString (PCoinRecord_Clear rt) (PCoinRecord_InternalParse rt) s m"

definition PCoinRecord_SerializeToString :: "'u runtime \<Rightarrow> 'u PCoinRecord \<Rightarrow> string" where
  "PCoinRecord_SerializeToString rt m = SerializeToString (PCoinRecord_ByteSizeLong rt) (PCoinRecord_InternalSerialize rt) m"

text \<open>The bytes of a message whose sizes were just computed, and the messages the round trips are about.\<close>

definition PCoinRecord_wire :: "'u runtime \<Rightarrow> 'u PCoinRecord \<Rightarrow> string" where
  "PCoinRecord_wire rt m = PCoinRecord_InternalSerialize rt (snd (PCoinRecord_ByteSizeLong rt m))"

definition PCoinRecord_plain :: "'u runtime \<Rightarrow> 'u PCoinRecord \<Rightarrow> bool" where
  [codec_simps]: "PCoinRecord_plain rt m \<longleftrightarrow> \<not> have_unknown_fields rt (PCoinRecord_metadata m)"

context protobuf_runtime
begin

lemma PCoinRecord_parse_total: "PCoinRecord_InternalParse rt p m \<noteq> None"
  unfolding PCoinRecord_InternalParse_def
  by (rule parse_loop_total) (simp add: PCoinRecord_field_def)

lemma PCoinRecord_wire_eq:
  "PCoinRecord_wire rt m =
     (if PCoinRecord_version m \<noteq> 0 then WriteUInt32ToArray rt 1 (PCoinRecord_version m) else '''') @
     (if PCoinRecord_is_coin_base m then WriteBoolToArray rt 2 (PCoinRecord_is_coin_base m) else '''') @
     (if PCoinRecord_height m \<noteq> 0 then WriteUInt32ToArray rt 3 (PCoinRecord_height m) else '''') @
     (if 0 < UInt32SizeRepeated rt (PCoinRecord_utxo m) then WriteUInt32Packed rt 4 (PCoinRecord_utxo m) (UInt32SizeRepeated rt (PCoinRecord_utxo m)) else '''') @
     (if 0 < UInt32SizeRepeated rt (PCoinRecord_amounts m) then WriteUInt32Packed rt 5 (PCoinRecord_amounts m) (UInt32SizeRepeated rt (PCoinRecord_amounts m)) else '''') @
     (if 0 < UInt32SizeRepeated rt (PCoinRecord_public_keys m) then WriteUInt32Packed rt 6 (PCoinRecord_public_keys m) (UInt32SizeRepeated rt (PCoinRecord_public_keys m)) else '''') @
     unknown_bytes rt (PCoinRecord_metadata m)"
  unfolding PCoinRecord_wire_def PCoinRecord_InternalSerialize_def PCoinRecord_ByteSizeLong_def Let_def
  by (simp split: option.splits)

lemma PCoinRecord_size_length: "fst (PCoinRecord_ByteSizeLong rt m) = length (PCoinRecord_wire rt m)"
  unfolding PCoinRecord_wire_eq PCoinRecord_ByteSizeLong_def Let_def
  by (simp only: length_fields rel_simps order_refl)
    (simp add: with_unknown_size_eq size_message length_concat comp_def sum_list_Suc
      case_prod_unfold  cong del: if_weak_cong split del: if_split split: option.split)

lemma PCoinRecord_cached_length: "PCoinRecord_cached_size (snd (PCoinRecord_ByteSizeLong rt m)) = length (PCoinRecord_wire rt m)"
  unfolding PCoinRecord_size_length [symmetric] by (simp add: PCoinRecord_ByteSizeLong_def Let_def)

lemma PCoinRecord_loop_version:
  "parse_loop rt (PCoinRecord_field rt) ((if v \<noteq> 0 then WriteUInt32ToArray rt 1 v else '''') @ r) m
     = parse_loop rt (PCoinRecord_field rt) r (m\<lparr>PCoinRecord_version := if v \<noteq> 0 then v else PCoinRecord_version m\<rparr>)"
  by (subst loop_uint32 [where upd = "\<lambda>v. m\<lparr>PCoinRecord_version := v\<rparr>"]) (simp_all add: PCoinRecord_field_def codec_simps)

lemma PCoinRecord_loop_is_coin_base:
  "parse_loop rt (PCoinRecord_field rt) ((if v then WriteBoolToArray rt 2 v else '''') @ r) m
     = parse_loop rt (PCoinRecord_field rt) r (m\<lparr>PCoinRecord_is_coin_base := v \<or> PCoinRecord_is_coin_base m\<rparr>)"
  by (subst loop_bool [where upd = "\<lambda>v. m\<lparr>PCoinRecord_is_coin_base := v\<rparr>"]) (simp_all add: PCoinRecord_field_def codec_simps)

lemma PCoinRecord_loop_height:
  "parse_loop rt (PCoinRecord_field rt) ((if v \<noteq> 0 then WriteUInt32ToArray rt 3 v else '''') @ r) m
     = parse_loop rt (PCoinRecord_field rt) r (m\<lparr>PCoinRecord_height := if v \<noteq> 0 then v else PCoinRecord_height m\<rparr>)"
  by (subst loop_uint32 [where upd = "\<lambda>v. m\<lparr>PCoinRecord_height := v\<rparr>"]) (simp_all add: PCoinRecord_field_def codec_simps)

lemma PCoinRecord_loop_utxo:
  assumes "UInt32SizeRepeated rt v \<le> MAX_SIZE"
  shows "parse_loop rt (PCoinRecord_field rt) ((if 0 < UInt32SizeRepeated rt v then WriteUInt32Packed rt 4 v (UInt32SizeRepeated rt v) else '''') @ r) m
     = parse_loop rt (PCoinRecord_field rt) r (m\<lparr>PCoinRecord_utxo := PCoinRecord_utxo m @ v\<rparr>)"
  by (subst loop_packed [where upd = "\<lambda>v. m\<lparr>PCoinRecord_utxo := v\<rparr>" and us = "PCoinRecord_utxo m"]) (simp_all add: assms PCoinRecord_field_def codec_simps)

lemma PCoinRecord_loop_amounts:
  assumes "UInt32SizeRepeated rt v \<le> MAX_SIZE"
  shows "parse_loop rt (PCoinRecord_field rt) ((if 0 < UInt32SizeRepeated rt v then WriteUInt32Packed rt 5 v (UInt32SizeRepeated rt v) else '''') @ r) m
     = parse_loop rt (PCoinRecord_field rt) r (m\<lparr>PCoinRecord_amounts := PCoinRecord_amounts m @ v\<rparr>)"
  by (subst loop_packed [where upd = "\<lambda>v. m\<lparr>PCoinRecord_amounts := v\<rparr>" and us = "PCoinRecord_amounts m"]) (simp_all add: assms PCoinRecord_field_def codec_simps)

lemma PCoinRecord_loop_public_keys:
  assumes "UInt32SizeRepeated rt v \<le> MAX_SIZE"
  shows "parse_loop rt (PCoinRecord_field rt) ((if 0 < UInt32SizeRepeated rt v then WriteUInt32Packed rt 6 v (UInt32SizeRepeated rt v) else '''') @ r) m
     = parse_loop rt (PCoinRecord_field rt) r (m\<lparr>PCoinRecord_public_keys := PCoinRecord_public_keys m @ v\<rparr>)"
  by (subst loop_packed [where upd = "\<lambda>v. m\<lparr>PCoinRecord_public_keys := v\<rparr>" and us = "PCoinRecord_public_keys m"]) (simp_all add: assms PCoinRecord_field_def codec_simps)

lemma PCoinRecord_parse_wire:
  assumes "PCoinRecord_plain rt m" "length (PCoinRecord_wire rt m) \<le> MAX_SIZE"
  shows "PCoinRecord_InternalParse rt (PCoinRecord_wire rt m) m' = Some (Parsed (PCoinRecord_MergeFrom rt m m'))"
proof -
  have utxo: "UInt32SizeRepeated rt (PCoinRecord_utxo m) \<le> MAX_SIZE"
    using assms(2) by (auto simp: PCoinRecord_wire_eq size_packed split: if_splits)
  have amounts: "UInt32SizeRepeated rt (PCoinRecord_amounts m) \<le> MAX_SIZE"
    using assms(2) by (auto simp: PCoinRecord_wire_eq size_packed split: if_splits)
  have public_keys: "UInt32SizeRepeated rt (PCoinRecord_public_keys m) \<le> MAX_SIZE"
    using assms(2) by (auto simp: PCoinRecord_wire_eq size_packed split: if_splits)
  have u: "unknown_bytes rt (PCoinRecord_metadata m) = ''''" "\<not> have_unknown_fields rt (PCoinRecord_metadata m)"
    using assms(1) by (simp_all add: codec_simps unknown_bytes_def)
  show ?thesis
    unfolding PCoinRecord_InternalParse_def PCoinRecord_wire_eq u
    by (simp only: PCoinRecord_loop_version
        PCoinRecord_loop_is_coin_base
        PCoinRecord_loop_height
        PCoinRecord_loop_utxo [OF utxo]
        PCoinRecord_loop_amounts [OF amounts]
        PCoinRecord_loop_public_keys [OF public_keys] loop_end PCoinRecord_Merge)
      (simp add: codec_simps merge_none u cong del: if_weak_cong split del: if_split split: option.split)
qed

lemma PCoinRecord_MergeFrom_new:
  assumes "PCoinRecord_plain rt m"
  shows "PCoinRecord_MergeFrom rt m (PCoinRecord_new rt) = PCoinRecord_copy rt m"
  using assms by (simp only: PCoinRecord_Merge) (simp add: PCoinRecord_copy_def PCoinRecord_new_def codec_simps merge_none no_unknown
      cong del: if_weak_cong split del: if_split split: option.splits)

lemma PCoinRecord_roundtrip:
  assumes "PCoinRecord_plain rt m" "length (PCoinRecord_wire rt m) \<le> MAX_SIZE"
  shows "PCoinRecord_ParseFromString rt (PCoinRecord_SerializeToString rt m) m' = Inr (PCoinRecord_MergeFrom rt m (PCoinRecord_Clear rt m'))"
  using assms by (simp add: PCoinRecord_ParseFromString_def PCoinRecord_SerializeToString_def ParseFromString_def SerializeToString_def
      case_prod_unfold Let_def PCoinRecord_size_length PCoinRecord_parse_wire flip: PCoinRecord_wire_def)

lemma PCoinRecord_roundtrip_new:
  assumes "PCoinRecord_plain rt m" "length (PCoinRecord_wire rt m) \<le> MAX_SIZE"
  shows "PCoinRecord_ParseFromString rt (PCoinRecord_SerializeToString rt m) (PCoinRecord_new rt) = Inr (PCoinRecord_copy rt m)"
proof -
  have "PCoinRecord_Clear rt (PCoinRecord_new rt) = PCoinRecord_new rt"
    by (simp add: PCoinRecord_Clear_def PCoinRecord_new_def)
  then show ?thesis using PCoinRecord_roundtrip [OF assms] PCoinRecord_MergeFrom_new [OF assms(1)] by simp
qed

lemma PCoinRecord_ParseFromString_returns: "PCoinRecord_ParseFromString rt s m \<noteq> Inl Diverges"
  using PCoinRecord_parse_total [of s "PCoinRecord_Clear rt m"] by (auto simp: PCoinRecord_ParseFromString_def ParseFromString_def)

end

section \<open>PUndoCoinRecord\<close>

record 'u PUndoCoinRecord =
  PUndoCoinRecord_metadata :: 'u
  PUndoCoinRecord_utxo :: "uint32 list"
  PUndoCoinRecord_utxo_cached_byte_size :: nat
  PUndoCoinRecord_amounts :: "uint32 list"
  PUndoCoinRecord_amounts_cached_byte_size :: nat
  PUndoCoinRecord_public_keys :: "uint32 list"
  PUndoCoinRecord_public_keys_cached_byte_size :: nat
  PUndoCoinRecord_version :: uint32
  PUndoCoinRecord_is_coin_base :: bool
  PUndoCoinRecord_height :: uint32
  PUndoCoinRecord_cached_size :: nat

definition PUndoCoinRecord_new :: "'u runtime \<Rightarrow> 'u PUndoCoinRecord" where
  "PUndoCoinRecord_new rt = \<lparr>
     PUndoCoinRecord_metadata = no_unknown_fields rt,
     PUndoCoinRecord_utxo = [],
     PUndoCoinRecord_utxo_cached_byte_size = 0,
     PUndoCoinRecord_amounts = [],
     PUndoCoinRecord_amounts_cached_byte_size = 0,
     PUndoCoinRecord_public_keys = [],
     PUndoCoinRecord_public_keys_cached_byte_size = 0,
     PUndoCoinRecord_version = 0,
     PUndoCoinRecord_is_coin_base = False,
     PUndoCoinRecord_height = 0,
     PUndoCoinRecord_cached_size = 0\<rparr>"

definition PUndoCoinRecord_set_version :: "uint32 \<Rightarrow> 'u PUndoCoinRecord \<Rightarrow> 'u PUndoCoinRecord" where
  [codec_simps]: "PUndoCoinRecord_set_version v m = m\<lparr>PUndoCoinRecord_version := v\<rparr>"

definition PUndoCoinRecord_set_is_coin_base :: "bool \<Rightarrow> 'u PUndoCoinRecord \<Rightarrow> 'u PUndoCoinRecord" where
  [codec_simps]: "PUndoCoinRecord_set_is_coin_base v m = m\<lparr>PUndoCoinRecord_is_coin_base := v\<rparr>"

definition PUndoCoinRecord_set_height :: "uint32 \<Rightarrow> 'u PUndoCoinRecord \<Rightarrow> 'u PUndoCoinRecord" where
  [codec_simps]: "PUndoCoinRecord_set_height v m = m\<lparr>PUndoCoinRecord_height := v\<rparr>"

definition PUndoCoinRecord_add_utxo :: "uint32 \<Rightarrow> 'u PUndoCoinRecord \<Rightarrow> 'u PUndoCoinRecord" where
  [codec_simps]: "PUndoCoinRecord_add_utxo v m = m\<lparr>PUndoCoinRecord_utxo := PUndoCoinRecord_utxo m @ [v]\<rparr>"

definition PUndoCoinRecord_add_amounts :: "uint32 \<Rightarrow> 'u PUndoCoinRecord \<Rightarrow> 'u PUndoCoinRecord" where
  [codec_simps]: "PUndoCoinRecord_add_amounts v m = m\<lparr>PUndoCoinRecord_amounts := PUndoCoinRecord_amounts m @ [v]\<rparr>"

definition PUndoCoinRecord_add_public_keys :: "uint32 \<Rightarrow> 'u PUndoCoinRecord \<Rightarrow> 'u PUndoCoinRecord" where
  [codec_simps]: "PUndoCoinRecord_add_public_keys v m = m\<lparr>PUndoCoinRecord_public_keys := PUndoCoinRecord_public_keys m @ [v]\<rparr>"

definition PUndoCoinRecord_Clear :: "'u runtime \<Rightarrow> 'u PUndoCoinRecord \<Rightarrow> 'u PUndoCoinRecord" where
  "PUndoCoinRecord_Clear rt m = m\<lparr>
     PUndoCoinRecord_utxo := [],
     PUndoCoinRecord_amounts := [],
     PUndoCoinRecord_public_keys := [],
     PUndoCoinRecord_version := 0,
     PUndoCoinRecord_is_coin_base := False,
     PUndoCoinRecord_height := 0,
     PUndoCoinRecord_metadata := no_unknown_fields rt\<rparr>"

definition PUndoCoinRecord_ByteSizeLong :: "'u runtime \<Rightarrow> 'u PUndoCoinRecord \<Rightarrow> nat \<times> 'u PUndoCoinRecord" where
  "PUndoCoinRecord_ByteSizeLong rt m =
     (let total_size = 0;
          utxo_size = UInt32SizeRepeated rt (PUndoCoinRecord_utxo m);
          total_size = total_size + (if 0 < utxo_size then 1 + Int32Size rt utxo_size else 0);
          total_size = total_size + utxo_size;
          amounts_size = UInt32SizeRepeated rt (PUndoCoinRecord_amounts m);
          total_size = total_size + (if 0 < amounts_size then 1 + Int32Size rt amounts_size else 0);
          total_size = total_size + amounts_size;
          public_keys_size = UInt32SizeRepeated rt (PUndoCoinRecord_public_keys m);
          total_size = total_size + (if 0 < public_keys_size then 1 + Int32Size rt public_keys_size else 0);
          total_size = total_size + public_keys_size;
          total_size = total_size + (if PUndoCoinRecord_version m \<noteq> 0 then 1 + UInt32Size rt (PUndoCoinRecord_version m) else 0);
          total_size = total_size + (if PUndoCoinRecord_is_coin_base m then 1 + 1 else 0);
          total_size = total_size + (if PUndoCoinRecord_height m \<noteq> 0 then 1 + UInt32Size rt (PUndoCoinRecord_height m) else 0);
          total_size = with_unknown_size rt (PUndoCoinRecord_metadata m) total_size
      in (total_size, m\<lparr>PUndoCoinRecord_utxo_cached_byte_size := utxo_size,
           PUndoCoinRecord_amounts_cached_byte_size := amounts_size,
           PUndoCoinRecord_public_keys_cached_byte_size := public_keys_size,
           PUndoCoinRecord_cached_size := total_size\<rparr>))"

definition PUndoCoinRecord_InternalSerialize :: "'u runtime \<Rightarrow> 'u PUndoCoinRecord \<Rightarrow> string" where
  "PUndoCoinRecord_InternalSerialize rt m =
     (if PUndoCoinRecord_version m \<noteq> 0 then WriteUInt32ToArray rt 1 (PUndoCoinRecord_version m) else '''') @
     (if PUndoCoinRecord_is_coin_base m then WriteBoolToArray rt 2 (PUndoCoinRecord_is_coin_base m) else '''') @
     (if PUndoCoinRecord_height m \<noteq> 0 then WriteUInt32ToArray rt 3 (PUndoCoinRecord_height m) else '''') @
     (if 0 < PUndoCoinRecord_utxo_cached_byte_size m then WriteUInt32Packed rt 4 (PUndoCoinRecord_utxo m) (PUndoCoinRecord_utxo_cached_byte_size m) else '''') @
     (if 0 < PUndoCoinRecord_amounts_cached_byte_size m then WriteUInt32Packed rt 5 (PUndoCoinRecord_amounts m) (PUndoCoinRecord_amounts_cached_byte_size m) else '''') @
     (if 0 < PUndoCoinRecord_public_keys_cached_byte_size m then WriteUInt32Packed rt 6 (PUndoCoinRecord_public_keys m) (PUndoCoinRecord_public_keys_cached_byte_size m) else '''') @
     unknown_bytes rt (PUndoCoinRecord_metadata m)"

definition PUndoCoinRecord_field :: "'u runtime \<Rightarrow> 'u PUndoCoinRecord \<Rightarrow> uint32 \<Rightarrow> string \<Rightarrow> ('u PUndoCoinRecord) step option" where
  "PUndoCoinRecord_field rt m tag ptr =
     (if on_tag tag 1 8 then
        Some (field_step (\<lambda>v. m\<lparr>PUndoCoinRecord_version := v\<rparr>) (ReadVarint32 rt ptr))
      else if on_tag tag 2 16 then
        Some (field_step (\<lambda>v. m\<lparr>PUndoCoinRecord_is_coin_base := v \<noteq> 0\<rparr>) (ReadVarint64 rt ptr))
      else if on_tag tag 3 24 then
        Some (field_step (\<lambda>v. m\<lparr>PUndoCoinRecord_height := v\<rparr>) (ReadVarint32 rt ptr))
      else if on_tag tag 4 34 then
        Some (field_step (\<lambda>v. m\<lparr>PUndoCoinRecord_utxo := v\<rparr>) (PackedUInt32Parser rt (PUndoCoinRecord_utxo m) ptr))
      else if on_tag tag 4 32 then
        Some (field_step (\<lambda>v. PUndoCoinRecord_add_utxo v m) (ReadVarint32 rt ptr))
      else if on_tag tag 5 42 then
        Some (field_step (\<lambda>v. m\<lparr>PUndoCoinRecord_amounts := v\<rparr>) (PackedUInt32Parser rt (PUndoCoinRecord_amounts m) ptr))
      else if on_tag tag 5 40 then
        Some (field_step (\<lambda>v. PUndoCoinRecord_add_amounts v m) (ReadVarint32 rt ptr))
      else if on_tag tag 6 50 then
        Some (field_step (\<lambda>v. m\<lparr>PUndoCoinRecord_public_keys := v\<rparr>) (PackedUInt32Parser rt (PUndoCoinRecord_public_keys m) ptr))
      else if on_tag tag 6 48 then
        Some (field_step (\<lambda>v. PUndoCoinRecord_add_public_keys v m) (ReadVarint32 rt ptr))
      else Some (handle_unusual rt tag (\<lambda>u. m\<lparr>PUndoCoinRecord_metadata := u\<rparr>) (PUndoCoinRecord_metadata m) m ptr))"

definition PUndoCoinRecord_InternalParse :: "'u runtime \<Rightarrow> string \<Rightarrow> 'u PUndoCoinRecord \<Rightarrow> ('u PUndoCoinRecord) parsed option" where
  "PUndoCoinRecord_InternalParse rt ptr m = parse_loop rt (PUndoCoinRecord_field rt) ptr m"

definition PUndoCoinRecord_MergeFrom :: "'u runtime \<Rightarrow> 'u PUndoCoinRecord \<Rightarrow> 'u PUndoCoinRecord \<Rightarrow> 'u PUndoCoinRecord" where
  "PUndoCoinRecord_MergeFrom rt from m =
     (let m = m\<lparr>PUndoCoinRecord_metadata := MergeUnknownFields rt (PUndoCoinRecord_metadata m) (PUndoCoinRecord_metadata from)\<rparr>;
          m = m\<lparr>PUndoCoinRecord_utxo := PUndoCoinRecord_utxo m @ PUndoCoinRecord_utxo from\<rparr>;
          m = m\<lparr>PUndoCoinRecord_amounts := PUndoCoinRecord_amounts m @ PUndoCoinRecord_amounts from\<rparr>;
          m = m\<lparr>PUndoCoinRecord_public_keys := PUndoCoinRecord_public_keys m @ PUndoCoinRecord_public_keys from\<rparr>;
          m = (if PUndoCoinRecord_version from \<noteq> 0 then PUndoCoinRecord_set_version (PUndoCoinRecord_version from) m else m);
          m = (if PUndoCoinRecord_is_coin_base from then PUndoCoinRecord_set_is_coin_base (PUndoCoinRecord_is_coin_base from) m else m);
          m = (if PUndoCoinRecord_height from \<noteq> 0 then PUndoCoinRecord_set_height (PUndoCoinRecord_height from) m else m)
      in m)"

lemma PUndoCoinRecord_merge_version: "(if c then PUndoCoinRecord_set_version v m else m) = m\<lparr>PUndoCoinRecord_version := if c then v else PUndoCoinRecord_version m\<rparr>"
  by (simp add: PUndoCoinRecord_set_version_def)

lemma PUndoCoinRecord_merge_is_coin_base: "(if c then PUndoCoinRecord_set_is_coin_base v m else m) = m\<lparr>PUndoCoinRecord_is_coin_base := if c then v else PUndoCoinRecord_is_coin_base m\<rparr>"
  by (simp add: PUndoCoinRecord_set_is_coin_base_def)

lemma PUndoCoinRecord_merge_height: "(if c then PUndoCoinRecord_set_height v m else m) = m\<lparr>PUndoCoinRecord_height := if c then v else PUndoCoinRecord_height m\<rparr>"
  by (simp add: PUndoCoinRecord_set_height_def)

lemmas PUndoCoinRecord_Merge = PUndoCoinRecord_MergeFrom_def Let_def
  PUndoCoinRecord_merge_version
  PUndoCoinRecord_merge_is_coin_base
  PUndoCoinRecord_merge_height

definition PUndoCoinRecord_copy :: "'u runtime \<Rightarrow> 'u PUndoCoinRecord \<Rightarrow> 'u PUndoCoinRecord" where
  "PUndoCoinRecord_copy rt from = \<lparr>
     PUndoCoinRecord_metadata = MergeUnknownFields rt (no_unknown_fields rt) (PUndoCoinRecord_metadata from),
     PUndoCoinRecord_utxo = PUndoCoinRecord_utxo from,
     PUndoCoinRecord_utxo_cached_byte_size = 0,
     PUndoCoinRecord_amounts = PUndoCoinRecord_amounts from,
     PUndoCoinRecord_amounts_cached_byte_size = 0,
     PUndoCoinRecord_public_keys = PUndoCoinRecord_public_keys from,
     PUndoCoinRecord_public_keys_cached_byte_size = 0,
     PUndoCoinRecord_version = PUndoCoinRecord_version from,
     PUndoCoinRecord_is_coin_base = PUndoCoinRecord_is_coin_base from,
     PUndoCoinRecord_height = PUndoCoinRecord_height from,
     PUndoCoinRecord_cached_size = 0\<rparr>"

definition PUndoCoinRecord_CopyFrom :: "'u runtime \<Rightarrow> 'u PUndoCoinRecord \<Rightarrow> 'u PUndoCoinRecord \<Rightarrow> 'u PUndoCoinRecord" where
  "PUndoCoinRecord_CopyFrom rt from m = PUndoCoinRecord_MergeFrom rt from (PUndoCoinRecord_Clear rt m)"

definition PUndoCoinRecord_InternalSwap :: "'u PUndoCoinRecord \<Rightarrow> 'u PUndoCoinRecord \<Rightarrow> ('u PUndoCoinRecord) \<times> ('u PUndoCoinRecord)" where
  "PUndoCoinRecord_InternalSwap m other =
     (other\<lparr>PUndoCoinRecord_utxo_cached_byte_size := PUndoCoinRecord_utxo_cached_byte_size m, PUndoCoinRecord_amounts_cached_byte_size := PUndoCoinRecord_amounts_cached_byte_size m, PUndoCoinRecord_public_keys_cached_byte_size := PUndoCoinRecord_public_keys_cached_byte_size m, PUndoCoinRecord_cached_size := PUndoCoinRecord_cached_size m\<rparr>,
      m\<lparr>PUndoCoinRecord_utxo_cached_byte_size := PUndoCoinRecord_utxo_cached_byte_size other, PUndoCoinRecord_amounts_cached_byte_size := PUndoCoinRecord_amounts_cached_byte_size other, PUndoCoinRecord_public_keys_cached_byte_size := PUndoCoinRecord_public_keys_cached_byte_size other, PUndoCoinRecord_cached_size := PUndoCoinRecord_cached_size other\<rparr>)"

definition PUndoCoinRecord_ParseFromString :: "'u runtime \<Rightarrow> string \<Rightarrow> 'u PUndoCoinRecord \<Rightarrow> ('u PUndoCoinRecord) result" where
  "PUndoCoinRecord_ParseFromString rt s m = ParseFromString (PUndoCoinRecord_Clear rt) (PUndoCoinRecord_InternalParse rt) s m"

definition PUndoCoinRecord_SerializeToString :: "'u runtime \<Rightarrow> 'u PUndoCoinRecord \<Rightarrow> string" where
  "PUndoCoinRecord_SerializeToString rt m = SerializeToString (PUndoCoinRecord_ByteSizeLong rt) (PUndoCoinRecord_InternalSerialize rt) m"

text \<open>The bytes of a message whose sizes were just computed, and the messages the round trips are about.\<close>

definition PUndoCoinRecord_wire :: "'u runtime \<Rightarrow> 'u PUndoCoinRecord \<Rightarrow> string" where
  "PUndoCoinRecord_wire rt m = PUndoCoinRecord_InternalSerialize rt (snd (PUndoCoinRecord_ByteSizeLong rt m))"

definition PUndoCoinRecord_plain :: "'u runtime \<Rightarrow> 'u PUndoCoinRecord \<Rightarrow> bool" where
  [codec_simps]: "PUndoCoinRecord_plain rt m \<longleftrightarrow> \<not> have_unknown_fields rt (PUndoCoinRecord_metadata m)"

context protobuf_runtime
begin

lemma PUndoCoinRecord_parse_total: "PUndoCoinRecord_InternalParse rt p m \<noteq> None"
  unfolding PUndoCoinRecord_InternalParse_def
  by (rule parse_loop_total) (simp add: PUndoCoinRecord_field_def)

lemma PUndoCoinRecord_wire_eq:
  "PUndoCoinRecord_wire rt m =
     (if PUndoCoinRecord_version m \<noteq> 0 then WriteUInt32ToArray rt 1 (PUndoCoinRecord_version m) else '''') @
     (if PUndoCoinRecord_is_coin_base m then WriteBoolToArray rt 2 (PUndoCoinRecord_is_coin_base m) else '''') @
     (if PUndoCoinRecord_height m \<noteq> 0 then WriteUInt32ToArray rt 3 (PUndoCoinRecord_height m) else '''') @
     (if 0 < UInt32SizeRepeated rt (PUndoCoinRecord_utxo m) then WriteUInt32Packed rt 4 (PUndoCoinRecord_utxo m) (UInt32SizeRepeated rt (PUndoCoinRecord_utxo m)) else '''') @
     (if 0 < UInt32SizeRepeated rt (PUndoCoinRecord_amounts m) then WriteUInt32Packed rt 5 (PUndoCoinRecord_amounts m) (UInt32SizeRepeated rt (PUndoCoinRecord_amounts m)) else '''') @
     (if 0 < UInt32SizeRepeated rt (PUndoCoinRecord_public_keys m) then WriteUInt32Packed rt 6 (PUndoCoinRecord_public_keys m) (UInt32SizeRepeated rt (PUndoCoinRecord_public_keys m)) else '''') @
     unknown_bytes rt (PUndoCoinRecord_metadata m)"
  unfolding PUndoCoinRecord_wire_def PUndoCoinRecord_InternalSerialize_def PUndoCoinRecord_ByteSizeLong_def Let_def
  by (simp split: option.splits)

lemma PUndoCoinRecord_size_length: "fst (PUndoCoinRecord_ByteSizeLong rt m) = length (PUndoCoinRecord_wire rt m)"
  unfolding PUndoCoinRecord_wire_eq PUndoCoinRecord_ByteSizeLong_def Let_def
  by (simp only: length_fields rel_simps order_refl)
    (simp add: with_unknown_size_eq size_message length_concat comp_def sum_list_Suc
      case_prod_unfold  cong del: if_weak_cong split del: if_split split: option.split)

lemma PUndoCoinRecord_cached_length: "PUndoCoinRecord_cached_size (snd (PUndoCoinRecord_ByteSizeLong rt m)) = length (PUndoCoinRecord_wire rt m)"
  unfolding PUndoCoinRecord_size_length [symmetric] by (simp add: PUndoCoinRecord_ByteSizeLong_def Let_def)

lemma PUndoCoinRecord_loop_version:
  "parse_loop rt (PUndoCoinRecord_field rt) ((if v \<noteq> 0 then WriteUInt32ToArray rt 1 v else '''') @ r) m
     = parse_loop rt (PUndoCoinRecord_field rt) r (m\<lparr>PUndoCoinRecord_version := if v \<noteq> 0 then v else PUndoCoinRecord_version m\<rparr>)"
  by (subst loop_uint32 [where upd = "\<lambda>v. m\<lparr>PUndoCoinRecord_version := v\<rparr>"]) (simp_all add: PUndoCoinRecord_field_def codec_simps)

lemma PUndoCoinRecord_loop_is_coin_base:
  "parse_loop rt (PUndoCoinRecord_field rt) ((if v then WriteBoolToArray rt 2 v else '''') @ r) m
     = parse_loop rt (PUndoCoinRecord_field rt) r (m\<lparr>PUndoCoinRecord_is_coin_base := v \<or> PUndoCoinRecord_is_coin_base m\<rparr>)"
  by (subst loop_bool [where upd = "\<lambda>v. m\<lparr>PUndoCoinRecord_is_coin_base := v\<rparr>"]) (simp_all add: PUndoCoinRecord_field_def codec_simps)

lemma PUndoCoinRecord_loop_height:
  "parse_loop rt (PUndoCoinRecord_field rt) ((if v \<noteq> 0 then WriteUInt32ToArray rt 3 v else '''') @ r) m
     = parse_loop rt (PUndoCoinRecord_field rt) r (m\<lparr>PUndoCoinRecord_height := if v \<noteq> 0 then v else PUndoCoinRecord_height m\<rparr>)"
  by (subst loop_uint32 [where upd = "\<lambda>v. m\<lparr>PUndoCoinRecord_height := v\<rparr>"]) (simp_all add: PUndoCoinRecord_field_def codec_simps)

lemma PUndoCoinRecord_loop_utxo:
  assumes "UInt32SizeRepeated rt v \<le> MAX_SIZE"
  shows "parse_loop rt (PUndoCoinRecord_field rt) ((if 0 < UInt32SizeRepeated rt v then WriteUInt32Packed rt 4 v (UInt32SizeRepeated rt v) else '''') @ r) m
     = parse_loop rt (PUndoCoinRecord_field rt) r (m\<lparr>PUndoCoinRecord_utxo := PUndoCoinRecord_utxo m @ v\<rparr>)"
  by (subst loop_packed [where upd = "\<lambda>v. m\<lparr>PUndoCoinRecord_utxo := v\<rparr>" and us = "PUndoCoinRecord_utxo m"]) (simp_all add: assms PUndoCoinRecord_field_def codec_simps)

lemma PUndoCoinRecord_loop_amounts:
  assumes "UInt32SizeRepeated rt v \<le> MAX_SIZE"
  shows "parse_loop rt (PUndoCoinRecord_field rt) ((if 0 < UInt32SizeRepeated rt v then WriteUInt32Packed rt 5 v (UInt32SizeRepeated rt v) else '''') @ r) m
     = parse_loop rt (PUndoCoinRecord_field rt) r (m\<lparr>PUndoCoinRecord_amounts := PUndoCoinRecord_amounts m @ v\<rparr>)"
  by (subst loop_packed [where upd = "\<lambda>v. m\<lparr>PUndoCoinRecord_amounts := v\<rparr>" and us = "PUndoCoinRecord_amounts m"]) (simp_all add: assms PUndoCoinRecord_field_def codec_simps)

lemma PUndoCoinRecord_loop_public_keys:
  assumes "UInt32SizeRepeated rt v \<le> MAX_SIZE"
  shows "parse_loop rt (PUndoCoinRecord_field rt) ((if 0 < UInt32SizeRepeated rt v then WriteUInt32Packed rt 6 v (UInt32SizeRepeated rt v) else '''') @ r) m
     = parse_loop rt (PUndoCoinRecord_field rt) r (m\<lparr>PUndoCoinRecord_public_keys := PUndoCoinRecord_public_keys m @ v\<rparr>)"
  by (subst loop_packed [where upd = "\<lambda>v. m\<lparr>PUndoCoinRecord_public_keys := v\<rparr>" and us = "PUndoCoinRecord_public_keys m"]) (simp_all add: assms PUndoCoinRecord_field_def codec_simps)

lemma PUndoCoinRecord_parse_wire:
  assumes "PUndoCoinRecord_plain rt m" "length (PUndoCoinRecord_wire rt m) \<le> MAX_SIZE"
  shows "PUndoCoinRecord_InternalParse rt (PUndoCoinRecord_wire rt m) m' = Some (Parsed (PUndoCoinRecord_MergeFrom rt m m'))"
proof -
  have utxo: "UInt32SizeRepeated rt (PUndoCoinRecord_utxo m) \<le> MAX_SIZE"
    using assms(2) by (auto simp: PUndoCoinRecord_wire_eq size_packed split: if_splits)
  have amounts: "UInt32SizeRepeated rt (PUndoCoinRecord_amounts m) \<le> MAX_SIZE"
    using assms(2) by (auto simp: PUndoCoinRecord_wire_eq size_packed split: if_splits)
  have public_keys: "UInt32SizeRepeated rt (PUndoCoinRecord_public_keys m) \<le> MAX_SIZE"
    using assms(2) by (auto simp: PUndoCoinRecord_wire_eq size_packed split: if_splits)
  have u: "unknown_bytes rt (PUndoCoinRecord_metadata m) = ''''" "\<not> have_unknown_fields rt (PUndoCoinRecord_metadata m)"
    using assms(1) by (simp_all add: codec_simps unknown_bytes_def)
  show ?thesis
    unfolding PUndoCoinRecord_InternalParse_def PUndoCoinRecord_wire_eq u
    by (simp only: PUndoCoinRecord_loop_version
        PUndoCoinRecord_loop_is_coin_base
        PUndoCoinRecord_loop_height
        PUndoCoinRecord_loop_utxo [OF utxo]
        PUndoCoinRecord_loop_amounts [OF amounts]
        PUndoCoinRecord_loop_public_keys [OF public_keys] loop_end PUndoCoinRecord_Merge)
      (simp add: codec_simps merge_none u cong del: if_weak_cong split del: if_split split: option.split)
qed

lemma PUndoCoinRecord_MergeFrom_new:
  assumes "PUndoCoinRecord_plain rt m"
  shows "PUndoCoinRecord_MergeFrom rt m (PUndoCoinRecord_new rt) = PUndoCoinRecord_copy rt m"
  using assms by (simp only: PUndoCoinRecord_Merge) (simp add: PUndoCoinRecord_copy_def PUndoCoinRecord_new_def codec_simps merge_none no_unknown
      cong del: if_weak_cong split del: if_split split: option.splits)

lemma PUndoCoinRecord_roundtrip:
  assumes "PUndoCoinRecord_plain rt m" "length (PUndoCoinRecord_wire rt m) \<le> MAX_SIZE"
  shows "PUndoCoinRecord_ParseFromString rt (PUndoCoinRecord_SerializeToString rt m) m' = Inr (PUndoCoinRecord_MergeFrom rt m (PUndoCoinRecord_Clear rt m'))"
  using assms by (simp add: PUndoCoinRecord_ParseFromString_def PUndoCoinRecord_SerializeToString_def ParseFromString_def SerializeToString_def
      case_prod_unfold Let_def PUndoCoinRecord_size_length PUndoCoinRecord_parse_wire flip: PUndoCoinRecord_wire_def)

lemma PUndoCoinRecord_roundtrip_new:
  assumes "PUndoCoinRecord_plain rt m" "length (PUndoCoinRecord_wire rt m) \<le> MAX_SIZE"
  shows "PUndoCoinRecord_ParseFromString rt (PUndoCoinRecord_SerializeToString rt m) (PUndoCoinRecord_new rt) = Inr (PUndoCoinRecord_copy rt m)"
proof -
  have "PUndoCoinRecord_Clear rt (PUndoCoinRecord_new rt) = PUndoCoinRecord_new rt"
    by (simp add: PUndoCoinRecord_Clear_def PUndoCoinRecord_new_def)
  then show ?thesis using PUndoCoinRecord_roundtrip [OF assms] PUndoCoinRecord_MergeFrom_new [OF assms(1)] by simp
qed

lemma PUndoCoinRecord_ParseFromString_returns: "PUndoCoinRecord_ParseFromString rt s m \<noteq> Inl Diverges"
  using PUndoCoinRecord_parse_total [of s "PUndoCoinRecord_Clear rt m"] by (auto simp: PUndoCoinRecord_ParseFromString_def ParseFromString_def)

end

section \<open>PUndoBlock\<close>

record 'u PUndoBlock =
  PUndoBlock_metadata :: 'u
  PUndoBlock_transaction_hashes :: "uint32 list"
  PUndoBlock_transaction_hashes_cached_byte_size :: nat
  PUndoBlock_undo_coin_records :: "'u PUndoCoinRecord list"
  PUndoBlock_cached_size :: nat

definition PUndoBlock_new :: "'u runtime \<Rightarrow> 'u PUndoBlock" where
  "PUndoBlock_new rt = \<lparr>
     PUndoBlock_metadata = no_unknown_fields rt,
     PUndoBlock_transaction_hashes = [],
     PUndoBlock_transaction_hashes_cached_byte_size = 0,
     PUndoBlock_undo_coin_records = [],
     PUndoBlock_cached_size = 0\<rparr>"

definition PUndoBlock_add_transaction_hashes :: "uint32 \<Rightarrow> 'u PUndoBlock \<Rightarrow> 'u PUndoBlock" where
  [codec_simps]: "PUndoBlock_add_transaction_hashes v m = m\<lparr>PUndoBlock_transaction_hashes := PUndoBlock_transaction_hashes m @ [v]\<rparr>"

definition PUndoBlock_add_undo_coin_records :: "'u PUndoCoinRecord \<Rightarrow> 'u PUndoBlock \<Rightarrow> 'u PUndoBlock" where
  [codec_simps]: "PUndoBlock_add_undo_coin_records v m = m\<lparr>PUndoBlock_undo_coin_records := PUndoBlock_undo_coin_records m @ [v]\<rparr>"

definition PUndoBlock_Clear :: "'u runtime \<Rightarrow> 'u PUndoBlock \<Rightarrow> 'u PUndoBlock" where
  "PUndoBlock_Clear rt m = m\<lparr>
     PUndoBlock_transaction_hashes := [],
     PUndoBlock_undo_coin_records := [],
     PUndoBlock_metadata := no_unknown_fields rt\<rparr>"

definition PUndoBlock_ByteSizeLong :: "'u runtime \<Rightarrow> 'u PUndoBlock \<Rightarrow> nat \<times> 'u PUndoBlock" where
  "PUndoBlock_ByteSizeLong rt m =
     (let total_size = 0;
          transaction_hashes_size = UInt32SizeRepeated rt (PUndoBlock_transaction_hashes m);
          total_size = total_size + (if 0 < transaction_hashes_size then 1 + Int32Size rt transaction_hashes_size else 0);
          total_size = total_size + transaction_hashes_size;
          undo_coin_records = map (PUndoCoinRecord_ByteSizeLong rt) (PUndoBlock_undo_coin_records m);
          total_size = total_size + 1 * length (PUndoBlock_undo_coin_records m);
          total_size = total_size + sum_list (map (\<lambda>(n, _). MessageSize rt n) undo_coin_records);
          total_size = with_unknown_size rt (PUndoBlock_metadata m) total_size
      in (total_size, m\<lparr>PUndoBlock_transaction_hashes_cached_byte_size := transaction_hashes_size,
           PUndoBlock_undo_coin_records := map snd undo_coin_records,
           PUndoBlock_cached_size := total_size\<rparr>))"

definition PUndoBlock_InternalSerialize :: "'u runtime \<Rightarrow> 'u PUndoBlock \<Rightarrow> string" where
  "PUndoBlock_InternalSerialize rt m =
     (if 0 < PUndoBlock_transaction_hashes_cached_byte_size m then WriteUInt32Packed rt 1 (PUndoBlock_transaction_hashes m) (PUndoBlock_transaction_hashes_cached_byte_size m) else '''') @
     concat (map (\<lambda>x. InternalWriteMessage rt 2 (PUndoCoinRecord_cached_size x) (PUndoCoinRecord_InternalSerialize rt x)) (PUndoBlock_undo_coin_records m)) @
     unknown_bytes rt (PUndoBlock_metadata m)"

definition PUndoBlock_field :: "'u runtime \<Rightarrow> 'u PUndoBlock \<Rightarrow> uint32 \<Rightarrow> string \<Rightarrow> ('u PUndoBlock) step option" where
  "PUndoBlock_field rt m tag ptr =
     (if on_tag tag 1 10 then
        Some (field_step (\<lambda>v. m\<lparr>PUndoBlock_transaction_hashes := v\<rparr>) (PackedUInt32Parser rt (PUndoBlock_transaction_hashes m) ptr))
      else if on_tag tag 1 8 then
        Some (field_step (\<lambda>v. PUndoBlock_add_transaction_hashes v m) (ReadVarint32 rt ptr))
      else if on_tag tag 2 18 then
        parse_repeated rt 18 (PUndoCoinRecord_InternalParse rt) (PUndoCoinRecord_new rt) PUndoBlock_add_undo_coin_records ptr m
      else Some (handle_unusual rt tag (\<lambda>u. m\<lparr>PUndoBlock_metadata := u\<rparr>) (PUndoBlock_metadata m) m ptr))"

definition PUndoBlock_InternalParse :: "'u runtime \<Rightarrow> string \<Rightarrow> 'u PUndoBlock \<Rightarrow> ('u PUndoBlock) parsed option" where
  "PUndoBlock_InternalParse rt ptr m = parse_loop rt (PUndoBlock_field rt) ptr m"

definition PUndoBlock_MergeFrom :: "'u runtime \<Rightarrow> 'u PUndoBlock \<Rightarrow> 'u PUndoBlock \<Rightarrow> 'u PUndoBlock" where
  "PUndoBlock_MergeFrom rt from m =
     (let m = m\<lparr>PUndoBlock_metadata := MergeUnknownFields rt (PUndoBlock_metadata m) (PUndoBlock_metadata from)\<rparr>;
          m = m\<lparr>PUndoBlock_transaction_hashes := PUndoBlock_transaction_hashes m @ PUndoBlock_transaction_hashes from\<rparr>;
          m = m\<lparr>PUndoBlock_undo_coin_records := PUndoBlock_undo_coin_records m @ map (\<lambda>x. PUndoCoinRecord_MergeFrom rt x (PUndoCoinRecord_new rt)) (PUndoBlock_undo_coin_records from)\<rparr>
      in m)"

lemmas PUndoBlock_Merge = PUndoBlock_MergeFrom_def Let_def
  

definition PUndoBlock_copy :: "'u runtime \<Rightarrow> 'u PUndoBlock \<Rightarrow> 'u PUndoBlock" where
  "PUndoBlock_copy rt from = \<lparr>
     PUndoBlock_metadata = MergeUnknownFields rt (no_unknown_fields rt) (PUndoBlock_metadata from),
     PUndoBlock_transaction_hashes = PUndoBlock_transaction_hashes from,
     PUndoBlock_transaction_hashes_cached_byte_size = 0,
     PUndoBlock_undo_coin_records = map (\<lambda>x. PUndoCoinRecord_MergeFrom rt x (PUndoCoinRecord_new rt)) (PUndoBlock_undo_coin_records from),
     PUndoBlock_cached_size = 0\<rparr>"

definition PUndoBlock_CopyFrom :: "'u runtime \<Rightarrow> 'u PUndoBlock \<Rightarrow> 'u PUndoBlock \<Rightarrow> 'u PUndoBlock" where
  "PUndoBlock_CopyFrom rt from m = PUndoBlock_MergeFrom rt from (PUndoBlock_Clear rt m)"

definition PUndoBlock_InternalSwap :: "'u PUndoBlock \<Rightarrow> 'u PUndoBlock \<Rightarrow> ('u PUndoBlock) \<times> ('u PUndoBlock)" where
  "PUndoBlock_InternalSwap m other =
     (other\<lparr>PUndoBlock_transaction_hashes_cached_byte_size := PUndoBlock_transaction_hashes_cached_byte_size m, PUndoBlock_cached_size := PUndoBlock_cached_size m\<rparr>,
      m\<lparr>PUndoBlock_transaction_hashes_cached_byte_size := PUndoBlock_transaction_hashes_cached_byte_size other, PUndoBlock_cached_size := PUndoBlock_cached_size other\<rparr>)"

definition PUndoBlock_ParseFromString :: "'u runtime \<Rightarrow> string \<Rightarrow> 'u PUndoBlock \<Rightarrow> ('u PUndoBlock) result" where
  "PUndoBlock_ParseFromString rt s m = ParseFromString (PUndoBlock_Clear rt) (PUndoBlock_InternalParse rt) s m"

definition PUndoBlock_SerializeToString :: "'u runtime \<Rightarrow> 'u PUndoBlock \<Rightarrow> string" where
  "PUndoBlock_SerializeToString rt m = SerializeToString (PUndoBlock_ByteSizeLong rt) (PUndoBlock_InternalSerialize rt) m"

text \<open>The bytes of a message whose sizes were just computed, and the messages the round trips are about.\<close>

definition PUndoBlock_wire :: "'u runtime \<Rightarrow> 'u PUndoBlock \<Rightarrow> string" where
  "PUndoBlock_wire rt m = PUndoBlock_InternalSerialize rt (snd (PUndoBlock_ByteSizeLong rt m))"

definition PUndoBlock_plain :: "'u runtime \<Rightarrow> 'u PUndoBlock \<Rightarrow> bool" where
  [codec_simps]: "PUndoBlock_plain rt m \<longleftrightarrow> \<not> have_unknown_fields rt (PUndoBlock_metadata m) \<and>
     list_all (PUndoCoinRecord_plain rt) (PUndoBlock_undo_coin_records m)"

context protobuf_runtime
begin

lemma PUndoBlock_parse_total: "PUndoBlock_InternalParse rt p m \<noteq> None"
  unfolding PUndoBlock_InternalParse_def
  by (rule parse_loop_total) (simp add: PUndoBlock_field_def advances_message advances_repeated PUndoCoinRecord_parse_total)

lemma PUndoBlock_wire_eq:
  "PUndoBlock_wire rt m =
     (if 0 < UInt32SizeRepeated rt (PUndoBlock_transaction_hashes m) then WriteUInt32Packed rt 1 (PUndoBlock_transaction_hashes m) (UInt32SizeRepeated rt (PUndoBlock_transaction_hashes m)) else '''') @
     concat (map (\<lambda>b. InternalWriteMessage rt 2 (length b) b) (map (PUndoCoinRecord_wire rt) (PUndoBlock_undo_coin_records m))) @
     unknown_bytes rt (PUndoBlock_metadata m)"
  unfolding PUndoBlock_wire_def PUndoBlock_InternalSerialize_def PUndoBlock_ByteSizeLong_def Let_def
  by (simp add: comp_def PUndoCoinRecord_cached_length PUndoCoinRecord_wire_def [symmetric] split: option.splits)

lemma PUndoBlock_size_length: "fst (PUndoBlock_ByteSizeLong rt m) = length (PUndoBlock_wire rt m)"
  unfolding PUndoBlock_wire_eq PUndoBlock_ByteSizeLong_def Let_def
  by (simp only: length_fields rel_simps order_refl)
    (simp add: with_unknown_size_eq size_message length_concat comp_def sum_list_Suc
      case_prod_unfold PUndoCoinRecord_size_length cong del: if_weak_cong split del: if_split split: option.split)

lemma PUndoBlock_cached_length: "PUndoBlock_cached_size (snd (PUndoBlock_ByteSizeLong rt m)) = length (PUndoBlock_wire rt m)"
  unfolding PUndoBlock_size_length [symmetric] by (simp add: PUndoBlock_ByteSizeLong_def Let_def)

lemma PUndoBlock_loop_transaction_hashes:
  assumes "UInt32SizeRepeated rt v \<le> MAX_SIZE"
  shows "parse_loop rt (PUndoBlock_field rt) ((if 0 < UInt32SizeRepeated rt v then WriteUInt32Packed rt 1 v (UInt32SizeRepeated rt v) else '''') @ r) m
     = parse_loop rt (PUndoBlock_field rt) r (m\<lparr>PUndoBlock_transaction_hashes := PUndoBlock_transaction_hashes m @ v\<rparr>)"
  by (subst loop_packed [where upd = "\<lambda>v. m\<lparr>PUndoBlock_transaction_hashes := v\<rparr>" and us = "PUndoBlock_transaction_hashes m"]) (simp_all add: assms PUndoBlock_field_def codec_simps)

lemma PUndoBlock_loop_undo_coin_records:
  assumes "\<And>x. x \<in> set v \<Longrightarrow> length (PUndoCoinRecord_wire rt x) \<le> MAX_SIZE \<and> PUndoCoinRecord_plain rt x"
  shows "parse_loop rt (PUndoBlock_field rt) (concat (map (\<lambda>b. InternalWriteMessage rt 2 (length b) b) (map (PUndoCoinRecord_wire rt) v)) @ r) m
     = parse_loop rt (PUndoBlock_field rt) r (m\<lparr>PUndoBlock_undo_coin_records := PUndoBlock_undo_coin_records m @ map (\<lambda>x. PUndoCoinRecord_MergeFrom rt x (PUndoCoinRecord_new rt)) v\<rparr>)"
proof -
  have "fold PUndoBlock_add_undo_coin_records xs m = m\<lparr>PUndoBlock_undo_coin_records := PUndoBlock_undo_coin_records m @ xs\<rparr>" for xs
    by (induction xs arbitrary: m) (simp_all add: codec_simps)
  then show ?thesis using assms
    by (subst loop_repeated [where parse = "PUndoCoinRecord_InternalParse rt" and new = "PUndoCoinRecord_new rt"
          and add = "PUndoBlock_add_undo_coin_records" and ys = "map (\<lambda>x. PUndoCoinRecord_MergeFrom rt x (PUndoCoinRecord_new rt)) v"])
      (auto simp: PUndoBlock_field_def on_tag_numeral list_all2_map1 list_all2_map2 list_all2_same PUndoCoinRecord_parse_wire)
qed

lemma PUndoBlock_parse_wire:
  assumes "PUndoBlock_plain rt m" "length (PUndoBlock_wire rt m) \<le> MAX_SIZE"
  shows "PUndoBlock_InternalParse rt (PUndoBlock_wire rt m) m' = Some (Parsed (PUndoBlock_MergeFrom rt m m'))"
proof -
  have transaction_hashes: "UInt32SizeRepeated rt (PUndoBlock_transaction_hashes m) \<le> MAX_SIZE"
    using assms(2) by (auto simp: PUndoBlock_wire_eq size_packed split: if_splits)
  have undo_coin_records: "length (PUndoCoinRecord_wire rt x) \<le> MAX_SIZE \<and> PUndoCoinRecord_plain rt x" if "x \<in> set (PUndoBlock_undo_coin_records m)" for x
    using assms that written_message_le [of 2 x "PUndoBlock_undo_coin_records m" "PUndoCoinRecord_wire rt"] by (simp add: codec_simps PUndoBlock_wire_eq list_all_iff del: length_concat)
  have u: "unknown_bytes rt (PUndoBlock_metadata m) = ''''" "\<not> have_unknown_fields rt (PUndoBlock_metadata m)"
    using assms(1) by (simp_all add: codec_simps unknown_bytes_def)
  show ?thesis
    unfolding PUndoBlock_InternalParse_def PUndoBlock_wire_eq u
    by (simp only: PUndoBlock_loop_transaction_hashes [OF transaction_hashes]
        PUndoBlock_loop_undo_coin_records [OF undo_coin_records] loop_end PUndoBlock_Merge)
      (simp add: codec_simps merge_none u cong del: if_weak_cong split del: if_split split: option.split)
qed

lemma PUndoBlock_MergeFrom_new:
  assumes "PUndoBlock_plain rt m"
  shows "PUndoBlock_MergeFrom rt m (PUndoBlock_new rt) = PUndoBlock_copy rt m"
  using assms by (simp only: PUndoBlock_Merge) (simp add: PUndoBlock_copy_def PUndoBlock_new_def codec_simps merge_none no_unknown
      cong del: if_weak_cong split del: if_split split: option.splits)

lemma PUndoBlock_roundtrip:
  assumes "PUndoBlock_plain rt m" "length (PUndoBlock_wire rt m) \<le> MAX_SIZE"
  shows "PUndoBlock_ParseFromString rt (PUndoBlock_SerializeToString rt m) m' = Inr (PUndoBlock_MergeFrom rt m (PUndoBlock_Clear rt m'))"
  using assms by (simp add: PUndoBlock_ParseFromString_def PUndoBlock_SerializeToString_def ParseFromString_def SerializeToString_def
      case_prod_unfold Let_def PUndoBlock_size_length PUndoBlock_parse_wire flip: PUndoBlock_wire_def)

lemma PUndoBlock_roundtrip_new:
  assumes "PUndoBlock_plain rt m" "length (PUndoBlock_wire rt m) \<le> MAX_SIZE"
  shows "PUndoBlock_ParseFromString rt (PUndoBlock_SerializeToString rt m) (PUndoBlock_new rt) = Inr (PUndoBlock_copy rt m)"
proof -
  have "PUndoBlock_Clear rt (PUndoBlock_new rt) = PUndoBlock_new rt"
    by (simp add: PUndoBlock_Clear_def PUndoBlock_new_def)
  then show ?thesis using PUndoBlock_roundtrip [OF assms] PUndoBlock_MergeFrom_new [OF assms(1)] by simp
qed

lemma PUndoBlock_ParseFromString_returns: "PUndoBlock_ParseFromString rt s m \<noteq> Inl Diverges"
  using PUndoBlock_parse_total [of s "PUndoBlock_Clear rt m"] by (auto simp: PUndoBlock_ParseFromString_def ParseFromString_def)

end

end
