(* ===== verification/Coin_Records.thy ===== *)
theory Coin_Records
  imports Primitives Proto_Coin
begin

text \<open>
  The small classes of the coin database and the undo files: \<open>CoinLocator\<close> (the key of a coin,
  \<open>"hash-index"\<close>), \<open>Coin\<close>, \<open>CoinRecord\<close> (the unspent outputs of one
  transaction as three parallel vectors), \<open>UndoCoinRecord\<close> and \<open>UndoBlock\<close>. The
  serialisation loops index the three vectors by the length of the first, so a record whose vectors
  differ in length may be read out of range; the theorems say exactly when.
\<close>

section \<open>CoinLocator\<close>

record CoinLocator =
  transaction_hash :: uint32
  output_index :: uint8

definition CoinLocator_new :: "uint32 \<Rightarrow> uint8 \<Rightarrow> CoinLocator" where
  "CoinLocator_new h i = \<lparr>transaction_hash = h, output_index = i\<rparr>"

definition CoinLocator_serialize :: "CoinLocator \<Rightarrow> string" where
  "CoinLocator_serialize c = to_string (unat (transaction_hash c)) @ ''-'' @ to_string (unat (output_index c))"

definition serialize_from_construct :: "uint32 \<Rightarrow> uint8 \<Rightarrow> string" where
  "serialize_from_construct h i = to_string (unat h) @ ''-'' @ to_string (unat i)"

text \<open>
  \<open>find\<close> gives \<open>npos\<close> without a dash: the first \<open>substr\<close> is then the
  whole string, and \<open>npos + 1\<close> wraps to 0, so the second one is too.
\<close>

definition CoinLocator_deserialize :: "string \<Rightarrow> CoinLocator result" where
  "CoinLocator_deserialize s =
     (let pos = vec_find (CHR ''-'') s;
          hash_string = take pos s;
          index_string = (if pos = length s then s else drop (pos + 1) s)
      in res_bind (stoul hash_string) (\<lambda>h.
         res_bind (stoul index_string) (\<lambda>i.
         Inr (CoinLocator_new (ucast h) (ucast i)))))"

section \<open>Coin, CoinRecord, UndoCoinRecord, UndoBlock\<close>

record Coin =
  transaction_output :: TransactionOutput
  is_spent :: bool

definition Coin_new :: "TransactionOutput \<Rightarrow> bool \<Rightarrow> Coin" where
  "Coin_new out spent = \<lparr>transaction_output = out, is_spent = spent\<rparr>"

record CoinRecord =
  CoinRecord_version :: uint8
  utxo :: "uint32 list"
  amounts :: "uint32 list"
  public_keys :: "uint32 list"

definition CoinRecord_new :: "uint8 \<Rightarrow> uint32 list \<Rightarrow> uint32 list \<Rightarrow> uint32 list \<Rightarrow> CoinRecord" where
  "CoinRecord_new v us as ks = \<lparr>CoinRecord_version = v, utxo = us, amounts = as, public_keys = ks\<rparr>"

record UndoCoinRecord =
  UndoCoinRecord_version :: uint8
  undo_utxo :: "uint32 list"
  undo_amounts :: "uint32 list"
  undo_public_keys :: "uint32 list"

definition UndoCoinRecord_new :: "uint8 \<Rightarrow> uint32 list \<Rightarrow> uint32 list \<Rightarrow> uint32 list \<Rightarrow> UndoCoinRecord" where
  "UndoCoinRecord_new v us as ks =
     \<lparr>UndoCoinRecord_version = v, undo_utxo = us, undo_amounts = as, undo_public_keys = ks\<rparr>"

record UndoBlock =
  transaction_hashes :: "uint32 list"
  undo_coin_records :: "UndoCoinRecord list"

definition UndoBlock_new :: "uint32 list \<Rightarrow> UndoCoinRecord list \<Rightarrow> UndoBlock" where
  "UndoBlock_new hs rs = \<lparr>transaction_hashes = hs, undo_coin_records = rs\<rparr>"

section \<open>Serialisation\<close>

text \<open>
  The loop \<open>for (int i = 0; i < utxo.size(); i++)\<close> that visits the three vectors, for any
  body.
\<close>

definition for_coins ::
  "(uint32 \<Rightarrow> uint32 \<Rightarrow> uint32 \<Rightarrow> 's \<Rightarrow> 's) \<Rightarrow> uint32 list \<Rightarrow> uint32 list \<Rightarrow> uint32 list \<Rightarrow> 's \<Rightarrow> 's result" where
  "for_coins body us as ks =
     res_fold (\<lambda>i s.
       res_bind (vec_at us i) (\<lambda>u.
       res_bind (vec_at as i) (\<lambda>a.
       res_bind (vec_at ks i) (\<lambda>k.
       Inr (body u a k s))))) [0..<length us]"

definition CoinRecord_serialize :: "'u runtime \<Rightarrow> CoinRecord \<Rightarrow> string result" where
  "CoinRecord_serialize rt r =
     (let p = PCoinRecord_set_version (ucast (CoinRecord_version r)) (PCoinRecord_new rt)
      in res_bind (for_coins
           (\<lambda>u a k p. PCoinRecord_add_public_keys k (PCoinRecord_add_amounts a (PCoinRecord_add_utxo u p)))
           (utxo r) (amounts r) (public_keys r) p) (\<lambda>p.
         Inr (PCoinRecord_SerializeToString rt p)))"

definition CoinRecord_deserialize :: "'u runtime \<Rightarrow> string \<Rightarrow> CoinRecord result" where
  "CoinRecord_deserialize rt s =
     res_bind (PCoinRecord_ParseFromString rt s (PCoinRecord_new rt)) (\<lambda>p.
     res_bind (for_coins (\<lambda>u a k (us, as, ks). (us @ [u], as @ [a], ks @ [k]))
       (PCoinRecord_utxo p) (PCoinRecord_amounts p) (PCoinRecord_public_keys p) ([], [], [])) (\<lambda>(us, as, ks).
     Inr (CoinRecord_new (ucast (PCoinRecord_version p)) us as ks)))"

definition fill_undo_record :: "'u runtime \<Rightarrow> UndoCoinRecord \<Rightarrow> ('u PUndoCoinRecord) result" where
  "fill_undo_record rt r =
     for_coins
       (\<lambda>u a k p. PUndoCoinRecord_add_public_keys k (PUndoCoinRecord_add_amounts a (PUndoCoinRecord_add_utxo u p)))
       (undo_utxo r) (undo_amounts r) (undo_public_keys r)
       (PUndoCoinRecord_set_version (ucast (UndoCoinRecord_version r)) (PUndoCoinRecord_new rt))"

definition UndoBlock_serialize :: "'u runtime \<Rightarrow> UndoBlock \<Rightarrow> string result" where
  "UndoBlock_serialize rt b =
     res_bind (res_fold (\<lambda>i p.
         res_bind (vec_at (transaction_hashes b) i) (\<lambda>h.
         res_bind (vec_at (undo_coin_records b) i) (\<lambda>r.
         res_bind (fill_undo_record rt r) (\<lambda>pr.
         Inr (PUndoBlock_add_undo_coin_records pr (PUndoBlock_add_transaction_hashes h p))))))
       [0..<length (transaction_hashes b)] (PUndoBlock_new rt)) (\<lambda>p.
     Inr (PUndoBlock_SerializeToString rt p))"

definition read_undo_record :: "'u PUndoCoinRecord \<Rightarrow> UndoCoinRecord result" where
  "read_undo_record p =
     res_bind (for_coins (\<lambda>u a k (us, as, ks). (us @ [u], as @ [a], ks @ [k]))
       (PUndoCoinRecord_utxo p) (PUndoCoinRecord_amounts p) (PUndoCoinRecord_public_keys p) ([], [], [])) (\<lambda>(us, as, ks).
     Inr (UndoCoinRecord_new (ucast (PUndoCoinRecord_version p)) us as ks))"

definition UndoBlock_deserialize :: "'u runtime \<Rightarrow> string \<Rightarrow> UndoBlock result" where
  "UndoBlock_deserialize rt s =
     res_bind (PUndoBlock_ParseFromString rt s (PUndoBlock_new rt)) (\<lambda>p.
     res_bind (res_fold (\<lambda>i (hs, rs).
         res_bind (vec_at (PUndoBlock_transaction_hashes p) i) (\<lambda>h.
         res_bind (vec_at (PUndoBlock_undo_coin_records p) i) (\<lambda>pr.
         res_bind (read_undo_record pr) (\<lambda>r.
         Inr (hs @ [h], rs @ [r])))))
       [0..<length (PUndoBlock_transaction_hashes p)] ([], [])) (\<lambda>(hs, rs).
     Inr (UndoBlock_new hs rs)))"

section \<open>Coin locators\<close>

lemma serialize_from_construct_eq: "serialize_from_construct h i = CoinLocator_serialize (CoinLocator_new h i)"
  by (simp add: serialize_from_construct_def CoinLocator_serialize_def CoinLocator_new_def)

lemma vec_find_append: "x \<notin> set xs \<Longrightarrow> vec_find x (xs @ x # ys) = length xs"
  by (induction xs) auto

lemma unat_word_less: "unat (v :: 'a::len word) < 2 ^ LENGTH('a)"
  by (rule unsigned_less)

lemma CoinLocator_deserialize_dash:
  "CHR ''-'' \<notin> set s \<Longrightarrow> CoinLocator_deserialize (s @ ''-'' @ t) =
     res_bind (stoul s) (\<lambda>h. res_bind (stoul t) (\<lambda>i. Inr (CoinLocator_new (ucast h) (ucast i))))"
  by (simp add: CoinLocator_deserialize_def vec_find_append)

lemma CoinLocator_roundtrip: "CoinLocator_deserialize (serialize_from_construct h i) = Inr (CoinLocator_new h i)"
proof -
  have "stoul (to_string (unat h)) = Inr (ucast h)"
    by (subst stoul_to_string) (rule less_le_trans [OF unat_word_less], simp, simp)
  moreover have "stoul (to_string (unat i)) = Inr (ucast i)"
    by (subst stoul_to_string) (rule less_le_trans [OF unat_word_less], simp, simp)
  moreover have "(ucast (ucast h :: uint64) :: uint32) = h"
    by (rule bit_word_eqI) (simp add: bit_simps)
  moreover have "(ucast (ucast i :: uint64) :: uint8) = i"
    by (rule bit_word_eqI) (simp add: bit_simps)
  ultimately show ?thesis
    unfolding serialize_from_construct_def
    by (simp add: CoinLocator_deserialize_dash [simplified] CoinLocator_new_def)
qed

lemma serialize_from_construct_inject [simp]:
  "serialize_from_construct h i = serialize_from_construct h' i' \<longleftrightarrow> h = h' \<and> i = i'"
proof
  assume "serialize_from_construct h i = serialize_from_construct h' i'"
  then have "(Inr (CoinLocator_new h i) :: CoinLocator result) = Inr (CoinLocator_new h' i')"
    unfolding CoinLocator_roundtrip [symmetric] by simp
  then show "h = h' \<and> i = i'" by (simp add: CoinLocator_new_def)
qed simp

lemma deserialize_without_dash:
  assumes "CHR ''-'' \<notin> set s"
  shows "CoinLocator_deserialize s = res_bind (stoul s) (\<lambda>h. Inr (CoinLocator_new (ucast h) (ucast h)))"
proof -
  have "vec_find (CHR ''-'') s = length s" using assms by (simp add: vec_find_eq_length_iff)
  then show ?thesis by (cases "stoul s") (simp_all add: CoinLocator_deserialize_def)
qed

section \<open>The loops over the coins\<close>

lemma for_coins_prefix:
  assumes "n \<le> length us" "n \<le> length as" "n \<le> length ks"
  shows "res_fold (\<lambda>i s.
       res_bind (vec_at us i) (\<lambda>u. res_bind (vec_at as i) (\<lambda>a. res_bind (vec_at ks i) (\<lambda>k.
       Inr (body u a k s))))) [0..<n] s
     = Inr (fold (\<lambda>(u, a, k). body u a k) (zip (take n us) (zip (take n as) (take n ks))) s)"
  using assms
proof (induction n)
  case (Suc n)
  then show ?case
    by (simp add: res_fold_append take_Suc_conv_app_nth)
qed simp

lemma for_coins_ok:
  assumes "length us \<le> length as" "length us \<le> length ks"
  shows "for_coins body us as ks s
    = Inr (fold (\<lambda>(u, a, k). body u a k) (zip us (zip (take (length us) as) (take (length us) ks))) s)"
  unfolding for_coins_def using for_coins_prefix [of "length us" us as ks body s] assms by simp

lemma for_coins_short:
  assumes "length as < length us \<or> length ks < length us"
  shows "for_coins body us as ks s = Inl UB_index_out_of_range"
proof -
  let ?n = "min (length as) (length ks)"
  let ?f = "\<lambda>i s. res_bind (vec_at us i) (\<lambda>u. res_bind (vec_at as i) (\<lambda>a. res_bind (vec_at ks i) (\<lambda>k.
       Inr (body u a k s))))"
  have n: "?n < length us" using assms by auto
  then have "[0..<length us] = [0..<?n] @ ?n # [Suc ?n..<length us]"
    using upt_add_eq_append [of 0 ?n "length us - ?n"] by (simp add: upt_conv_Cons)
  moreover obtain s' where "res_fold ?f [0..<?n] s = Inr s'"
    using for_coins_prefix [of ?n us as ks body s] n by auto
  moreover have "?f ?n s' = Inl UB_index_out_of_range"
    using n by (auto simp: vec_at_def min_def)
  ultimately show ?thesis unfolding for_coins_def by (simp add: res_fold_append)
qed

lemma fold_collect:
  assumes "length as = length us" "length ks = length us"
  shows "fold (\<lambda>(u, a, k) (us, as, ks). (us @ [u], as @ [a], ks @ [k])) (zip us (zip as ks)) (us0, as0, ks0)
    = (us0 @ us, as0 @ as, ks0 @ ks)"
  using assms
proof (induction us arbitrary: as ks us0 as0 ks0)
  case (Cons u us)
  then show ?case by (cases as; cases ks) simp_all
qed simp

lemma for_coins_collect:
  assumes "length us \<le> length as" "length us \<le> length ks"
  shows "for_coins (\<lambda>u a k (us, as, ks). (us @ [u], as @ [a], ks @ [k])) us as ks ([], [], [])
    = Inr (us, take (length us) as, take (length us) ks)"
  unfolding for_coins_ok [OF assms]
  using fold_collect [of "take (length us) as" us "take (length us) ks" "[]" "[]" "[]"] assms by simp

section \<open>Coin records\<close>

definition CoinRecord_ok :: "CoinRecord \<Rightarrow> bool" where
  "CoinRecord_ok r \<longleftrightarrow> length (amounts r) = length (utxo r) \<and> length (public_keys r) = length (utxo r)"

definition proto_coin :: "'u runtime \<Rightarrow> CoinRecord \<Rightarrow> 'u PCoinRecord" where
  "proto_coin rt r = (PCoinRecord_new rt)
     \<lparr>PCoinRecord_utxo := utxo r, PCoinRecord_amounts := take (length (utxo r)) (amounts r),
      PCoinRecord_public_keys := take (length (utxo r)) (public_keys r), PCoinRecord_version := ucast (CoinRecord_version r)\<rparr>"

lemma fold_push_coins:
  assumes "length as = length us" "length ks = length us"
  shows "fold (\<lambda>(u, a, k) p. PCoinRecord_add_public_keys k (PCoinRecord_add_amounts a (PCoinRecord_add_utxo u p)))
      (zip us (zip as ks)) p
    = p\<lparr>PCoinRecord_utxo := PCoinRecord_utxo p @ us, PCoinRecord_amounts := PCoinRecord_amounts p @ as,
        PCoinRecord_public_keys := PCoinRecord_public_keys p @ ks\<rparr>"
  using assms
proof (induction us arbitrary: as ks p)
  case (Cons u us)
  then show ?case by (cases as; cases ks) (simp_all add: codec_simps)
qed simp

lemma CoinRecord_serialize_ok:
  assumes "length (utxo r) \<le> length (amounts r)" "length (utxo r) \<le> length (public_keys r)"
  shows "CoinRecord_serialize rt r = Inr (PCoinRecord_SerializeToString rt (proto_coin rt r))"
  unfolding CoinRecord_serialize_def Let_def for_coins_ok [OF assms]
  using assms
  by (subst fold_push_coins) (simp_all add: proto_coin_def PCoinRecord_new_def codec_simps)

lemma CoinRecord_serialize_short:
  "length (amounts r) < length (utxo r) \<or> length (public_keys r) < length (utxo r) \<Longrightarrow>
   CoinRecord_serialize rt r = Inl UB_index_out_of_range"
  unfolding CoinRecord_serialize_def by (simp add: for_coins_short)

lemma CoinRecord_deserialize_Nil: "CoinRecord_deserialize rt '''' = Inr (CoinRecord_new 0 [] [] [])"
  by (simp add: CoinRecord_deserialize_def PCoinRecord_ParseFromString_def ParseFromString_def
      PCoinRecord_InternalParse_def parse_loop_Nil PCoinRecord_Clear_def for_coins_def PCoinRecord_new_def)

context protobuf_runtime
begin

lemma proto_coin_wire:
  assumes "24 + 15 * length (utxo r) \<le> MAX_SIZE"
  shows "PCoinRecord_plain rt (proto_coin rt r)"
    and "length (PCoinRecord_wire rt (proto_coin rt r)) \<le> 24 + 15 * length (utxo r)"
proof -
  let ?m = "proto_coin rt r"
  show *: "PCoinRecord_plain rt ?m"
    by (simp add: proto_coin_def PCoinRecord_new_def PCoinRecord_plain_def no_unknown)
  have len: "length (PCoinRecord_utxo ?m) = length (utxo r)" "length (PCoinRecord_amounts ?m) \<le> length (utxo r)"
    "length (PCoinRecord_public_keys ?m) \<le> length (utxo r)" "\<not> PCoinRecord_is_coin_base ?m" "PCoinRecord_height ?m = 0"
    by (simp_all add: proto_coin_def PCoinRecord_new_def)
  have "5 * length (utxo r) \<le> INT_MAX" using assms by (simp add: MAX_SIZE_def)
  then show "length (PCoinRecord_wire rt ?m) \<le> 24 + 15 * length (utxo r)"
    using written_uint32_le [of 1 "PCoinRecord_version ?m"] written_packed_le [of 4 "PCoinRecord_utxo ?m"]
      written_packed_le [of 5 "PCoinRecord_amounts ?m"] written_packed_le [of 6 "PCoinRecord_public_keys ?m"] * len
    by (simp only: PCoinRecord_wire_eq length_append codec_simps unknown_bytes_def) simp
qed

lemma CoinRecord_deserialize_serialize:
  assumes "length (utxo r) \<le> length (amounts r)" "length (utxo r) \<le> length (public_keys r)"
    and "24 + 15 * length (utxo r) \<le> MAX_SIZE"
  shows "res_bind (CoinRecord_serialize rt r) (CoinRecord_deserialize rt)
    = Inr (r\<lparr>amounts := take (length (utxo r)) (amounts r), public_keys := take (length (utxo r)) (public_keys r)\<rparr>)"
proof -
  have w: "length (PCoinRecord_wire rt (proto_coin rt r)) \<le> MAX_SIZE"
    using proto_coin_wire(2) [OF assms(3)] assms(3) by linarith
  have "CoinRecord_deserialize rt (PCoinRecord_SerializeToString rt (proto_coin rt r))
    = Inr (r\<lparr>amounts := take (length (utxo r)) (amounts r), public_keys := take (length (utxo r)) (public_keys r)\<rparr>)"
    unfolding CoinRecord_deserialize_def PCoinRecord_roundtrip_new [OF proto_coin_wire(1) [OF assms(3)] w]
    using assms for_coins_collect [of "utxo r" "take (length (utxo r)) (amounts r)" "take (length (utxo r)) (public_keys r)"]
    by (simp add: PCoinRecord_copy_def proto_coin_def CoinRecord_new_def min_def)
  then show ?thesis by (simp add: CoinRecord_serialize_ok assms)
qed

end

section \<open>Undo blocks\<close>

definition UndoCoinRecord_ok :: "UndoCoinRecord \<Rightarrow> bool" where
  "UndoCoinRecord_ok r \<longleftrightarrow>
     length (undo_amounts r) = length (undo_utxo r) \<and> length (undo_public_keys r) = length (undo_utxo r)"

definition UndoBlock_ok :: "UndoBlock \<Rightarrow> bool" where
  "UndoBlock_ok b \<longleftrightarrow>
     length (undo_coin_records b) = length (transaction_hashes b) \<and> list_all UndoCoinRecord_ok (undo_coin_records b)"

definition UndoCoinRecord_weight :: "UndoCoinRecord \<Rightarrow> nat" where
  "UndoCoinRecord_weight r = 24 + 15 * length (undo_utxo r)"

definition UndoBlock_weight :: "UndoBlock \<Rightarrow> nat" where
  "UndoBlock_weight b = 6 + 5 * length (transaction_hashes b) + (\<Sum>r\<leftarrow>undo_coin_records b. 6 + UndoCoinRecord_weight r)"

definition proto_undo_record :: "'u runtime \<Rightarrow> UndoCoinRecord \<Rightarrow> 'u PUndoCoinRecord" where
  "proto_undo_record rt r = (PUndoCoinRecord_new rt)
     \<lparr>PUndoCoinRecord_utxo := undo_utxo r, PUndoCoinRecord_amounts := undo_amounts r,
      PUndoCoinRecord_public_keys := undo_public_keys r, PUndoCoinRecord_version := ucast (UndoCoinRecord_version r)\<rparr>"

definition proto_undo_block :: "'u runtime \<Rightarrow> UndoBlock \<Rightarrow> 'u PUndoBlock" where
  "proto_undo_block rt b = (PUndoBlock_new rt)
     \<lparr>PUndoBlock_transaction_hashes := transaction_hashes b,
      PUndoBlock_undo_coin_records := map (proto_undo_record rt) (undo_coin_records b)\<rparr>"

lemma fold_push_undo_coins:
  assumes "length as = length us" "length ks = length us"
  shows "fold (\<lambda>(u, a, k) p. PUndoCoinRecord_add_public_keys k (PUndoCoinRecord_add_amounts a (PUndoCoinRecord_add_utxo u p)))
      (zip us (zip as ks)) p
    = p\<lparr>PUndoCoinRecord_utxo := PUndoCoinRecord_utxo p @ us, PUndoCoinRecord_amounts := PUndoCoinRecord_amounts p @ as,
        PUndoCoinRecord_public_keys := PUndoCoinRecord_public_keys p @ ks\<rparr>"
  using assms
proof (induction us arbitrary: as ks p)
  case (Cons u us)
  then show ?case by (cases as; cases ks) (simp_all add: codec_simps)
qed simp

lemma fill_undo_record_ok:
  assumes "UndoCoinRecord_ok r"
  shows "fill_undo_record rt r = Inr (proto_undo_record rt r)"
  using assms unfolding fill_undo_record_def UndoCoinRecord_ok_def
  by (subst for_coins_ok, simp, simp)
    (subst fold_push_undo_coins, simp_all add: proto_undo_record_def PUndoCoinRecord_new_def codec_simps)

lemma fill_undo_record_short:
  "length (undo_amounts r) < length (undo_utxo r) \<or> length (undo_public_keys r) < length (undo_utxo r) \<Longrightarrow>
   fill_undo_record rt r = Inl UB_index_out_of_range"
  unfolding fill_undo_record_def by (rule for_coins_short) simp

text \<open>A loop over two vectors of the same length is a fold over their elements.\<close>

lemma res_fold_vectors:
  assumes "length rs = length hs"
  shows "res_fold (\<lambda>i s. res_bind (vec_at hs i) (\<lambda>h. res_bind (vec_at rs i) (\<lambda>r. body h r s))) [0..<length hs] s
    = res_fold (\<lambda>(h, r) s. body h r s) (zip hs rs) s"
proof -
  have "res_fold (\<lambda>i s. res_bind (vec_at hs i) (\<lambda>h. res_bind (vec_at rs i) (\<lambda>r. body h r s))) [0..<n] s
    = res_fold (\<lambda>(h, r) s. body h r s) (take n (zip hs rs)) s" if "n \<le> length hs" for n
    using that assms
  proof (induction n)
    case (Suc n)
    then show ?case by (auto simp: res_fold_append take_Suc_conv_app_nth intro!: res_bind_cong)
  qed simp
  from this [of "length hs"] show ?thesis using assms by simp
qed

lemma UndoBlock_serialize_ok:
  assumes "UndoBlock_ok b"
  shows "UndoBlock_serialize rt b = Inr (PUndoBlock_SerializeToString rt (proto_undo_block rt b))"
proof -
  let ?body = "\<lambda>h r p. res_bind (fill_undo_record rt r) (\<lambda>pr.
         Inr (PUndoBlock_add_undo_coin_records pr (PUndoBlock_add_transaction_hashes h p)))"
  have loop: "res_fold (\<lambda>(h, r) p. ?body h r p) (zip hs rs) p
    = Inr (p\<lparr>PUndoBlock_transaction_hashes := PUndoBlock_transaction_hashes p @ hs,
            PUndoBlock_undo_coin_records := PUndoBlock_undo_coin_records p @ map (proto_undo_record rt) rs\<rparr>)"
    if "length rs = length hs" "list_all UndoCoinRecord_ok rs" for hs rs p
    using that
  proof (induction hs arbitrary: rs p)
    case (Cons h hs)
    then show ?case by (cases rs) (simp_all add: fill_undo_record_ok codec_simps)
  qed simp
  have ok: "length (undo_coin_records b) = length (transaction_hashes b)" "list_all UndoCoinRecord_ok (undo_coin_records b)"
    using assms by (simp_all add: UndoBlock_ok_def)
  show ?thesis
    unfolding UndoBlock_serialize_def res_fold_vectors [OF ok(1)] loop [OF ok]
    by (simp add: proto_undo_block_def PUndoBlock_new_def)
qed

lemma read_undo_record_ok:
  assumes "UndoCoinRecord_ok r" "PUndoCoinRecord_utxo p = undo_utxo r" "PUndoCoinRecord_amounts p = undo_amounts r"
    "PUndoCoinRecord_public_keys p = undo_public_keys r" "PUndoCoinRecord_version p = ucast (UndoCoinRecord_version r)"
  shows "read_undo_record p = Inr r"
  using assms(1) unfolding read_undo_record_def assms(2-5) UndoCoinRecord_ok_def
  by (simp add: for_coins_collect UndoCoinRecord_new_def)

lemma UndoBlock_deserialize_proto:
  assumes "UndoBlock_ok b" "PUndoBlock_ParseFromString rt s (PUndoBlock_new rt) = Inr p"
    and "PUndoBlock_transaction_hashes p = transaction_hashes b"
    and "list_all2 (\<lambda>pr r. read_undo_record pr = Inr r) (PUndoBlock_undo_coin_records p) (undo_coin_records b)"
  shows "UndoBlock_deserialize rt s = Inr b"
proof -
  let ?body = "\<lambda>h pr (hs, rs). res_bind (read_undo_record pr) (\<lambda>r. Inr (hs @ [h], rs @ [r]))"
  have loop: "res_fold (\<lambda>(h, pr) s. ?body h pr s) (zip hs prs) (hs0, rs0) = Inr (hs0 @ hs, rs0 @ rs)"
    if "list_all2 (\<lambda>pr r. read_undo_record pr = Inr r) prs rs" "length hs = length rs" for hs prs rs hs0 rs0
    using that
  proof (induction prs rs arbitrary: hs hs0 rs0 rule: list_all2_induct)
    case (Cons pr prs r rs)
    then show ?case by (cases hs) simp_all
  qed simp
  have len: "length (PUndoBlock_undo_coin_records p) = length (transaction_hashes b)"
    "length (transaction_hashes b) = length (undo_coin_records b)"
    using assms(1,4) by (simp_all add: UndoBlock_ok_def list_all2_lengthD)
  have "(\<lambda>i (hs, rs). res_bind (vec_at (transaction_hashes b) i) (\<lambda>h.
      res_bind (vec_at (PUndoBlock_undo_coin_records p) i) (\<lambda>pr. res_bind (read_undo_record pr) (\<lambda>r. Inr (hs @ [h], rs @ [r])))))
    = (\<lambda>i s. res_bind (vec_at (transaction_hashes b) i) (\<lambda>h.
      res_bind (vec_at (PUndoBlock_undo_coin_records p) i) (\<lambda>pr. ?body h pr s)))"
    by (intro ext) (simp split: prod.split)
  then show ?thesis
    unfolding UndoBlock_deserialize_def assms(2,3)
    using res_fold_vectors [OF len(1), of ?body "([], [])"] loop [OF assms(4) len(2), of "[]" "[]"]
    by (simp add: assms(3) UndoBlock_new_def)
qed

context protobuf_runtime
begin

lemma proto_undo_record_wire:
  assumes "UndoCoinRecord_ok r" "UndoCoinRecord_weight r \<le> MAX_SIZE"
  shows "PUndoCoinRecord_plain rt (proto_undo_record rt r)"
    and "length (PUndoCoinRecord_wire rt (proto_undo_record rt r)) \<le> UndoCoinRecord_weight r"
proof -
  let ?m = "proto_undo_record rt r"
  show *: "PUndoCoinRecord_plain rt ?m"
    by (simp add: proto_undo_record_def PUndoCoinRecord_new_def PUndoCoinRecord_plain_def no_unknown)
  have len: "length (PUndoCoinRecord_utxo ?m) = length (undo_utxo r)" "length (PUndoCoinRecord_amounts ?m) = length (undo_utxo r)"
    "length (PUndoCoinRecord_public_keys ?m) = length (undo_utxo r)" "\<not> PUndoCoinRecord_is_coin_base ?m" "PUndoCoinRecord_height ?m = 0"
    using assms(1) by (simp_all add: proto_undo_record_def PUndoCoinRecord_new_def UndoCoinRecord_ok_def)
  have "5 * length (undo_utxo r) \<le> INT_MAX" using assms(2) by (simp add: MAX_SIZE_def UndoCoinRecord_weight_def)
  then show "length (PUndoCoinRecord_wire rt ?m) \<le> UndoCoinRecord_weight r"
    using written_uint32_le [of 1 "PUndoCoinRecord_version ?m"] written_packed_le [of 4 "PUndoCoinRecord_utxo ?m"]
      written_packed_le [of 5 "PUndoCoinRecord_amounts ?m"] written_packed_le [of 6 "PUndoCoinRecord_public_keys ?m"] * len
    unfolding UndoCoinRecord_weight_def
    by (simp only: PUndoCoinRecord_wire_eq length_append codec_simps unknown_bytes_def) simp
qed

lemma read_undo_record_merged:
  assumes "UndoCoinRecord_ok r" "UndoCoinRecord_weight r \<le> MAX_SIZE"
  shows "read_undo_record (PUndoCoinRecord_MergeFrom rt (proto_undo_record rt r) (PUndoCoinRecord_new rt)) = Inr r"
  unfolding PUndoCoinRecord_MergeFrom_new [OF proto_undo_record_wire(1) [OF assms]]
  by (rule read_undo_record_ok [OF assms(1)]) (simp_all add: PUndoCoinRecord_copy_def proto_undo_record_def)

lemma UndoBlock_serialize_wire:
  assumes "UndoBlock_ok b" "UndoBlock_weight b \<le> MAX_SIZE"
  shows "\<exists>s. UndoBlock_serialize rt b = Inr s \<and> UndoBlock_deserialize rt s = Inr b \<and> length s \<le> UndoBlock_weight b"
proof -
  let ?m = "proto_undo_block rt b"
  have rec: "UndoCoinRecord_ok r \<and> UndoCoinRecord_weight r \<le> MAX_SIZE" if "r \<in> set (undo_coin_records b)" for r
  proof -
    have "6 + UndoCoinRecord_weight r \<le> (\<Sum>r\<leftarrow>undo_coin_records b. 6 + UndoCoinRecord_weight r)"
      using that by (intro member_le_sum_list) auto
    then show ?thesis using assms that by (auto simp: UndoBlock_ok_def UndoBlock_weight_def list_all_iff)
  qed
  have plain: "PUndoBlock_plain rt ?m"
    using rec by (auto simp: proto_undo_block_def PUndoBlock_new_def PUndoBlock_plain_def no_unknown list_all_iff
        proto_undo_record_wire(1))
  let ?hashes = "if 0 < UInt32SizeRepeated rt (transaction_hashes b)
      then WriteUInt32Packed rt 1 (transaction_hashes b) (UInt32SizeRepeated rt (transaction_hashes b)) else ''''"
  let ?records = "concat (map (\<lambda>b. InternalWriteMessage rt 2 (length b) b)
      (map (\<lambda>r. PUndoCoinRecord_wire rt (proto_undo_record rt r)) (undo_coin_records b)))"
  have "length ?records \<le> (\<Sum>r\<leftarrow>undo_coin_records b. 6 + UndoCoinRecord_weight r)"
    using rec by (intro written_messages_le) (fastforce simp: proto_undo_record_wire(2) MAX_SIZE_def)+
  moreover have "length ?hashes \<le> 6 + 5 * length (transaction_hashes b)"
    using assms(2) by (intro written_packed_le) (simp_all add: UndoBlock_weight_def MAX_SIZE_def)
  moreover have "PUndoBlock_wire rt ?m = ?hashes @ ?records"
    by (simp add: PUndoBlock_wire_eq proto_undo_block_def PUndoBlock_new_def unknown_bytes_def no_unknown comp_def)
  ultimately have len: "length (PUndoBlock_wire rt ?m) \<le> UndoBlock_weight b"
    unfolding UndoBlock_weight_def by (simp only: length_append)
  then have w: "length (PUndoBlock_wire rt ?m) \<le> MAX_SIZE" using assms(2) by linarith
  have "UndoBlock_deserialize rt (PUndoBlock_SerializeToString rt ?m) = Inr b"
    by (rule UndoBlock_deserialize_proto [OF assms(1) PUndoBlock_roundtrip_new [OF plain w]])
      (use rec in \<open>auto simp: PUndoBlock_copy_def proto_undo_block_def list_all2_map1 list_all2_same
        intro: read_undo_record_merged\<close>)
  moreover have "PUndoBlock_SerializeToString rt ?m = PUndoBlock_wire rt ?m"
    using w by (simp add: PUndoBlock_SerializeToString_def SerializeToString_def case_prod_unfold Let_def
        PUndoBlock_size_length flip: PUndoBlock_wire_def)
  ultimately show ?thesis using len by (simp add: UndoBlock_serialize_ok assms(1))
qed

lemma UndoBlock_deserialize_serialize:
  assumes "UndoBlock_ok b" "UndoBlock_weight b \<le> MAX_SIZE"
  shows "res_bind (UndoBlock_serialize rt b) (UndoBlock_deserialize rt) = Inr b"
  using UndoBlock_serialize_wire [OF assms] by auto

end

end
