(* ===== verification/Chain_Writer.thy ===== *)
theory Chain_Writer
  imports File_System Block_Info Coin_Records Crypto
begin

text \<open>
  \<open>ChainWriter\<close> of \<open>core/src/chain_writer/chain_writer.cpp\<close>: blocks and undo blocks
  are appended to numbered files, a new file being started when the current one is full, and read
  back by file name and byte range. The arithmetic is the code's: offsets and file numbers are
  16-bit and wrap, the room left is an unsigned 32-bit difference. The locale \<open>append_log\<close>
  states what the chain relies on (what was written can be read back, and stays readable); it is
  interpreted on the block files and on the undo files.
\<close>

section \<open>State and constants\<close>

record ChainWriter =
  current_block_file_number :: uint16
  current_block_offset :: uint16
  current_undo_file_number :: uint16
  current_undo_offset :: uint16

definition ChainWriter_new :: ChainWriter where
  "ChainWriter_new = \<lparr>current_block_file_number = 0, current_block_offset = 0,
     current_undo_file_number = 0, current_undo_offset = 0\<rparr>"

definition get_file_extension :: string where "get_file_extension = ''data''"
definition get_block_filename :: string where "get_block_filename = ''blocks''"
definition get_max_block_file_size :: uint16 where "get_max_block_file_size = 1000"
definition get_undo_filename :: string where "get_undo_filename = ''undo_blocks''"
definition get_max_undo_file_size :: uint16 where "get_max_undo_file_size = 1000"
definition get_data_directory :: string where "get_data_directory = ''data''"

definition block_path :: "uint16 \<Rightarrow> string" where
  "block_path n = get_data_directory @ ''/'' @ get_block_filename @ to_string (unat n) @ ''.'' @ get_file_extension"

definition undo_path :: "uint16 \<Rightarrow> string" where
  "undo_path n = get_data_directory @ ''/'' @ get_undo_filename @ to_string (unat n) @ ''.'' @ get_file_extension"

section \<open>Operations\<close>

text \<open>\<open>fwrite(s.c_str(), 1, N, fp)\<close> with \<open>N = s.size() + 1\<close>: the string and its terminator.\<close>

definition bytes_written :: "uint32 \<Rightarrow> string \<Rightarrow> string" where
  "bytes_written N s = take (unat N) (s @ [CHR 0x00])"

definition write_block ::
  "string \<Rightarrow> ChainWriter \<times> file_system \<Rightarrow> (FileInfo option \<times> ChainWriter \<times> file_system) result" where
  "write_block s = (\<lambda>(w, fs).
     let N = (of_nat (length s + 1) :: uint32);
         w = (if ucast get_max_block_file_size - ucast (current_block_offset w) \<le> N
              then w\<lparr>current_block_offset := 0, current_block_file_number := current_block_file_number w + 1\<rparr>
              else w)
     in res_bind (if \<not> is_directory get_data_directory fs then create_directory get_data_directory fs else Inr fs) (\<lambda>fs.
        let path = block_path (current_block_file_number w)
        in case fopen_append path fs of
             None \<Rightarrow> Inr (None, w, fs)
           | Some fs \<Rightarrow>
               let fs = fwrite path (bytes_written N s) fs;
                   start = current_block_offset w;
                   stop = (ucast (ucast (current_block_offset w) + N) :: uint16)
               in Inr (Some (FileInfo_new path start stop), w\<lparr>current_block_offset := stop\<rparr>, fs)))"

definition write_undo_block ::
  "string \<Rightarrow> ChainWriter \<times> file_system \<Rightarrow> FileInfo option \<times> ChainWriter \<times> file_system" where
  "write_undo_block s = (\<lambda>(w, fs).
     let N = (of_nat (length s + 1) :: uint32);
         w = (if ucast get_max_undo_file_size - ucast (current_undo_offset w) < N
              then w\<lparr>current_undo_offset := 0, current_undo_file_number := current_undo_file_number w + 1\<rparr>
              else w);
         path = undo_path (current_undo_file_number w)
     in case fopen_append path fs of
          None \<Rightarrow> (None, w, fs)
        | Some fs \<Rightarrow>
            let fs = fwrite path (bytes_written N s) fs;
                start = current_undo_offset w;
                stop = (ucast (ucast (current_undo_offset w) + N) :: uint16)
            in (Some (FileInfo_new path start stop), w\<lparr>current_undo_offset := stop\<rparr>, fs))"

text \<open>
  \<open>read_block\<close>: the length is a signed difference and sizes an array on the stack; the
  string is built from one byte less. A short read leaves part of the buffer uninitialised.
\<close>

definition read_block :: "FileInfo \<Rightarrow> file_system \<Rightarrow> string result" where
  "read_block loc fs =
     (let len = int (unat (FileInfo_end loc)) - int (unat (FileInfo_start loc))
      in if len < 0 then Inl UB_negative_array_size
         else case fopen_read (file_name loc) fs of
           None \<Rightarrow> Inr ''''
         | Some content \<Rightarrow>
             let buffer = take (nat len) (drop (unat (FileInfo_start loc)) content)
             in if len = 0 then Inl Thrown_length_error
                else if length buffer < nat (len - 1) then Inl UB_uninitialised_read
                else Inr (take (nat (len - 1)) buffer))"

definition read_undo_block :: "FileInfo \<Rightarrow> file_system \<Rightarrow> string result" where
  "read_undo_block = read_block"

text \<open>
  \<open>make_undo_block\<close>: the three vectors are declared outside the loop over the transactions
  and copied into each record, so they accumulate.
\<close>

definition make_undo_step ::
  "'u runtime \<Rightarrow> garbage \<Rightarrow> Transaction
     \<Rightarrow> uint32 list \<times> UndoCoinRecord list \<times> uint32 list \<times> uint32 list \<times> uint32 list
     \<Rightarrow> uint32 list \<times> UndoCoinRecord list \<times> uint32 list \<times> uint32 list \<times> uint32 list" where
  "make_undo_step rt g tx = (\<lambda>(hs, rs, us, as, ks).
     let hs = hs @ [CryptCrypto_hash g (Transaction_serialize rt tx)];
         us = us @ map (\<lambda>i. ucast (utxo_index i)) (transaction_inputs tx);
         as = as @ map amount (transaction_outputs tx);
         ks = ks @ map public_key (transaction_outputs tx)
     in (hs, rs @ [UndoCoinRecord_new (Transaction_version tx) us as ks], us, as, ks))"

definition make_undo_block :: "'u runtime \<Rightarrow> garbage \<Rightarrow> Block \<Rightarrow> UndoBlock" where
  "make_undo_block rt g b =
     (let (hs, rs, _) = fold (make_undo_step rt g) (transactions b) ([], [], [], [], [])
      in UndoBlock_new hs rs)"

definition ChainWriter_store_block ::
  "'u runtime \<Rightarrow> garbage \<Rightarrow> Block \<Rightarrow> uint32 \<Rightarrow> ChainWriter \<times> file_system
     \<Rightarrow> (BlockRecord \<times> ChainWriter \<times> file_system) result" where
  "ChainWriter_store_block rt g b height' st =
     (let undo_block = make_undo_block rt g b
      in res_bind (write_block (Block_serialize rt b) st) (\<lambda>(block_info, st).
         res_bind (UndoBlock_serialize rt undo_block) (\<lambda>serialized_undo.
         let (undo_info, st) = write_undo_block serialized_undo st;
             h = Block_block_header b;
             header = BlockHeader_new (BlockHeader_version h) (previous_block_hash h) (merkle_root h)
               (difficulty_target h) (nonce h) (timestamp h)
         in case block_info of
              None \<Rightarrow> Inl UB_null_dereference
            | Some bi \<Rightarrow> (case undo_info of
                None \<Rightarrow> Inl UB_null_dereference
              | Some ui \<Rightarrow> Inr (BlockRecord_new header (of_nat (length (transactions b))) height' bi ui, st)))))"

section \<open>What a location holds\<close>

definition located :: "FileInfo \<Rightarrow> string \<Rightarrow> file_system \<Rightarrow> bool" where
  "located loc s fs \<longleftrightarrow>
     (case fopen_read (file_name loc) fs of
        None \<Rightarrow> False
      | Some c \<Rightarrow> unat (FileInfo_start loc) + length s + 1 = unat (FileInfo_end loc) \<and>
          take (length s + 1) (drop (unat (FileInfo_start loc)) c) = s @ [CHR 0x00])"

lemma located_read: "located loc s fs \<Longrightarrow> read_block loc fs = Inr s"
proof -
  assume loc: "located loc s fs"
  then obtain c where c: "fopen_read (file_name loc) fs = Some c"
    and e: "unat (FileInfo_end loc) = unat (FileInfo_start loc) + length s + 1"
    and t: "take (length s + 1) (drop (unat (FileInfo_start loc)) c) = s @ [CHR 0x00]"
    by (auto simp: located_def split: option.splits)
  have len: "int (unat (FileInfo_end loc)) - int (unat (FileInfo_start loc)) = int (length s + 1)"
    using e by simp
  show ?thesis
    unfolding read_block_def len c by (simp add: t [simplified] Let_def nat_add_distrib)
qed

lemma located_grows: "located loc s fs \<Longrightarrow> fs_grows fs fs' \<Longrightarrow> located loc s fs'"
proof -
  assume loc: "located loc s fs" and g: "fs_grows fs fs'"
  from loc obtain c where c: "file_name loc \<notin> set (denied fs)" "files fs (file_name loc) = Some c" "file_name loc \<noteq> ''''"
    and e: "unat (FileInfo_start loc) + length s + 1 = unat (FileInfo_end loc)"
    and t: "take (length s + 1) (drop (unat (FileInfo_start loc)) c) = s @ [CHR 0x00]"
    by (auto simp: located_def fopen_read_def split: option.splits if_splits)
  from g c obtain d where d: "files fs' (file_name loc) = Some (c @ d)" "denied fs' = denied fs"
    unfolding fs_grows_def by blast
  have "length s + 1 \<le> length (drop (unat (FileInfo_start loc)) c)"
    using arg_cong [OF t, of length] by simp
  then have "take (length s + 1) (drop (unat (FileInfo_start loc)) (c @ d)) = s @ [CHR 0x00]"
    using t by simp
  with c d e show ?thesis by (simp add: located_def fopen_read_def)
qed

section \<open>The append log\<close>

text \<open>
  What the chain relies on: a write of something that fits succeeds as long as file numbers are left
  (\<open>ok k\<close>: \<open>k\<close> more writes are possible), the location it returns holds what was written
  and keeps holding it whatever is written later, and reading a location gives what it holds.
\<close>

fun append_all :: "(string \<Rightarrow> 's \<Rightarrow> ('l \<times> 's) option) \<Rightarrow> string list \<Rightarrow> 's \<Rightarrow> ('l list \<times> 's) option" where
  "append_all write [] s = Some ([], s)"
| "append_all write (x # xs) s =
     (case write x s of
        None \<Rightarrow> None
      | Some (l, s') \<Rightarrow> (case append_all write xs s' of None \<Rightarrow> None | Some (ls, s'') \<Rightarrow> Some (l # ls, s'')))"

locale append_log =
  fixes put :: "string \<Rightarrow> 's \<Rightarrow> ('l \<times> 's) option"
    and look :: "'l \<Rightarrow> 's \<Rightarrow> string result"
    and held :: "'l \<Rightarrow> string \<Rightarrow> 's \<Rightarrow> bool"
    and ok :: "nat \<Rightarrow> 's \<Rightarrow> bool"
    and fits :: "string \<Rightarrow> bool"
  assumes put_ok: "ok (Suc k) s \<Longrightarrow> fits x \<Longrightarrow> \<exists>l s'. put x s = Some (l, s') \<and> ok k s' \<and> held l x s'"
    and held_put: "held l x s \<Longrightarrow> put y s = Some (l', s') \<Longrightarrow> held l x s'"
    and held_look: "held l x s \<Longrightarrow> look l s = Inr x"
begin

lemma held_append_all: "held l x s \<Longrightarrow> append_all put ys s = Some (ls, s') \<Longrightarrow> held l x s'"
proof (induction ys arbitrary: s ls)
  case (Cons y ys)
  from Cons.prems(2) obtain l1 s1 ls1 where "put y s = Some (l1, s1)" "append_all put ys s1 = Some (ls1, s')"
    by (auto split: option.splits)
  then show ?case using Cons.IH held_put [OF Cons.prems(1)] by blast
qed simp

lemma append_all_look:
  "ok (length xs + k) s \<Longrightarrow> list_all fits xs \<Longrightarrow>
   \<exists>ls s'. append_all put xs s = Some (ls, s') \<and> ok k s' \<and> map (\<lambda>l. look l s') ls = map Inr xs"
proof (induction xs arbitrary: s)
  case (Cons x xs)
  then obtain l s1 where w: "put x s = Some (l, s1)" "ok (length xs + k) s1" "held l x s1"
    using put_ok [of "length xs + k" s x] by auto
  have "list_all fits xs" using Cons.prems(2) by simp
  from Cons.IH [OF w(2) this] obtain ls s' where
    ls: "append_all put xs s1 = Some (ls, s')" "ok k s'" "map (\<lambda>l. look l s') ls = map Inr xs"
    by blast
  have "look l s' = Inr x" using held_append_all [OF w(3) ls(1)] by (rule held_look)
  with w ls show ?case by simp
qed simp

end

section \<open>Arithmetic of the offsets\<close>

lemma room_left: "unat off \<le> 1000 \<Longrightarrow> unat (ucast (1000::uint16) - ucast (off :: uint16) :: uint32) = 1000 - unat off"
  by (simp add: unat_sub_if' unsigned_ucast_eq take_bit_nat_eq_self)

lemma stop_offset:
  assumes "unat off + n < 65536"
  shows "unat (ucast (ucast off + (of_nat n :: uint32)) :: uint16) = unat (off :: uint16) + n"
proof -
  have "unat (of_nat n :: uint32) = n" using assms by (simp add: unat_of_nat take_bit_nat_eq_self)
  moreover have "unat (ucast off :: uint32) = unat off" using assms by (simp add: unsigned_ucast_eq take_bit_nat_eq_self)
  ultimately have "unat (ucast off + (of_nat n::uint32)) = unat off + n"
    using assms by (simp add: unat_word_ariths)
  then show ?thesis using assms by (simp add: unsigned_ucast_eq take_bit_nat_eq_self)
qed

lemma unat_size: "n \<le> 1000 \<Longrightarrow> unat (of_nat n :: uint32) = n"
  by (simp add: unat_of_nat take_bit_nat_eq_self)

lemma bytes_written_all: "length s < 1000 \<Longrightarrow> bytes_written (of_nat (length s + 1)) s = s @ [CHR 0x00]"
  unfolding bytes_written_def by (subst unat_size) simp_all

lemma next_number: "unat (n :: uint16) < 65535 \<Longrightarrow> unat (n + 1) = unat n + 1"
  by (simp add: unat_word_ariths)

lemma path_inject [simp]:
  "block_path m = block_path n \<longleftrightarrow> m = n" "undo_path m = undo_path n \<longleftrightarrow> m = n"
  by (simp_all add: block_path_def undo_path_def)

lemma path_not_empty [simp]: "block_path n \<noteq> ''''" "undo_path n \<noteq> ''''"
  by (simp_all add: block_path_def undo_path_def get_data_directory_def)

lemma block_path_not_undo [simp]: "block_path m \<noteq> undo_path n" "undo_path n \<noteq> block_path m"
  by (simp_all add: block_path_def undo_path_def get_data_directory_def get_block_filename_def get_undo_filename_def)

lemma dropWhile_no_slash:
  "CHR ''/'' \<notin> set xs \<Longrightarrow> dropWhile (\<lambda>c. c \<noteq> CHR ''/'') (xs @ CHR ''/'' # ys) = CHR ''/'' # ys"
  by (induction xs) auto

lemma directory_of_path: "CHR ''/'' \<notin> set p \<Longrightarrow> directory_of (d @ ''/'' @ p) = d"
  using dropWhile_no_slash [of "rev p" "rev d"] by (simp add: directory_of_def)

lemma slash_notin_to_string [simp]: "CHR ''/'' \<notin> set (to_string n)"
proof
  assume "CHR ''/'' \<in> set (to_string n)"
  then obtain d where "d < 10" "CHR ''/'' = digit_char d" using to_string_digits by blast
  then have "(of_char (CHR ''/'') :: nat) = 48 + d" by simp
  then show False by simp
qed

lemma directory_of_paths [simp]: "directory_of (block_path n) = ''data''" "directory_of (undo_path n) = ''data''"
  using directory_of_path [of "get_block_filename @ to_string (unat n) @ ''.'' @ get_file_extension" "''data''"]
    directory_of_path [of "get_undo_filename @ to_string (unat n) @ ''.'' @ get_file_extension" "''data''"]
  by (simp_all add: block_path_def undo_path_def get_data_directory_def get_block_filename_def
      get_undo_filename_def get_file_extension_def)

section \<open>The block files as an append log\<close>

text \<open>
  The current file is as long as the current offset says, and no file with a higher number exists;
  nothing is denied and the data directory is, or can be made, a directory.
\<close>

definition current_file :: "(uint16 \<Rightarrow> string) \<Rightarrow> uint16 \<Rightarrow> uint16 \<Rightarrow> file_system \<Rightarrow> bool" where
  "current_file path n off fs \<longleftrightarrow>
     length (case files fs (path n) of None \<Rightarrow> '''' | Some c \<Rightarrow> c) = unat off \<and>
     (\<forall>m. n < m \<longrightarrow> files fs (path m) = None)"

definition block_log_ok :: "nat \<Rightarrow> ChainWriter \<times> file_system \<Rightarrow> bool" where
  "block_log_ok k = (\<lambda>(w, fs).
     denied fs = [] \<and> (is_directory ''data'' fs \<or> files fs ''data'' = None) \<and>
     unat (current_block_offset w) \<le> 1000 \<and> unat (current_block_file_number w) + k \<le> 65535 \<and>
     current_file block_path (current_block_file_number w) (current_block_offset w) fs)"

definition undo_log_ok :: "nat \<Rightarrow> ChainWriter \<times> file_system \<Rightarrow> bool" where
  "undo_log_ok k = (\<lambda>(w, fs).
     denied fs = [] \<and> is_directory ''data'' fs \<and>
     unat (current_undo_offset w) \<le> 1000 \<and> unat (current_undo_file_number w) + k \<le> 65535 \<and>
     current_file undo_path (current_undo_file_number w) (current_undo_offset w) fs)"

definition fits_file :: "string \<Rightarrow> bool" where
  "fits_file s \<longleftrightarrow> length s < 1000"

text \<open>Starting the next file, and appending to the current one.\<close>

lemma current_file_next:
  assumes "current_file path n off fs" "unat n < 65535"
  shows "current_file path (n + 1) 0 fs"
proof -
  have "n < n + 1" using next_number [OF assms(2)] by (simp add: word_less_nat_alt)
  moreover have "n < m" if "n + 1 < m" for m using that next_number [OF assms(2)] by (simp add: word_less_nat_alt)
  ultimately show ?thesis using assms(1) by (simp add: current_file_def)
qed

lemma current_file_append:
  assumes "current_file path n off fs" "inj path" "unat off + length s + 1 < 65536"
    and "fopen_append (path n) fs = Some fs1"
  shows "current_file path n (ucast (ucast off + (of_nat (length s + 1) :: uint32))) (fwrite (path n) (s @ [CHR 0x00]) fs1)"
    and "denied fs = [] \<Longrightarrow> path n \<noteq> '''' \<Longrightarrow> located (FileInfo_new (path n) off (ucast (ucast off + (of_nat (length s + 1) :: uint32)))) s
      (fwrite (path n) (s @ [CHR 0x00]) fs1)"
proof -
  let ?c = "case files fs (path n) of None \<Rightarrow> '''' | Some c \<Rightarrow> c"
  have fs1: "fs1 = fs\<lparr>files := (files fs)(path n \<mapsto> ?c)\<rparr>"
    using assms(4) by (auto simp: fopen_append_def split: if_splits)
  have c: "length ?c = unat off" and later: "\<forall>m. n < m \<longrightarrow> files fs (path m) = None"
    using assms(1) by (auto simp: current_file_def)
  have "path m \<noteq> path n" if "n < m" for m using that assms(2) by (auto dest: injD)
  moreover have stop: "unat (ucast (ucast off + (of_nat (length s + 1) :: uint32)) :: uint16) = unat off + (length s + 1)"
    using assms(3) by (intro stop_offset) simp
  ultimately show "current_file path n (ucast (ucast off + (of_nat (length s + 1) :: uint32))) (fwrite (path n) (s @ [CHR 0x00]) fs1)"
    using c later unfolding current_file_def fs1 fwrite_def by (simp del: of_nat_add of_nat_Suc)
  assume "denied fs = []" "path n \<noteq> ''''"
  then show "located (FileInfo_new (path n) off (ucast (ucast off + (of_nat (length s + 1) :: uint32)))) s
      (fwrite (path n) (s @ [CHR 0x00]) fs1)"
    unfolding located_def fs1 fwrite_def
    using stop by (simp add: fopen_read_def FileInfo_new_def c del: of_nat_add of_nat_Suc)
qed

definition log_block :: "string \<Rightarrow> ChainWriter \<times> file_system \<Rightarrow> (FileInfo \<times> ChainWriter \<times> file_system) option" where
  "log_block s st = (case write_block s st of Inr (Some loc, st') \<Rightarrow> Some (loc, st') | _ \<Rightarrow> None)"

definition log_undo :: "string \<Rightarrow> ChainWriter \<times> file_system \<Rightarrow> (FileInfo \<times> ChainWriter \<times> file_system) option" where
  "log_undo s st = (case write_undo_block s st of (Some loc, st') \<Rightarrow> Some (loc, st') | _ \<Rightarrow> None)"

lemma write_block_grows: "write_block s (w, fs) = Inr (loc, w', fs') \<Longrightarrow> fs_grows fs fs'"
  unfolding write_block_def Let_def prod.case
  by (auto split: if_splits option.splits elim!: fs_grows_trans [OF fs_grows_create]
      fs_grows_trans [OF fs_grows_fopen] intro: fs_grows_fwrite fs_grows_create)

lemma write_undo_block_grows: "write_undo_block s (w, fs) = (loc, w', fs') \<Longrightarrow> fs_grows fs fs'"
  unfolding write_undo_block_def Let_def prod.case
  by (auto split: option.splits intro: fs_grows_trans [OF fs_grows_fopen fs_grows_fwrite])

lemma inj_block_path: "inj block_path" and inj_undo_path: "inj undo_path"
  by (auto intro: injI)

lemma fopen_append_ok:
  "denied fs = [] \<Longrightarrow> is_directory ''data'' fs \<Longrightarrow> directory_of p = ''data'' \<Longrightarrow> \<exists>fs1. fopen_append p fs = Some fs1"
  by (simp add: fopen_append_def)

lemma mkdir_ok:
  assumes "denied fs = []" "is_directory ''data'' fs \<or> files fs ''data'' = None"
  shows "\<exists>fs0. (if \<not> is_directory ''data'' fs then create_directory ''data'' fs else Inr fs) = Inr fs0 \<and>
    denied fs0 = [] \<and> is_directory ''data'' fs0 \<and> files fs0 = files fs"
  using assms by (auto simp: create_directory_def is_directory_def)

lemma FileInfo_file_name: "file_name (FileInfo_new p s e) = p"
  by (simp add: FileInfo_new_def)

text \<open>What one write does, from a good state: roll over or not, then append.\<close>

lemma write_block_ok:
  assumes "block_log_ok (Suc k) (w, fs)" "fits_file s"
  shows "\<exists>loc st'. write_block s (w, fs) = Inr (Some loc, st') \<and> block_log_ok k st' \<and> located loc s (snd st') \<and>
    file_name loc \<in> range block_path"
proof -
  let ?N = "of_nat (length s + 1) :: uint32"
  let ?roll = "1000 - unat (current_block_offset w) \<le> length s + 1"
  let ?w = "if ?roll then w\<lparr>current_block_offset := 0, current_block_file_number := current_block_file_number w + 1\<rparr> else w"
  have s: "length s < 1000" using assms(2) by (simp add: fits_file_def)
  have ok: "denied fs = []" "is_directory ''data'' fs \<or> files fs ''data'' = None"
    "unat (current_block_offset w) \<le> 1000" "unat (current_block_file_number w) + Suc k \<le> 65535"
    "current_file block_path (current_block_file_number w) (current_block_offset w) fs"
    using assms(1) by (simp_all add: block_log_ok_def)
  have N: "unat ?N = length s + 1" using s by (intro unat_size) simp
  have roll: "ucast get_max_block_file_size - ucast (current_block_offset w) \<le> ?N \<longleftrightarrow> ?roll"
    unfolding get_max_block_file_size_def word_le_nat_alt room_left [OF ok(3)] N ..
  obtain fs0 where fs0: "(if \<not> is_directory ''data'' fs then create_directory ''data'' fs else Inr fs) = Inr fs0"
    "denied fs0 = []" "is_directory ''data'' fs0" "files fs0 = files fs"
    using mkdir_ok [OF ok(1,2)] by blast
  have cur: "current_file block_path (current_block_file_number ?w) (current_block_offset ?w) fs0"
    using current_file_next [OF ok(5)] ok(4,5) fs0(4) by (simp add: current_file_def)
  have small: "unat (current_block_offset ?w) + length s + 1 < 65536" "unat (current_block_offset ?w) + (length s + 1) \<le> 1000"
    using s by auto
  obtain fs1 where fs1: "fopen_append (block_path (current_block_file_number ?w)) fs0 = Some fs1"
    using fopen_append_ok [OF fs0(2,3)] directory_of_paths by blast
  define stop :: uint16 where "stop = ucast (ucast (current_block_offset ?w) + ?N)"
  define fs2 where "fs2 = fwrite (block_path (current_block_file_number ?w)) (s @ [CHR 0x00]) fs1"
  note app = current_file_append [OF cur inj_block_path small(1) fs1, folded stop_def fs2_def]
  have stop: "unat stop \<le> 1000"
    unfolding stop_def using small(2) by (subst stop_offset) simp_all
  have fs2: "denied fs2 = []" "is_directory ''data'' fs2"
    using fs1 fs0(2,3) by (auto simp: fs2_def fwrite_def fopen_append_def is_directory_def split: if_splits)
  have "unat (current_block_file_number ?w) + k \<le> 65535"
    using ok(4) next_number [of "current_block_file_number w"] by simp
  then have "block_log_ok k (?w\<lparr>current_block_offset := stop\<rparr>, fs2)"
    using app(1) stop fs2 by (simp add: block_log_ok_def)
  moreover have "write_block s (w, fs) =
      Inr (Some (FileInfo_new (block_path (current_block_file_number ?w)) (current_block_offset ?w) stop),
        ?w\<lparr>current_block_offset := stop\<rparr>, fs2)"
    unfolding write_block_def prod.case Let_def roll get_data_directory_def fs0(1) res_bind_simps fs1
      bytes_written_all [OF s] option.case stop_def fs2_def ..
  ultimately show ?thesis using app(2) [OF fs0(2) path_not_empty(1)] by (auto simp: FileInfo_file_name)
qed

lemma write_undo_block_ok:
  assumes "undo_log_ok (Suc k) (w, fs)" "fits_file s"
  shows "\<exists>loc st'. write_undo_block s (w, fs) = (Some loc, st') \<and> undo_log_ok k st' \<and> located loc s (snd st') \<and>
    file_name loc \<in> range undo_path"
proof -
  let ?N = "of_nat (length s + 1) :: uint32"
  let ?roll = "1000 - unat (current_undo_offset w) < length s + 1"
  let ?w = "if ?roll then w\<lparr>current_undo_offset := 0, current_undo_file_number := current_undo_file_number w + 1\<rparr> else w"
  have s: "length s < 1000" using assms(2) by (simp add: fits_file_def)
  have ok: "denied fs = []" "is_directory ''data'' fs"
    "unat (current_undo_offset w) \<le> 1000" "unat (current_undo_file_number w) + Suc k \<le> 65535"
    "current_file undo_path (current_undo_file_number w) (current_undo_offset w) fs"
    using assms(1) by (simp_all add: undo_log_ok_def)
  have N: "unat ?N = length s + 1" using s by (intro unat_size) simp
  have roll: "ucast get_max_undo_file_size - ucast (current_undo_offset w) < ?N \<longleftrightarrow> ?roll"
    unfolding get_max_undo_file_size_def word_less_nat_alt room_left [OF ok(3)] N ..
  have cur: "current_file undo_path (current_undo_file_number ?w) (current_undo_offset ?w) fs"
    using current_file_next [OF ok(5)] ok(4,5) by simp
  have small: "unat (current_undo_offset ?w) + length s + 1 < 65536" "unat (current_undo_offset ?w) + (length s + 1) \<le> 1000"
    using s by auto
  obtain fs1 where fs1: "fopen_append (undo_path (current_undo_file_number ?w)) fs = Some fs1"
    using fopen_append_ok [OF ok(1,2)] directory_of_paths by blast
  define stop :: uint16 where "stop = ucast (ucast (current_undo_offset ?w) + ?N)"
  define fs2 where "fs2 = fwrite (undo_path (current_undo_file_number ?w)) (s @ [CHR 0x00]) fs1"
  note app = current_file_append [OF cur inj_undo_path small(1) fs1, folded stop_def fs2_def]
  have stop: "unat stop \<le> 1000"
    unfolding stop_def using small(2) by (subst stop_offset) simp_all
  have fs2: "denied fs2 = []" "is_directory ''data'' fs2"
    using fs1 ok(1,2) by (auto simp: fs2_def fwrite_def fopen_append_def is_directory_def split: if_splits)
  have "unat (current_undo_file_number ?w) + k \<le> 65535"
    using ok(4) next_number [of "current_undo_file_number w"] by simp
  then have "undo_log_ok k (?w\<lparr>current_undo_offset := stop\<rparr>, fs2)"
    using app(1) stop fs2 by (simp add: undo_log_ok_def)
  moreover have "write_undo_block s (w, fs) =
      (Some (FileInfo_new (undo_path (current_undo_file_number ?w)) (current_undo_offset ?w) stop),
        ?w\<lparr>current_undo_offset := stop\<rparr>, fs2)"
    unfolding write_undo_block_def prod.case Let_def roll fs1 bytes_written_all [OF s] option.case stop_def fs2_def ..
  ultimately show ?thesis using app(2) [OF ok(1) path_not_empty(2)] by (auto simp: FileInfo_file_name)
qed

interpretation block_log: append_log log_block "\<lambda>loc st. read_block loc (snd st)"
  "\<lambda>loc s st. located loc s (snd st)" block_log_ok fits_file
proof (unfold_locales, goal_cases)
  case (1 k st x)
  then show ?case using write_block_ok [of k "fst st" "snd st" x] by (fastforce simp: log_block_def)
next
  case (2 l x st y l' st')
  then have "write_block y st = Inr (Some l', st')"
    by (auto simp: log_block_def split: sum.splits prod.splits option.splits)
  then have "fs_grows (snd st) (snd st')"
    using write_block_grows [of y "fst st" "snd st" "Some l'" "fst st'" "snd st'"] by simp
  with 2(1) show ?case by (rule located_grows)
qed (rule located_read)

interpretation undo_log: append_log log_undo "\<lambda>loc st. read_undo_block loc (snd st)"
  "\<lambda>loc s st. located loc s (snd st)" undo_log_ok fits_file
proof (unfold_locales, goal_cases)
  case (1 k st x)
  then show ?case using write_undo_block_ok [of k "fst st" "snd st" x] by (fastforce simp: log_undo_def)
next
  case (2 l x st y l' st')
  then have "write_undo_block y st = (Some l', st')"
    by (auto simp: log_undo_def split: prod.splits option.splits)
  then have "fs_grows (snd st) (snd st')"
    using write_undo_block_grows [of y "fst st" "snd st" "Some l'" "fst st'" "snd st'"] by simp
  with 2(1) show ?case by (rule located_grows)
qed (simp add: read_undo_block_def located_read)

section \<open>Undo blocks\<close>

text \<open>The record of transaction \<open>i\<close> has the inputs and outputs of all transactions up to it.\<close>

definition undo_record_upto :: "Transaction list \<Rightarrow> nat \<Rightarrow> UndoCoinRecord" where
  "undo_record_upto txs i = UndoCoinRecord_new (Transaction_version (txs ! i))
     (concat (map (\<lambda>tx. map (\<lambda>i. ucast (utxo_index i)) (transaction_inputs tx)) (take (Suc i) txs)))
     (concat (map (\<lambda>tx. map amount (transaction_outputs tx)) (take (Suc i) txs)))
     (concat (map (\<lambda>tx. map public_key (transaction_outputs tx)) (take (Suc i) txs)))"

lemma make_undo_fold:
  "fold (make_undo_step rt g) txs ([], [], [], [], []) =
     (map (\<lambda>tx. CryptCrypto_hash g (Transaction_serialize rt tx)) txs,
      map (undo_record_upto txs) [0..<length txs],
      concat (map (\<lambda>tx. map (\<lambda>i. ucast (utxo_index i)) (transaction_inputs tx)) txs),
      concat (map (\<lambda>tx. map amount (transaction_outputs tx)) txs),
      concat (map (\<lambda>tx. map public_key (transaction_outputs tx)) txs))"
proof (induction txs rule: rev_induct)
  case (snoc tx txs)
  have init: "map (undo_record_upto (txs @ [tx])) [0..<length txs] = map (undo_record_upto txs) [0..<length txs]"
    by (rule map_cong) (simp_all add: undo_record_upto_def nth_append)
  have last: "undo_record_upto (txs @ [tx]) (length txs) = UndoCoinRecord_new (Transaction_version tx)
      (concat (map (\<lambda>tx. map (\<lambda>i. ucast (utxo_index i)) (transaction_inputs tx)) (txs @ [tx])))
      (concat (map (\<lambda>tx. map amount (transaction_outputs tx)) (txs @ [tx])))
      (concat (map (\<lambda>tx. map public_key (transaction_outputs tx)) (txs @ [tx])))"
    by (simp add: undo_record_upto_def)
  show ?case using snoc by (simp add: make_undo_step_def init last Let_def)
qed simp

text \<open>How many inputs and outputs the first transactions have together.\<close>

definition inputs_upto :: "nat \<Rightarrow> Transaction list \<Rightarrow> nat" where
  "inputs_upto n txs = (\<Sum>tx\<leftarrow>take n txs. length (transaction_inputs tx))"

definition outputs_upto :: "nat \<Rightarrow> Transaction list \<Rightarrow> nat" where
  "outputs_upto n txs = (\<Sum>tx\<leftarrow>take n txs. length (transaction_outputs tx))"

lemma make_undo_block_record:
  assumes "i < length (transactions b)"
  shows "length (undo_utxo (undo_coin_records (make_undo_block rt g b) ! i)) = inputs_upto (Suc i) (transactions b)"
    and "length (undo_amounts (undo_coin_records (make_undo_block rt g b) ! i)) = outputs_upto (Suc i) (transactions b)"
    and "length (undo_public_keys (undo_coin_records (make_undo_block rt g b) ! i)) = outputs_upto (Suc i) (transactions b)"
  using assms unfolding make_undo_block_def make_undo_fold
  by (simp_all add: UndoBlock_new_def UndoCoinRecord_new_def undo_record_upto_def inputs_upto_def outputs_upto_def length_concat comp_def)

lemma make_undo_block_lengths:
  "length (transaction_hashes (make_undo_block rt g b)) = length (transactions b)"
  "length (undo_coin_records (make_undo_block rt g b)) = length (transactions b)"
  unfolding make_undo_block_def make_undo_fold by (simp_all add: UndoBlock_new_def)

text \<open>A record can be written when its first vector is the shortest; what is written is cut to that length.\<close>

definition undo_readable :: "UndoCoinRecord \<Rightarrow> bool" where
  "undo_readable r \<longleftrightarrow>
     length (undo_utxo r) \<le> length (undo_amounts r) \<and> length (undo_utxo r) \<le> length (undo_public_keys r)"

definition undo_trim :: "UndoCoinRecord \<Rightarrow> UndoCoinRecord" where
  "undo_trim r = r\<lparr>undo_amounts := take (length (undo_utxo r)) (undo_amounts r),
     undo_public_keys := take (length (undo_utxo r)) (undo_public_keys r)\<rparr>"

definition undo_block_trim :: "UndoBlock \<Rightarrow> UndoBlock" where
  "undo_block_trim b = b\<lparr>undo_coin_records := map undo_trim (undo_coin_records b)\<rparr>"

lemma fill_undo_record_trim: "undo_readable r \<Longrightarrow> fill_undo_record rt r = fill_undo_record rt (undo_trim r)"
  by (simp add: fill_undo_record_def undo_trim_def undo_readable_def for_coins_ok min_def)

lemma undo_trim_ok: "undo_readable r \<Longrightarrow> UndoCoinRecord_ok (undo_trim r)"
  by (simp add: undo_readable_def UndoCoinRecord_ok_def undo_trim_def)

lemma undo_serialize_cases:
  assumes "length (undo_coin_records b) = length (transaction_hashes b)"
  shows "UndoBlock_serialize rt b =
    (if list_all undo_readable (undo_coin_records b) then UndoBlock_serialize rt (undo_block_trim b)
     else Inl UB_index_out_of_range)"
proof -
  let ?body = "\<lambda>h r p. res_bind (fill_undo_record rt r) (\<lambda>pr.
         Inr (PUndoBlock_add_undo_coin_records pr (PUndoBlock_add_transaction_hashes h p)))"
  have loop: "res_fold (\<lambda>(h, r) p. ?body h r p) (zip hs rs) p =
      (if list_all undo_readable rs then res_fold (\<lambda>(h, r) p. ?body h r p) (zip hs (map undo_trim rs)) p
       else Inl UB_index_out_of_range)" if "length rs = length hs" for hs rs p
    using that
  proof (induction hs arbitrary: rs p)
    case (Cons h hs)
    then obtain r rs' where rs: "rs = r # rs'" "length rs' = length hs" by (cases rs) auto
    show ?case
    proof (cases "undo_readable r")
      case True
      then obtain pr where "fill_undo_record rt (undo_trim r) = Inr pr"
        using fill_undo_record_ok [OF undo_trim_ok] by blast
      with True Cons.IH [OF rs(2)] show ?thesis by (simp add: rs(1) fill_undo_record_trim)
    next
      case False
      then have "fill_undo_record rt r = Inl UB_index_out_of_range"
        by (intro fill_undo_record_short) (auto simp: undo_readable_def)
      with False show ?thesis by (simp add: rs(1))
    qed
  qed simp
  let ?rest = "\<lambda>p. Inr (PUndoBlock_SerializeToString rt p)"
  have 1: "UndoBlock_serialize rt b = res_bind (res_fold (\<lambda>(h, r) p. ?body h r p)
      (zip (transaction_hashes b) (undo_coin_records b)) (PUndoBlock_new rt)) ?rest"
    unfolding UndoBlock_serialize_def res_fold_vectors [OF assms] ..
  have 2: "UndoBlock_serialize rt (undo_block_trim b) = res_bind (res_fold (\<lambda>(h, r) p. ?body h r p)
      (zip (transaction_hashes b) (map undo_trim (undo_coin_records b))) (PUndoBlock_new rt)) ?rest"
    using res_fold_vectors [of "map undo_trim (undo_coin_records b)" "transaction_hashes b" ?body "PUndoBlock_new rt"] assms
    by (simp add: UndoBlock_serialize_def undo_block_trim_def)
  show ?thesis unfolding 1 2 loop [OF assms] by simp
qed

lemma make_undo_block_readable:
  "list_all undo_readable (undo_coin_records (make_undo_block rt g b)) \<longleftrightarrow>
     (\<forall>i < length (transactions b). inputs_upto (Suc i) (transactions b) \<le> outputs_upto (Suc i) (transactions b))"
  by (simp add: list_all_length undo_readable_def make_undo_block_record make_undo_block_lengths)

lemma undo_block_trim_ok:
  "length (undo_coin_records b) = length (transaction_hashes b) \<Longrightarrow> list_all undo_readable (undo_coin_records b) \<Longrightarrow>
   UndoBlock_ok (undo_block_trim b)"
  by (auto simp: UndoBlock_ok_def undo_block_trim_def list_all_iff undo_trim_ok)

section \<open>File names\<close>

lemma ascii_append [simp]: "ascii (s @ t) \<longleftrightarrow> ascii s \<and> ascii t"
  by (simp add: ascii_def)

lemma ascii_to_string: "ascii (to_string n)"
  unfolding ascii_def list_all_iff by (auto dest!: to_string_digits)

lemma length_to_string_le: "n < 10 ^ Suc k \<Longrightarrow> length (to_string n) \<le> Suc k"
proof (induction k arbitrary: n)
  case 0
  then show ?case by (simp add: to_string_small)
next
  case (Suc k)
  then have "n div 10 < 10 ^ Suc k" by (simp add: less_mult_imp_div_less mult.commute)
  then show ?case using Suc.IH [of "n div 10"] by (subst to_string.simps) simp
qed

lemma length_to_string_uint16: "length (to_string (unat (n :: uint16))) \<le> 5"
  by (rule length_to_string_le [of _ 4, simplified]) (use unat_word_less [of n] in simp)

lemma BlockRecord_ok_paths:
  assumes "block_file_stored r \<in> range block_path" "undo_file_stored r \<in> range undo_path"
  shows "BlockRecord_ok r"
proof -
  obtain m n where p: "block_file_stored r = block_path m" "undo_file_stored r = undo_path n" using assms by blast
  have "ascii (block_path m)" "ascii (undo_path n)"
    by (simp_all add: block_path_def undo_path_def ascii_to_string get_data_directory_def get_block_filename_def
        get_undo_filename_def get_file_extension_def ascii_def ascii_to_string [unfolded ascii_def])
  moreover have "length (block_path m) \<le> 30" "length (undo_path n) \<le> 30"
    using length_to_string_uint16 [of m] length_to_string_uint16 [of n]
    by (simp_all add: block_path_def undo_path_def get_data_directory_def get_block_filename_def
        get_undo_filename_def get_file_extension_def)
  ultimately show ?thesis by (simp add: BlockRecord_ok_def p MAX_SIZE_def INT_MAX_def)
qed

section \<open>Storing a block\<close>

text \<open>Both logs are in a good state (the directory exists from the first block on).\<close>

definition writer_ok :: "nat \<Rightarrow> ChainWriter \<times> file_system \<Rightarrow> bool" where
  "writer_ok k = (\<lambda>(w, fs). block_log_ok k (w, fs) \<and>
     unat (current_undo_offset w) \<le> 1000 \<and> unat (current_undo_file_number w) + k \<le> 65535 \<and>
     current_file undo_path (current_undo_file_number w) (current_undo_offset w) fs)"

lemma files_fwrite: "q \<noteq> p \<Longrightarrow> files (fwrite p s fs) q = files fs q"
  by (simp add: fwrite_def)

lemma dirs_fwrite [simp]: "dirs (fwrite p s fs) = dirs fs" "denied (fwrite p s fs) = denied fs"
  by (simp_all add: fwrite_def)

lemma write_block_frame:
  assumes "write_block s (w, fs) = Inr (loc, w', fs')"
  shows "current_undo_offset w' = current_undo_offset w" "current_undo_file_number w' = current_undo_file_number w"
    and "files fs' (undo_path n) = files fs (undo_path n)" "is_directory ''data'' fs'" "denied fs' = denied fs"
  using assms unfolding write_block_def Let_def prod.case get_data_directory_def
  by (auto split: if_splits option.splits
      simp: files_fwrite is_directory_def fopen_append_def create_directory_def)

lemma write_undo_block_frame:
  assumes "write_undo_block s (w, fs) = (loc, w', fs')"
  shows "current_block_offset w' = current_block_offset w" "current_block_file_number w' = current_block_file_number w"
    and "files fs' (block_path n) = files fs (block_path n)" "dirs fs' = dirs fs" "denied fs' = denied fs"
    and "files fs' ''data'' = files fs ''data''"
proof -
  have "''data'' \<noteq> undo_path m" for m by (simp add: undo_path_def get_data_directory_def)
  then show "current_block_offset w' = current_block_offset w" "current_block_file_number w' = current_block_file_number w"
    "files fs' (block_path n) = files fs (block_path n)" "dirs fs' = dirs fs" "denied fs' = denied fs"
    "files fs' ''data'' = files fs ''data''"
    using assms unfolding write_undo_block_def Let_def prod.case
    by (auto split: if_splits option.splits simp: files_fwrite fopen_append_def)
qed

lemma current_file_cong:
  "(\<And>m. files fs' (path m) = files fs (path m)) \<Longrightarrow> current_file path n off fs' = current_file path n off fs"
  by (simp add: current_file_def)

definition block_location :: "BlockRecord \<Rightarrow> FileInfo" where
  "block_location r = FileInfo_new (block_file_stored r) (block_offset_start r) (block_offset_end r)"

definition undo_location :: "BlockRecord \<Rightarrow> FileInfo" where
  "undo_location r = FileInfo_new (undo_file_stored r) (undo_offset_start r) (undo_offset_end r)"

lemma store_block_ok:
  assumes "writer_ok (Suc k) st" "fits_file (Block_serialize rt b)"
    and "UndoBlock_serialize rt (make_undo_block rt g b) = Inr u" "fits_file u"
  shows "\<exists>r st'. ChainWriter_store_block rt g b h st = Inr (r, st') \<and> writer_ok k st' \<and> fs_grows (snd st) (snd st') \<and>
    located (block_location r) (Block_serialize rt b) (snd st') \<and> located (undo_location r) u (snd st') \<and>
    BlockRecord_ok r \<and> BlockRecord_block_header r = Block_block_header b \<and> height r = h \<and>
    num_transactions r = of_nat (length (transactions b))"
proof -
  obtain w fs where st: "st = (w, fs)" by (cases st)
  have ok: "block_log_ok (Suc k) (w, fs)" "unat (current_undo_offset w) \<le> 1000"
    "unat (current_undo_file_number w) + Suc k \<le> 65535"
    "current_file undo_path (current_undo_file_number w) (current_undo_offset w) fs"
    using assms(1) by (simp_all add: writer_ok_def st)
  obtain loc w1 fs1 where wb: "write_block (Block_serialize rt b) (w, fs) = Inr (Some loc, w1, fs1)"
    "block_log_ok k (w1, fs1)" "located loc (Block_serialize rt b) fs1" "file_name loc \<in> range block_path"
    using write_block_ok [OF ok(1) assms(2)] by auto
  note fr = write_block_frame [OF wb(1)]
  have "undo_log_ok (Suc k) (w1, fs1)"
    using ok fr current_file_cong [OF fr(3)] by (simp add: undo_log_ok_def block_log_ok_def)
  then obtain loc' w2 fs2 where wu: "write_undo_block u (w1, fs1) = (Some loc', w2, fs2)"
    "undo_log_ok k (w2, fs2)" "located loc' u fs2" "file_name loc' \<in> range undo_path"
    using write_undo_block_ok [OF _ assms(4)] by fastforce
  note fr2 = write_undo_block_frame [OF wu(1)]
  have grows: "fs_grows fs1 fs2" by (rule write_undo_block_grows [OF wu(1)])
  have "located loc (Block_serialize rt b) fs2" by (rule located_grows [OF wb(3) grows])
  moreover have "writer_ok k (w2, fs2)"
    using wb(2) wu(2) fr2 current_file_cong [of fs2 block_path fs1, OF fr2(3)]
    by (simp add: writer_ok_def block_log_ok_def undo_log_ok_def is_directory_def)
  moreover have "fs_grows fs fs2" using write_block_grows [OF wb(1)] grows by (rule fs_grows_trans)
  ultimately show ?thesis
    using wb(1,4) wu(1,3,4) unfolding st ChainWriter_store_block_def Let_def
    by (simp add: assms(3) BlockRecord_new_def block_location_def undo_location_def BlockHeader_new_def
        BlockRecord_ok_paths)
qed

end
