(* ===== verification/Coin_Database.thy ===== *)
theory Coin_Database
  imports Coin_Records Db Crypto
begin

text \<open>
  \<open>CoinDatabase\<close> of \<open>core/src/coin_database/coin_database.cpp\<close>: the coins of recent
  transactions in a bounded cache, the others in the key-value store as one \<open>CoinRecord\<close> per
  transaction hash, and the mempool. The cache is an \<open>unordered_map\<close>: an association list,
  whose iteration order, unspecified in C++, is the component \<open>order_of\<close> of the environment;
  the environment also holds the protocol-buffer runtime and the contents of the uninitialised
  memory that the hash reads, taken to be the same at every call. Counters are 16-bit.
\<close>

record 'u env =
  runtime_of :: "'u runtime"
  garbage_of :: garbage
  order_of :: "(string \<times> Coin) list \<Rightarrow> (string \<times> Coin) list"

record CoinDatabase =
  coin_database :: Database
  main_cache :: "(string \<times> Coin) list"
  main_cache_capacity :: uint16
  main_cache_size :: uint16
  mempool_cache :: "uint32 \<rightharpoonup> Transaction"
  mempool_capacity :: uint16
  mempool_size :: uint16

definition CoinDatabase_new :: CoinDatabase where
  "CoinDatabase_new = \<lparr>coin_database = Database_new, main_cache = [], main_cache_capacity = 70,
     main_cache_size = 0, mempool_cache = Map.empty, mempool_capacity = 70, mempool_size = 0\<rparr>"

definition hash_transaction :: "'u env \<Rightarrow> Transaction \<Rightarrow> uint32" where
  "hash_transaction E tx = CryptCrypto_hash (garbage_of E) (Transaction_serialize (runtime_of E) tx)"

section \<open>Validation\<close>

definition validate_input :: "'u env \<Rightarrow> TransactionInput \<Rightarrow> CoinDatabase \<Rightarrow> (bool \<times> CoinDatabase) result" where
  "validate_input E i c =
     (let coin_locator = serialize_from_construct (reference_transaction_hash i) (utxo_index i)
      in case map_of (main_cache c) coin_locator of
           None \<Rightarrow>
             (let (s, db) = get_safely (to_string (unat (reference_transaction_hash i))) (coin_database c)
              in res_bind (CoinRecord_deserialize (runtime_of E) s) (\<lambda>r.
                 Inr (list_ex (\<lambda>u. ucast (utxo_index i) = u) (utxo r), c\<lparr>coin_database := db\<rparr>)))
         | Some coin \<Rightarrow> Inr (\<not> is_spent coin, c))"

fun validate_inputs :: "'u env \<Rightarrow> TransactionInput list \<Rightarrow> CoinDatabase \<Rightarrow> (bool \<times> CoinDatabase) result" where
  "validate_inputs E [] c = Inr (True, c)"
| "validate_inputs E (i # is) c =
     res_bind (validate_input E i c) (\<lambda>(valid, c). if \<not> valid then Inr (False, c) else validate_inputs E is c)"

definition validate_transaction :: "'u env \<Rightarrow> Transaction \<Rightarrow> CoinDatabase \<Rightarrow> (bool \<times> CoinDatabase) result" where
  "validate_transaction E tx c = validate_inputs E (transaction_inputs tx) c"

fun validate_block :: "'u env \<Rightarrow> Transaction list \<Rightarrow> CoinDatabase \<Rightarrow> (bool \<times> CoinDatabase) result" where
  "validate_block E [] c = Inr (True, c)"
| "validate_block E (tx # txs) c =
     res_bind (validate_transaction E tx c) (\<lambda>(valid, c). if \<not> valid then Inr (False, c) else validate_block E txs c)"

section \<open>Records in the store\<close>

text \<open>
  The statements that spend, undo and flush share: erase one position from the three vectors and put
  the record back, append a coin to a record and put it back, put a new record.
\<close>

definition erase_and_put :: "'u env \<Rightarrow> string \<Rightarrow> nat \<Rightarrow> CoinRecord \<Rightarrow> Database \<Rightarrow> (CoinRecord \<times> Database) result" where
  "erase_and_put E hash position r db =
     res_bind (vec_erase position (utxo r)) (\<lambda>us.
     res_bind (vec_erase position (amounts r)) (\<lambda>as.
     res_bind (vec_erase position (public_keys r)) (\<lambda>ks.
     let r = r\<lparr>utxo := us, amounts := as, public_keys := ks\<rparr>
     in res_bind (CoinRecord_serialize (runtime_of E) r) (\<lambda>s. Inr (r, put_safely hash s db)))))"

definition push_and_put :: "'u env \<Rightarrow> string \<Rightarrow> uint8 \<Rightarrow> uint32 \<Rightarrow> uint32 \<Rightarrow> CoinRecord \<Rightarrow> Database \<Rightarrow> Database result" where
  "push_and_put E hash index a k r db =
     (let r = r\<lparr>utxo := utxo r @ [ucast index], amounts := amounts r @ [a], public_keys := public_keys r @ [k]\<rparr>
      in res_bind (CoinRecord_serialize (runtime_of E) r) (\<lambda>s. Inr (put_safely hash s db)))"

definition put_new_record :: "'u env \<Rightarrow> string \<Rightarrow> uint8 \<Rightarrow> uint32 \<Rightarrow> uint32 \<Rightarrow> Database \<Rightarrow> Database result" where
  "put_new_record E hash index a k db =
     res_bind (CoinRecord_serialize (runtime_of E) (CoinRecord_new 0 [ucast index] [a] [k])) (\<lambda>s.
     Inr (put_safely hash s db))"

section \<open>Flushing the cache\<close>

definition flush_coin :: "'u env \<Rightarrow> string \<times> Coin \<Rightarrow> Database \<Rightarrow> Database result" where
  "flush_coin E = (\<lambda>(key, coin) db.
     res_bind (CoinLocator_deserialize key) (\<lambda>coin_locator.
     let hash = to_string (unat (transaction_hash coin_locator))
     in if is_spent coin then
          (if Database_has hash db then
             (let (s, db) = get_safely hash db
              in res_bind (CoinRecord_deserialize (runtime_of E) s) (\<lambda>r.
                 res_bind (erase_and_put E hash (vec_find (ucast (output_index coin_locator)) (utxo r)) r db) (\<lambda>(_, db).
                 Inr db)))
           else Inr db)
        else
          (if Database_has hash db then
             (let (s, db) = get_safely hash db
              in res_bind (CoinRecord_deserialize (runtime_of E) s) (\<lambda>r.
                 push_and_put E hash (output_index coin_locator) (amount (transaction_output coin))
                   (public_key (transaction_output coin)) r db))
           else put_new_record E hash (output_index coin_locator) (amount (transaction_output coin))
                  (public_key (transaction_output coin)) db)))"

definition flush_main_cache :: "'u env \<Rightarrow> CoinDatabase \<Rightarrow> CoinDatabase result" where
  "flush_main_cache E c =
     res_bind (res_fold (flush_coin E) (order_of E (main_cache c)) (coin_database c)) (\<lambda>db.
     Inr (c\<lparr>coin_database := db, main_cache := [], main_cache_size := 0\<rparr>))"

section \<open>Storing\<close>

definition cache_erase :: "string \<Rightarrow> (string \<times> Coin) list \<Rightarrow> (string \<times> Coin) list" where
  "cache_erase k = filter (\<lambda>(l, _). l \<noteq> k)"

text \<open>\<open>unordered_map::insert\<close> does not overwrite.\<close>

definition cache_insert :: "string \<Rightarrow> Coin \<Rightarrow> (string \<times> Coin) list \<Rightarrow> (string \<times> Coin) list" where
  "cache_insert k coin xs = (if map_of xs k = None then xs @ [(k, coin)] else xs)"

definition spend_input :: "'u env \<Rightarrow> TransactionInput \<Rightarrow> CoinDatabase \<Rightarrow> CoinDatabase result" where
  "spend_input E i c =
     (let coin_locator = serialize_from_construct (reference_transaction_hash i) (utxo_index i)
      in if map_of (main_cache c) coin_locator \<noteq> None then
           Inr (c\<lparr>main_cache := cache_erase coin_locator (main_cache c), main_cache_size := main_cache_size c - 1\<rparr>)
         else
           (let hash = to_string (unat (reference_transaction_hash i))
            in if Database_has hash (coin_database c) then
                 (let (s, db) = get_safely hash (coin_database c)
                  in res_bind (CoinRecord_deserialize (runtime_of E) s) (\<lambda>r.
                     res_bind (erase_and_put E hash (vec_find (ucast (utxo_index i)) (utxo r)) r db) (\<lambda>(_, db).
                     Inr (c\<lparr>coin_database := db\<rparr>))))
               else Inr c))"

definition create_output :: "'u env \<Rightarrow> int \<Rightarrow> int \<Rightarrow> TransactionOutput \<Rightarrow> CoinDatabase \<Rightarrow> CoinDatabase result" where
  "create_output E hash n out c =
     res_bind (if main_cache_capacity c \<le> main_cache_size c then flush_main_cache E c else Inr c) (\<lambda>c.
     Inr (c\<lparr>main_cache := cache_insert (serialize_from_construct (word_of_int hash) (word_of_int n))
              (Coin_new out False) (main_cache c),
            main_cache_size := main_cache_size c + 1\<rparr>))"

fun create_outputs :: "'u env \<Rightarrow> int \<Rightarrow> int \<Rightarrow> TransactionOutput list \<Rightarrow> CoinDatabase \<Rightarrow> CoinDatabase result" where
  "create_outputs E hash n [] c = Inr c"
| "create_outputs E hash n (out # outs) c =
     res_bind (create_output E hash n out c) (create_outputs E hash (n + 1) outs)"

text \<open>The hash of the transaction is kept in an \<open>int\<close>.\<close>

definition store_transaction_coins :: "'u env \<Rightarrow> Transaction \<Rightarrow> CoinDatabase \<Rightarrow> CoinDatabase result" where
  "store_transaction_coins E tx c =
     (let hash = sint (hash_transaction E tx)
      in res_bind (res_fold (spend_input E) (transaction_inputs tx) c)
           (create_outputs E hash 0 (transaction_outputs tx)))"

definition store_transactions_to_main_cache :: "'u env \<Rightarrow> Transaction list \<Rightarrow> CoinDatabase \<Rightarrow> CoinDatabase result" where
  "store_transactions_to_main_cache E txs c = res_fold (store_transaction_coins E) txs c"

definition remove_transactions_from_mempool :: "'u env \<Rightarrow> Transaction list \<Rightarrow> CoinDatabase \<Rightarrow> CoinDatabase" where
  "remove_transactions_from_mempool E txs c =
     fold (\<lambda>tx c. c\<lparr>mempool_cache := (mempool_cache c)(hash_transaction E tx := None)\<rparr>) txs c"

definition CoinDatabase_store_block :: "'u env \<Rightarrow> Transaction list \<Rightarrow> CoinDatabase \<Rightarrow> CoinDatabase result" where
  "CoinDatabase_store_block E txs c =
     store_transactions_to_main_cache E txs (remove_transactions_from_mempool E txs c)"

definition store_transaction_in_mempool :: "'u env \<Rightarrow> Transaction \<Rightarrow> CoinDatabase \<Rightarrow> CoinDatabase" where
  "store_transaction_in_mempool E tx c =
     (if mempool_capacity c = mempool_size c then c
      else let h = hash_transaction E tx
           in c\<lparr>mempool_cache := (if mempool_cache c h = None then (mempool_cache c)(h \<mapsto> tx) else mempool_cache c),
                mempool_size := mempool_size c + 1\<rparr>)"

definition store_transaction :: "'u env \<Rightarrow> Transaction \<Rightarrow> CoinDatabase \<Rightarrow> CoinDatabase" where
  "store_transaction E tx c = store_transaction_in_mempool E tx c"

definition validate_and_store_block :: "'u env \<Rightarrow> Transaction list \<Rightarrow> CoinDatabase \<Rightarrow> (bool \<times> CoinDatabase) result" where
  "validate_and_store_block E txs c =
     res_bind (validate_block E txs c) (\<lambda>(valid, c).
     if valid then res_bind (CoinDatabase_store_block E txs c) (\<lambda>c. Inr (True, c)) else Inr (False, c))"

definition validate_and_store_transaction :: "'u env \<Rightarrow> Transaction \<Rightarrow> CoinDatabase \<Rightarrow> (bool \<times> CoinDatabase) result" where
  "validate_and_store_transaction E tx c =
     res_bind (validate_transaction E tx c) (\<lambda>(valid, c).
     if valid then Inr (True, store_transaction E tx c) else Inr (False, c))"

section \<open>Undoing\<close>

text \<open>
  \<open>for (int i = 0; i == n; i++)\<close>: the loops of \<open>undo_coins\<close> go on while the index
  \<^emph>\<open>equals\<close> the size, so the body runs once when the size is zero and never otherwise.
\<close>

function for_equal :: "nat \<Rightarrow> (nat \<Rightarrow> 's \<Rightarrow> 's result) \<Rightarrow> nat \<Rightarrow> 's \<Rightarrow> 's result" where
  "for_equal n body i s = (if i = n then res_bind (body i s) (for_equal n body (Suc i)) else Inr s)"
  by pat_completeness auto
termination by (relation "measure (\<lambda>(n, _, i, _). if i = n then 1 else 0)") auto

declare for_equal.simps [simp del]

definition undo_coin :: "'u env \<Rightarrow> uint32 \<Rightarrow> UndoCoinRecord \<Rightarrow> nat \<Rightarrow> CoinDatabase \<Rightarrow> CoinDatabase result" where
  "undo_coin E tx_hash r j c =
     (let hash = to_string (unat tx_hash)
      in res_bind (vec_at (undo_utxo r) j) (\<lambda>index.
         let key = serialize_from_construct tx_hash (ucast index)
         in res_bind (CoinLocator_deserialize key) (\<lambda>coin_locator.
            if map_of (main_cache c) key = None then Inl UB_null_dereference
            else if Database_has hash (coin_database c) then
              (let (s, db) = get_safely hash (coin_database c)
               in res_bind (CoinRecord_deserialize (runtime_of E) s) (\<lambda>record.
                  let diff = vec_find index (utxo record)
                  in res_bind (if diff \<noteq> length (utxo record) then erase_and_put E hash diff record db else Inr (record, db)) (\<lambda>(record, db).
                     res_bind (vec_at (undo_amounts r) j) (\<lambda>a.
                     res_bind (vec_at (undo_public_keys r) j) (\<lambda>k.
                     res_bind (push_and_put E hash (output_index coin_locator) a k record db) (\<lambda>db.
                     Inr (c\<lparr>coin_database := db\<rparr>)))))))
            else
              res_bind (vec_at (undo_public_keys r) j) (\<lambda>k.
              res_bind (vec_at (undo_amounts r) j) (\<lambda>a.
              res_bind (put_new_record E hash (output_index coin_locator) a k (coin_database c)) (\<lambda>db.
              Inr (c\<lparr>coin_database := db\<rparr>)))))))"

definition undo_hash :: "'u env \<Rightarrow> UndoBlock \<Rightarrow> nat \<Rightarrow> CoinDatabase \<Rightarrow> CoinDatabase result" where
  "undo_hash E b i c =
     res_bind (vec_at (transaction_hashes b) i) (\<lambda>tx_hash.
     res_bind (vec_at (undo_coin_records b) i) (\<lambda>r.
     for_equal (length (undo_utxo r)) (undo_coin E tx_hash r) 0 c))"

definition undo_coins :: "'u env \<Rightarrow> UndoBlock list \<Rightarrow> CoinDatabase \<Rightarrow> CoinDatabase result" where
  "undo_coins E blocks c =
     res_fold (\<lambda>b c. for_equal (length (transaction_hashes b)) (undo_hash E b) 0 c) blocks c"

end
