(* ===== verification/Wire_Format.thy ===== *)
theory Wire_Format
  imports Proto_Runtime
begin

text \<open>
  A concrete runtime: the documented wire format of protocol buffers (base-128 varints, tags
  \<open>8 * field + wire type\<close>, length-delimited values), with the unknown fields kept as their
  bytes. It interprets \<open>protobuf_runtime\<close>, so the laws of that locale can hold, and the
  theorems about the messages are evaluated on it.
\<close>

section \<open>Varints\<close>

fun varint :: "nat \<Rightarrow> string" where
  "varint n = (if n < 128 then [char_of n] else char_of (128 + n mod 128) # varint (n div 128))"

declare varint.simps [simp del]

fun read_varint :: "string \<Rightarrow> (nat \<times> string) option" where
  "read_varint [] = None"
| "read_varint (c # cs) =
     (if (of_char c :: nat) < 128 then Some (of_char c, cs)
      else case read_varint cs of None \<Rightarrow> None | Some (n, r) \<Rightarrow> Some (of_char c - 128 + 128 * n, r))"

lemma of_char_varint: "n < 128 \<Longrightarrow> (of_char (char_of (128 + n :: nat)) :: nat) = 128 + n"
  by (simp add: of_char_of)

lemma read_varint_varint: "read_varint (varint n @ r) = Some (n, r)"
proof (induction n rule: varint.induct)
  case (1 n)
  show ?case
  proof (cases "n < 128")
    case True
    then show ?thesis by (simp add: varint.simps [of n])
  next
    case False
    have "n = n mod 128 + 128 * (n div 128)" by simp
    moreover have "varint n = char_of (128 + n mod 128) # varint (n div 128)"
      using False by (subst varint.simps) simp
    ultimately show ?thesis using 1 [OF False] by (simp add: of_char_varint)
  qed
qed

lemma varint_not_Nil [simp]: "varint n \<noteq> []"
  by (subst varint.simps) simp

lemma varint_small: "n < 128 \<Longrightarrow> varint n = [char_of n]"
  by (subst varint.simps) simp

lemma length_varint_bit: "length (varint 0) = 1" "length (varint (Suc 0)) = 1"
  by (simp_all add: varint_small)

lemma length_varint_le: "n < 128 ^ Suc k \<Longrightarrow> length (varint n) \<le> Suc k"
proof (induction k arbitrary: n)
  case 0
  then show ?case by (simp add: varint_small)
next
  case (Suc k)
  then have "n div 128 < 128 ^ Suc k" by (simp add: less_mult_imp_div_less mult.commute)
  then show ?case using Suc.IH [of "n div 128"] by (subst varint.simps) simp
qed

lemma length_varint_32: "n < 2 ^ 32 \<Longrightarrow> length (varint n) \<le> 5"
  by (rule length_varint_le [of n 4, simplified]) simp

lemma length_varint_word: "length (varint (unat v)) \<le> 5" for v :: uint32
  by (rule length_varint_32) (use unsigned_less [of v] in simp)

lemma length_varint_int: "n \<le> INT_MAX \<Longrightarrow> length (varint n) \<le> 5"
  by (intro length_varint_32) (simp add: INT_MAX_def)

lemma length_varints: "length (concat (map (\<lambda>v. varint (unat v)) vs)) \<le> 5 * length vs" for vs :: "uint32 list"
proof (induction vs)
  case (Cons v vs)
  then show ?case using length_varint_word [of v] by simp
qed simp

lemma read_varint_shrink: "read_varint p = Some (n, r) \<Longrightarrow> length r < length p"
  by (induction p arbitrary: n r) (auto split: if_splits option.splits dest: less_SucI)

fun read_varints :: "string \<Rightarrow> uint32 list option" where
  "read_varints p =
     (if p = [] then Some []
      else case read_varint p of
        None \<Rightarrow> None
      | Some (n, r) \<Rightarrow>
          if length r < length p then map_option ((#) (of_nat n)) (read_varints r) else None)"

declare read_varints.simps [simp del]

lemma read_varints_varints:
  "read_varints (concat (map (\<lambda>v. varint (unat v)) vs)) = Some vs"
proof (induction vs)
  case Nil
  show ?case by (subst read_varints.simps) simp
next
  case (Cons v vs)
  let ?r = "concat (map (\<lambda>v. varint (unat v)) vs)"
  have "length ?r < length (varint (unat v) @ ?r)" by simp
  then show ?case using Cons read_varint_varint [of "unat v" ?r]
    by (subst read_varints.simps) simp
qed

section \<open>The runtime\<close>

definition read_word :: "string \<Rightarrow> 'a::len word \<times> string option" where
  "read_word p = (case read_varint p of None \<Rightarrow> (0, None) | Some (n, r) \<Rightarrow> (of_nat n, Some r))"

definition read_delimited :: "string \<Rightarrow> (string \<times> string) option" where
  "read_delimited p =
     (case read_varint p of
        None \<Rightarrow> None
      | Some (n, r) \<Rightarrow> if n \<le> MAX_SIZE \<and> n \<le> length r then Some (take n r, drop n r) else None)"

definition read_bytes :: "string \<Rightarrow> string \<Rightarrow> string \<times> string option" where
  "read_bytes old p = (case read_delimited p of None \<Rightarrow> (old, None) | Some (s, r) \<Rightarrow> (s, Some r))"

definition read_packed_words :: "uint32 list \<Rightarrow> string \<Rightarrow> uint32 list \<times> string option" where
  "read_packed_words us p =
     (case read_delimited p of
        None \<Rightarrow> (us, None)
      | Some (s, r) \<Rightarrow> (case read_varints s of None \<Rightarrow> (us, None) | Some vs \<Rightarrow> (us @ vs, Some r)))"

definition skip_field :: "uint32 \<Rightarrow> string \<Rightarrow> string \<Rightarrow> string \<times> string option" where
  "skip_field t u p =
     (let w = unat t mod 8;
          rest = (if w = 0 then map_option snd (read_varint p)
                  else if w = 1 then (if 8 \<le> length p then Some (drop 8 p) else None)
                  else if w = 2 then map_option snd (read_delimited p)
                  else if w = 5 then (if 4 \<le> length p then Some (drop 4 p) else None)
                  else None)
      in case rest of
           None \<Rightarrow> (u, None)
         | Some r \<Rightarrow> (u @ varint (unat t) @ take (length p - length r) p, Some r))"

definition write_tag :: "nat \<Rightarrow> nat \<Rightarrow> string" where
  "write_tag f w = varint (8 * f + w)"

definition write_delimited :: "nat \<Rightarrow> nat \<Rightarrow> string \<Rightarrow> string" where
  "write_delimited f n s = write_tag f 2 @ varint n @ s"

definition wire_format :: "string runtime" where
  "wire_format = \<lparr>
     WriteUInt32ToArray = (\<lambda>f v. write_tag f 0 @ varint (unat v)),
     WriteBoolToArray = (\<lambda>f b. write_tag f 0 @ varint (of_bool b)),
     WriteUInt32Packed = (\<lambda>f vs n. write_delimited f n (concat (map (\<lambda>v. varint (unat v)) vs))),
     WriteStringMaybeAliased = (\<lambda>f s. write_delimited f (length s) s),
     InternalWriteMessage = write_delimited,
     UInt32Size = (\<lambda>v. length (varint (unat v))),
     UInt32SizeRepeated = (\<lambda>vs. length (concat (map (\<lambda>v. varint (unat v)) vs))),
     Int32Size = (\<lambda>n. length (varint n)),
     StringSize = (\<lambda>s. length (varint (length s)) + length s),
     MessageSize = (\<lambda>n. length (varint n) + n),
     ReadTag = read_word,
     ReadVarint32 = read_word,
     ReadVarint64 = read_word,
     InlineGreedyStringParser = read_bytes,
     PackedUInt32Parser = read_packed_words,
     ReadDelimited = read_delimited,
     ExpectTag = (\<lambda>t p. t < 128 \<and> p \<noteq> [] \<and> hd p = char_of (unat t)),
     VerifyUTF8 = ascii,
     no_unknown_fields = [],
     have_unknown_fields = (\<lambda>u. u \<noteq> []),
     MergeUnknownFields = (@),
     UnknownFieldParse = skip_field,
     InternalSerializeUnknownFields = (\<lambda>u. u),
     ComputeUnknownFieldsSize = (\<lambda>u n. n + length u)\<rparr>"

lemma write_tag_small: "1 \<le> f \<Longrightarrow> f \<le> 15 \<Longrightarrow> w < 8 \<Longrightarrow> write_tag f w = [char_of (8 * f + w)]"
  by (simp add: write_tag_def varint_small)

lemma read_word_varint: "read_word (varint n @ r) = (of_nat n, Some r)"
  by (simp add: read_word_def read_varint_varint)

lemma read_word_tag: "1 \<le> f \<Longrightarrow> f \<le> 15 \<Longrightarrow> w < 8 \<Longrightarrow>
    read_word (char_of (8 * f + w) # r) = (of_nat (8 * f + w), Some r)"
  using read_word_varint [of "8 * f + w" r] by (simp add: varint_small)

lemma read_delimited_written: "length s \<le> MAX_SIZE \<Longrightarrow> read_delimited (varint (length s) @ s @ r) = Some (s, r)"
  by (simp add: read_delimited_def read_varint_varint)

lemma read_word_shrink: "read_word p = (v, Some r) \<Longrightarrow> length r < length p"
  by (auto simp: read_word_def split: option.splits dest: read_varint_shrink)

lemma read_delimited_shrink: "read_delimited p = Some (s, r) \<Longrightarrow> length s + length r < length p"
  by (auto simp: read_delimited_def split: option.splits if_splits dest!: read_varint_shrink)

lemma skip_field_shrink: "skip_field t u p = (u', Some r) \<Longrightarrow> length r \<le> length p"
  by (auto simp: skip_field_def Let_def split: option.splits if_splits dest!: read_varint_shrink read_delimited_shrink)

lemma read_word_small:
  assumes "t < 128" "p \<noteq> []" "hd p = char_of (unat t)"
  shows "read_word p = (t :: uint32, Some (drop 1 p))"
proof -
  have "(read_word (varint (unat t) @ tl p) :: uint32 \<times> _) = (t, Some (tl p))"
    by (simp add: read_word_varint)
  moreover have "varint (unat t) @ tl p = p"
    using assms by (cases p) (simp_all add: varint_small word_less_nat_alt)
  ultimately show ?thesis by (simp add: drop_Suc)
qed

interpretation wf: protobuf_runtime wire_format
proof (unfold_locales, goal_cases)
  case (8 f vs r) then show ?case
    by (simp add: wire_format_def write_delimited_def write_tag_small read_word_tag [of _ 2, simplified])
next
  case (9 f vs us r)
  then show ?case
    using read_delimited_written [of "concat (map (\<lambda>v. varint (unat v)) vs)" r]
    by (simp add: wire_format_def write_delimited_def write_tag_small read_packed_words_def read_varints_varints)
next
  case (11 vs) show ?case by (simp add: wire_format_def)
next
  case (12 vs) show ?case using length_varints [of vs] by (simp add: wire_format_def)
qed (auto simp: wire_format_def write_delimited_def write_tag_small read_word_tag read_word_tag [of _ 0, simplified]
    read_word_tag [of _ 2, simplified] read_word_varint read_delimited_written read_bytes_def read_word_small [simplified]
    read_packed_words_def length_varint_bit length_varint_word length_varint_int
    split: option.splits prod.splits
    dest: read_word_shrink read_delimited_shrink skip_field_shrink)

end
