(* ===== verification/Coin_Spec.thy ===== *)
theory Coin_Spec
  imports Coin_Database Wire_Format
begin

text \<open>
  What the coin database promises. The abstraction \<open>coins\<close> is the set of unspent outputs as a
  map from (transaction hash, output index) to the output, read from the cache and, behind it, from the
  records of the store. Validation decides membership in it, spending removes an entry, creating an
  output adds one, and a flush, in whatever order the cache is walked, does not change it. The counters
  and the cache satisfy \<open>cache_inv\<close> whatever happens; the refinement needs \<open>coin_inv\<close>:
  every record is well formed and no coin is both in the cache and in the store.
\<close>

section \<open>Records as maps\<close>

definition coins_of :: "CoinRecord \<Rightarrow> uint32 \<rightharpoonup> TransactionOutput" where
  "coins_of r = map_of (zip (utxo r) (map2 TransactionOutput_new (amounts r) (public_keys r)))"

definition record_good :: "CoinRecord \<Rightarrow> bool" where
  "record_good r \<longleftrightarrow> CoinRecord_ok r \<and> distinct (utxo r) \<and> list_all (\<lambda>u. unat u < 256) (utxo r)"

lemma dom_coins_of: "CoinRecord_ok r \<Longrightarrow> dom (coins_of r) = set (utxo r)"
  by (simp add: coins_of_def CoinRecord_ok_def dom_map_of_zip)

lemma coins_of_empty [simp]: "coins_of (CoinRecord_new v [] [] []) = Map.empty"
  by (simp add: coins_of_def CoinRecord_new_def)

lemma record_good_length: "record_good r \<Longrightarrow> length (utxo r) \<le> 256"
proof -
  assume r: "record_good r"
  then have "length (utxo r) = card (unat ` set (utxo r))"
    by (simp add: record_good_def distinct_card card_image inj_on_def)
  also have "\<dots> \<le> card {..<256::nat}"
    using r by (intro card_mono) (auto simp: record_good_def list_all_iff)
  finally show ?thesis by simp
qed

lemma erase_at: "p < length xs \<Longrightarrow> vec_erase p xs = Inr (take p xs @ drop (Suc p) xs)"
  by (simp add: vec_erase_def)

lemma map_of_remove_nth:
  assumes "distinct (map fst xs)" "p < length xs"
  shows "map_of (take p xs @ drop (Suc p) xs) = (map_of xs)(fst (xs ! p) := None)"
proof -
  obtain a b where ab: "xs ! p = (a, b)" by (cases "xs ! p")
  have xs: "xs = take p xs @ (a, b) # drop (Suc p) xs"
    using id_take_nth_drop [OF assms(2)] ab by simp
  have "distinct (map fst (take p xs @ (a, b) # drop (Suc p) xs))"
    using assms(1) by (subst (asm) xs)
  then have "a \<notin> fst ` set (take p xs)" "a \<notin> fst ` set (drop (Suc p) xs)"
    by auto
  then have "map_of (take p xs) a = None" "map_of (drop (Suc p) xs) a = None"
    by (simp_all add: map_of_eq_None_iff)
  then have "map_of (take p xs @ drop (Suc p) xs) k = ((map_of (take p xs @ (a, b) # drop (Suc p) xs))(a := None)) k" for k
    by (auto simp: map_add_def split: option.splits)
  then show ?thesis unfolding ab fst_conv using xs by auto
qed

lemma zip_remove_nth:
  "length xs = length ys \<Longrightarrow> zip (take p xs @ drop q xs) (take p ys @ drop q ys) = take p (zip xs ys) @ drop q (zip xs ys)"
  by (simp add: take_zip drop_zip)

definition record_remove :: "uint32 \<Rightarrow> CoinRecord \<Rightarrow> CoinRecord" where
  "record_remove u r =
     (let p = vec_find u (utxo r); cut = (\<lambda>xs. take p xs @ drop (Suc p) xs)
      in r\<lparr>utxo := cut (utxo r), amounts := cut (amounts r), public_keys := cut (public_keys r)\<rparr>)"

definition record_add :: "uint32 \<Rightarrow> uint32 \<Rightarrow> uint32 \<Rightarrow> CoinRecord \<Rightarrow> CoinRecord" where
  "record_add u a k r = r\<lparr>utxo := utxo r @ [u], amounts := amounts r @ [a], public_keys := public_keys r @ [k]\<rparr>"

lemma record_remove_good:
  assumes "record_good r" "u \<in> set (utxo r)"
  shows "record_good (record_remove u r)" "coins_of (record_remove u r) = (coins_of r)(u := None)"
proof -
  let ?p = "vec_find u (utxo r)"
  have p: "?p < length (utxo r)" using assms(2) by (simp add: vec_find_less_iff)
  have len: "length (amounts r) = length (utxo r)" "length (public_keys r) = length (utxo r)"
    and d: "distinct (utxo r)" and small: "\<forall>v\<in>set (utxo r). unat v < 256"
    using assms(1) by (simp_all add: record_good_def CoinRecord_ok_def list_all_iff)
  have "take ?p (utxo r) @ drop (Suc ?p) (utxo r) = remove1 u (utxo r)"
    using vec_erase_find [OF assms(2)] p by (simp add: vec_erase_def)
  then show "record_good (record_remove u r)"
    using p len d small by (auto simp: record_good_def CoinRecord_ok_def record_remove_def Let_def list_all_iff
        length_remove1 assms(2) dest: notin_set_remove1 set_remove1_subset [THEN subsetD])
  let ?z = "zip (utxo r) (map2 TransactionOutput_new (amounts r) (public_keys r))"
  let ?m = "map2 TransactionOutput_new (amounts r) (public_keys r)"
  have "map2 TransactionOutput_new (take ?p (amounts r) @ drop (Suc ?p) (amounts r)) (take ?p (public_keys r) @ drop (Suc ?p) (public_keys r))
      = take ?p ?m @ drop (Suc ?p) ?m"
    using len by (subst zip_remove_nth) (simp_all add: take_map drop_map)
  moreover have "zip (take ?p (utxo r) @ drop (Suc ?p) (utxo r)) (take ?p ?m @ drop (Suc ?p) ?m)
      = take ?p ?z @ drop (Suc ?p) ?z"
    using len by (intro zip_remove_nth) simp
  ultimately have "coins_of (record_remove u r) = map_of (take ?p ?z @ drop (Suc ?p) ?z)"
    by (simp add: coins_of_def record_remove_def Let_def)
  also have "\<dots> = (coins_of r)(fst (?z ! ?p) := None)"
    unfolding coins_of_def using p len d by (intro map_of_remove_nth) (simp_all add: map_fst_zip)
  also have "fst (?z ! ?p) = u" using p len assms(2) by (simp add: nth_vec_find)
  finally show "coins_of (record_remove u r) = (coins_of r)(u := None)" .
qed

lemma record_add_good:
  assumes "record_good r" "u \<notin> set (utxo r)" "unat u < 256"
  shows "record_good (record_add u a k r)" "coins_of (record_add u a k r) = (coins_of r)(u \<mapsto> TransactionOutput_new a k)"
proof -
  show "record_good (record_add u a k r)"
    using assms by (simp add: record_good_def CoinRecord_ok_def record_add_def)
  have len: "length (amounts r) = length (utxo r)" "length (public_keys r) = length (utxo r)"
    using assms(1) by (simp_all add: record_good_def CoinRecord_ok_def)
  have "u \<notin> dom (coins_of r)" using assms by (simp add: dom_coins_of record_good_def)
  then have "[u \<mapsto> TransactionOutput_new a k] ++ coins_of r = (coins_of r)(u \<mapsto> TransactionOutput_new a k)"
    by (subst map_add_comm) auto
  then show "coins_of (record_add u a k r) = (coins_of r)(u \<mapsto> TransactionOutput_new a k)"
    using len by (simp add: coins_of_def record_add_def)
qed

lemma record_new_good:
  "unat u < 256 \<Longrightarrow> record_good (CoinRecord_new v [u] [a] [k])"
  "coins_of (CoinRecord_new v [u] [a] [k]) = [u \<mapsto> TransactionOutput_new a k]"
  by (simp_all add: record_good_def CoinRecord_ok_def CoinRecord_new_def coins_of_def)

lemma unat_ucast_8 [simp]: "unat (ucast (i :: uint8) :: uint32) < 256"
  using unat_word_less [of i] by (simp add: unsigned_ucast_eq take_bit_nat_eq_self)

lemma ucast_8_inject [simp]: "(ucast (i :: uint8) :: uint32) = ucast j \<longleftrightarrow> i = j"
  by (metis ucast_8_32)

section \<open>The store as a map of coins\<close>

definition coin_record_of :: "'u env \<Rightarrow> Database \<Rightarrow> uint32 \<Rightarrow> CoinRecord result" where
  "coin_record_of E d h = CoinRecord_deserialize (runtime_of E) (look_up d (to_string (unat h)))"

definition db_coins :: "'u env \<Rightarrow> Database \<Rightarrow> uint32 \<times> uint8 \<rightharpoonup> TransactionOutput" where
  "db_coins E d = (\<lambda>(h, i). case coin_record_of E d h of Inl _ \<Rightarrow> None | Inr r \<Rightarrow> coins_of r (ucast i))"

definition db_good :: "'u env \<Rightarrow> Database \<Rightarrow> bool" where
  "db_good E d \<longleftrightarrow> (\<forall>h. \<exists>r. coin_record_of E d h = Inr r \<and> record_good r)"

lemma db_goodD: "db_good E d \<Longrightarrow> \<exists>r. coin_record_of E d h = Inr r \<and> record_good r"
  by (simp add: db_good_def)

lemma coin_record_of_get [simp]: "coin_record_of E (snd (get_safely k d)) = coin_record_of E d"
  by (rule ext) (simp add: coin_record_of_def dbkv.get_look)

lemma db_coins_get [simp]: "db_coins E (snd (get_safely k d)) = db_coins E d"
  by (simp add: db_coins_def)

lemma db_good_get [simp]: "db_good E (snd (get_safely k d)) = db_good E d"
  by (simp add: db_good_def)

lemma get_record: "fst (get_safely (to_string (unat h)) d) = look_up d (to_string (unat h))"
  by (rule dbkv.get_value)

lemma coin_record_absent: "\<not> Database_has (to_string (unat h)) d \<Longrightarrow> coin_record_of E d h = Inr (CoinRecord_new 0 [] [] [])"
  by (simp add: coin_record_of_def dbkv.absent_look CoinRecord_deserialize_Nil)

lemma coin_record_present:
  assumes "coin_record_of E d h = Inr r" "u \<in> set (utxo r)"
  shows "Database_has (to_string (unat h)) d"
proof (rule ccontr)
  assume "\<not> Database_has (to_string (unat h)) d"
  then have "r = CoinRecord_new 0 [] [] []" using coin_record_absent [of h d E] assms(1) by simp
  with assms(2) show False by (simp add: CoinRecord_new_def)
qed

lemma coin_record_put:
  "coin_record_of E (put_safely (to_string (unat h)) s d) h' =
     (if h' = h then CoinRecord_deserialize (runtime_of E) s else coin_record_of E d h')"
  by (simp add: coin_record_of_def dbkv.put_look)

text \<open>Putting a good record: the coins of its hash are replaced, nothing else changes.\<close>

lemma put_record:
  assumes "protobuf_runtime (runtime_of E)" "db_good E d" "record_good r"
  shows "\<exists>s. CoinRecord_serialize (runtime_of E) r = Inr s \<and>
    (\<forall>d'. coin_record_of E d' = coin_record_of E d \<longrightarrow>
       db_good E (put_safely (to_string (unat h)) s d') \<and>
       db_coins E (put_safely (to_string (unat h)) s d') = (\<lambda>(h', i). if h' = h then coins_of r (ucast i) else db_coins E d (h', i)))"
proof -
  have len: "length (amounts r) = length (utxo r)" "length (public_keys r) = length (utxo r)"
    using assms(3) by (simp_all add: record_good_def CoinRecord_ok_def)
  have "24 + 15 * length (utxo r) \<le> MAX_SIZE"
    using record_good_length [OF assms(3)] by (simp add: MAX_SIZE_def INT_MAX_def)
  then have rt: "res_bind (CoinRecord_serialize (runtime_of E) r) (CoinRecord_deserialize (runtime_of E)) = Inr r"
    using protobuf_runtime.CoinRecord_deserialize_serialize [OF assms(1), of r] len by simp
  then obtain s where s: "CoinRecord_serialize (runtime_of E) r = Inr s" "CoinRecord_deserialize (runtime_of E) s = Inr r"
    by auto
  then show ?thesis
    using assms(2,3) by (auto simp: db_good_def db_coins_def coin_record_put fun_eq_iff)
qed

section \<open>One record at a time\<close>

lemma ucast_notin: "coin_record_of E d h = Inr r \<Longrightarrow> record_good r \<Longrightarrow> (h, i) \<notin> dom (db_coins E d) \<longleftrightarrow> ucast i \<notin> set (utxo r)"
  using dom_coins_of [of r] by (auto simp: db_coins_def record_good_def domIff)

lemma push_record:
  assumes "protobuf_runtime (runtime_of E)" "db_good E d" "coin_record_of E d h = Inr r" "record_good r"
    and "ucast i \<notin> set (utxo r)" "coin_record_of E d0 = coin_record_of E d"
  shows "\<exists>d'. push_and_put E (to_string (unat h)) i a k r d0 = Inr d' \<and> db_good E d' \<and>
    db_coins E d' = (db_coins E d)((h, i) \<mapsto> TransactionOutput_new a k)"
proof -
  note good = record_add_good [OF assms(4,5) unat_ucast_8, of a k]
  obtain s where s: "CoinRecord_serialize (runtime_of E) (record_add (ucast i) a k r) = Inr s"
    "db_good E (put_safely (to_string (unat h)) s d0)"
    "db_coins E (put_safely (to_string (unat h)) s d0)
      = (\<lambda>(h', j). if h' = h then coins_of (record_add (ucast i) a k r) (ucast j) else db_coins E d (h', j))"
    using put_record [OF assms(1,2) good(1)] assms(6) by blast
  moreover have "(\<lambda>(h', j). if h' = h then coins_of (record_add (ucast i) a k r) (ucast j) else db_coins E d (h', j))
      = (db_coins E d)((h, i) \<mapsto> TransactionOutput_new a k)"
    using assms(3) by (auto simp: fun_eq_iff good(2) db_coins_def)
  ultimately show ?thesis by (simp add: push_and_put_def Let_def flip: record_add_def)
qed

lemma erase_record:
  assumes "protobuf_runtime (runtime_of E)" "db_good E d" "coin_record_of E d h = Inr r" "record_good r"
    and "ucast i \<in> set (utxo r)" "coin_record_of E d0 = coin_record_of E d"
  shows "\<exists>r' d'. erase_and_put E (to_string (unat h)) (vec_find (ucast i) (utxo r)) r d0 = Inr (r', d') \<and> db_good E d' \<and>
    db_coins E d' = (db_coins E d)((h, i) := None)"
proof -
  note good = record_remove_good [OF assms(4,5)]
  obtain s where s: "CoinRecord_serialize (runtime_of E) (record_remove (ucast i) r) = Inr s"
    "db_good E (put_safely (to_string (unat h)) s d0)"
    "db_coins E (put_safely (to_string (unat h)) s d0)
      = (\<lambda>(h', j). if h' = h then coins_of (record_remove (ucast i) r) (ucast j) else db_coins E d (h', j))"
    using put_record [OF assms(1,2) good(1)] assms(6) by blast
  moreover have "(\<lambda>(h', j). if h' = h then coins_of (record_remove (ucast i) r) (ucast j) else db_coins E d (h', j))
      = (db_coins E d)((h, i) := None)"
    using assms(3) by (auto simp: fun_eq_iff good(2) db_coins_def)
  moreover have "vec_find (ucast i) (utxo r) < length (utxo r)" "length (amounts r) = length (utxo r)"
    "length (public_keys r) = length (utxo r)"
    using assms(4,5) by (simp_all add: vec_find_less_iff record_good_def CoinRecord_ok_def)
  ultimately show ?thesis
    by (simp add: erase_and_put_def erase_at record_remove_def Let_def)
qed

lemma flush_coin_spec:
  assumes "protobuf_runtime (runtime_of E)" "db_good E d" "\<not> is_spent coin" "(h, i) \<notin> dom (db_coins E d)"
  shows "\<exists>d'. flush_coin E (serialize_from_construct h i, coin) d = Inr d' \<and> db_good E d' \<and>
    db_coins E d' = (db_coins E d)((h, i) \<mapsto> transaction_output coin)"
proof (cases "Database_has (to_string (unat h)) d")
  case True
  obtain r where r: "coin_record_of E d h = Inr r" "record_good r" using db_goodD [OF assms(2)] by blast
  have "ucast i \<notin> set (utxo r)" using ucast_notin [OF r] assms(4) by simp
  then obtain d' where "push_and_put E (to_string (unat h)) i (amount (transaction_output coin)) (public_key (transaction_output coin))
      r (snd (get_safely (to_string (unat h)) d)) = Inr d'" "db_good E d'"
    "db_coins E d' = (db_coins E d)((h, i) \<mapsto> transaction_output coin)"
    using push_record [OF assms(1,2) r, of i "snd (get_safely (to_string (unat h)) d)"
        "amount (transaction_output coin)" "public_key (transaction_output coin)"] by auto
  moreover have "CoinRecord_deserialize (runtime_of E) (fst (get_safely (to_string (unat h)) d)) = Inr r"
    using r(1) by (simp add: coin_record_of_def get_record)
  ultimately show ?thesis using True assms(3)
    by (simp add: flush_coin_def CoinLocator_roundtrip CoinLocator_new_def case_prod_unfold)
next
  case False
  obtain s where s: "CoinRecord_serialize (runtime_of E) (CoinRecord_new 0 [ucast i] [amount (transaction_output coin)]
      [public_key (transaction_output coin)]) = Inr s"
    "db_good E (put_safely (to_string (unat h)) s d)"
    "db_coins E (put_safely (to_string (unat h)) s d) = (\<lambda>(h', j). if h' = h
       then coins_of (CoinRecord_new 0 [ucast i] [amount (transaction_output coin)] [public_key (transaction_output coin)]) (ucast j)
       else db_coins E d (h', j))"
    using put_record [OF assms(1,2) record_new_good(1) [OF unat_ucast_8]] by blast
  moreover have "\<dots> = (db_coins E d)((h, i) \<mapsto> transaction_output coin)"
    using coin_record_absent [OF False, of E] by (auto simp: fun_eq_iff record_new_good db_coins_def)
  ultimately show ?thesis using False assms(3)
    by (simp add: flush_coin_def CoinLocator_roundtrip CoinLocator_new_def put_new_record_def)
qed

section \<open>The abstraction\<close>

definition cache_coins :: "(string \<times> Coin) list \<Rightarrow> uint32 \<times> uint8 \<rightharpoonup> TransactionOutput" where
  "cache_coins xs = (\<lambda>(h, i). map_option transaction_output (map_of xs (serialize_from_construct h i)))"

definition coins :: "'u env \<Rightarrow> CoinDatabase \<Rightarrow> uint32 \<times> uint8 \<rightharpoonup> TransactionOutput" where
  "coins E c = db_coins E (coin_database c) ++ cache_coins (main_cache c)"

definition coin_entry :: "string \<times> Coin \<Rightarrow> bool" where
  "coin_entry = (\<lambda>(k, coin). \<not> is_spent coin \<and> (\<exists>h i. k = serialize_from_construct h i))"

definition cache_inv :: "CoinDatabase \<Rightarrow> bool" where
  "cache_inv c \<longleftrightarrow> distinct (map fst (main_cache c)) \<and> list_all coin_entry (main_cache c) \<and>
     main_cache_capacity c = 70 \<and> unat (main_cache_size c) \<le> 70 \<and> length (main_cache c) \<le> unat (main_cache_size c)"

definition coin_inv :: "'u env \<Rightarrow> CoinDatabase \<Rightarrow> bool" where
  "coin_inv E c \<longleftrightarrow> cache_inv c \<and> db_good E (coin_database c) \<and>
     dom (cache_coins (main_cache c)) \<inter> dom (db_coins E (coin_database c)) = {}"

definition order_ok :: "'u env \<Rightarrow> bool" where
  "order_ok E \<longleftrightarrow> (\<forall>xs. mset (order_of E xs) = mset xs)"

lemma cache_coins_Nil [simp]: "cache_coins [] = Map.empty"
  by (simp add: cache_coins_def fun_eq_iff)

lemma cache_coins_Cons [simp]: "cache_coins ((serialize_from_construct h i, coin) # xs) = (cache_coins xs)((h, i) \<mapsto> transaction_output coin)"
  by (auto simp: cache_coins_def fun_eq_iff)

lemma map_of_perm:
  assumes "mset xs = mset ys" "distinct (map fst ys)"
  shows "map_of xs = map_of ys"
proof
  fix k
  have "distinct (map fst xs)" "set xs = set ys"
    using assms by (metis mset_map mset_eq_imp_distinct_iff, metis mset_eq_setD)
  then show "map_of xs k = map_of ys k"
    using assms(2) by (metis (no_types) map_of_eq_Some_iff option.exhaust)
qed

lemma flush_fold:
  assumes "protobuf_runtime (runtime_of E)"
  shows "db_good E d \<Longrightarrow> distinct (map fst xs) \<Longrightarrow> list_all coin_entry xs \<Longrightarrow>
    dom (cache_coins xs) \<inter> dom (db_coins E d) = {} \<Longrightarrow>
    \<exists>d'. res_fold (flush_coin E) xs d = Inr d' \<and> db_good E d' \<and> db_coins E d' = db_coins E d ++ cache_coins xs"
proof (induction xs arbitrary: d)
  case (Cons x xs)
  obtain h i coin where x: "x = (serialize_from_construct h i, coin)" "\<not> is_spent coin"
    using Cons.prems(3) by (auto simp: coin_entry_def)
  have "(h, i) \<notin> dom (db_coins E d)" using Cons.prems(4) x(1) by auto
  then obtain d1 where d1: "flush_coin E x d = Inr d1" "db_good E d1"
    "db_coins E d1 = (db_coins E d)((h, i) \<mapsto> transaction_output coin)"
    using flush_coin_spec [OF assms Cons.prems(1) x(2)] x(1) by blast
  have fresh: "(h, i) \<notin> dom (cache_coins xs)"
    using Cons.prems(2) x(1) by (auto simp: cache_coins_def map_of_eq_None_iff domIff)
  have doms: "dom (cache_coins (x # xs)) = insert (h, i) (dom (cache_coins xs))" "dom (db_coins E d1) = insert (h, i) (dom (db_coins E d))"
    by (simp_all add: x(1) d1(3))
  have "dom (cache_coins xs) \<inter> dom (db_coins E d1) = {}"
    using Cons.prems(4) fresh unfolding doms by (simp add: disjoint_iff)
  then obtain d' where d': "res_fold (flush_coin E) xs d1 = Inr d'" "db_good E d'"
    "db_coins E d' = db_coins E d1 ++ cache_coins xs"
    using Cons.IH [OF d1(2)] Cons.prems by auto
  moreover have "db_coins E d1 ++ cache_coins xs = db_coins E d ++ cache_coins (x # xs)"
    using fresh d1(3) x(1) by (auto simp: fun_eq_iff map_add_def split: option.splits)
  ultimately show ?case using d1(1) by simp
qed simp

lemma flush_spec:
  assumes "protobuf_runtime (runtime_of E)" "order_ok E" "coin_inv E c"
  shows "\<exists>c'. flush_main_cache E c = Inr c' \<and> coin_inv E c' \<and> coins E c' = coins E c \<and>
    main_cache c' = [] \<and> main_cache_size c' = 0 \<and> mempool_cache c' = mempool_cache c"
proof -
  let ?xs = "order_of E (main_cache c)"
  have inv: "distinct (map fst (main_cache c))" "list_all coin_entry (main_cache c)" "db_good E (coin_database c)"
    "dom (cache_coins (main_cache c)) \<inter> dom (db_coins E (coin_database c)) = {}" "main_cache_capacity c = 70"
    using assms(3) by (simp_all add: coin_inv_def cache_inv_def)
  have m: "mset ?xs = mset (main_cache c)" using assms(2) by (simp add: order_ok_def)
  have "distinct (map fst ?xs)" using inv(1) m by (metis mset_map mset_eq_imp_distinct_iff)
  moreover have "list_all coin_entry ?xs" using inv(2) m by (metis list_all_iff mset_eq_setD)
  moreover have same: "cache_coins ?xs = cache_coins (main_cache c)"
    by (simp add: cache_coins_def map_of_perm [OF m inv(1)])
  ultimately obtain d' where "res_fold (flush_coin E) ?xs (coin_database c) = Inr d'" "db_good E d'"
    "db_coins E d' = db_coins E (coin_database c) ++ cache_coins (main_cache c)"
    using flush_fold [OF assms(1) inv(3), of ?xs] inv(4) by auto
  then show ?thesis
    by (auto simp: flush_main_cache_def coin_inv_def cache_inv_def coins_def inv(5))
qed

section \<open>Validation\<close>

text \<open>What a read leaves alone: everything but keys of the store that hold nothing.\<close>

definition only_reads :: "'u env \<Rightarrow> CoinDatabase \<Rightarrow> CoinDatabase \<Rightarrow> bool" where
  "only_reads E c c' \<longleftrightarrow> (\<exists>d. c' = c\<lparr>coin_database := d\<rparr> \<and> coin_record_of E d = coin_record_of E (coin_database c))"

lemma only_reads_refl [simp]: "only_reads E c c"
  by (auto simp: only_reads_def intro: exI [of _ "coin_database c"])

lemma only_reads_trans: "only_reads E c c' \<Longrightarrow> only_reads E c' c'' \<Longrightarrow> only_reads E c c''"
  by (auto simp: only_reads_def)

lemma only_reads_same:
  assumes "only_reads E c c'"
  shows "coins E c' = coins E c" "coin_inv E c' = coin_inv E c" "cache_inv c' = cache_inv c" "mempool_cache c' = mempool_cache c"
    "mempool_size c' = mempool_size c" "main_cache c' = main_cache c"
proof -
  obtain d where d: "c' = c\<lparr>coin_database := d\<rparr>" "coin_record_of E d = coin_record_of E (coin_database c)"
    using assms by (auto simp: only_reads_def)
  then have "db_coins E d = db_coins E (coin_database c)" "db_good E d = db_good E (coin_database c)"
    by (simp_all add: db_coins_def db_good_def)
  then show "coins E c' = coins E c" "coin_inv E c' = coin_inv E c" "cache_inv c' = cache_inv c"
    "mempool_cache c' = mempool_cache c" "mempool_size c' = mempool_size c" "main_cache c' = main_cache c"
    by (simp_all add: d(1) coins_def coin_inv_def cache_inv_def)
qed

definition coin_key :: "TransactionInput \<Rightarrow> uint32 \<times> uint8" where
  "coin_key i = (reference_transaction_hash i, utxo_index i)"

lemma validate_input_spec:
  assumes "coin_inv E c"
  shows "\<exists>c'. validate_input E i c = Inr (coin_key i \<in> dom (coins E c), c') \<and> only_reads E c c'"
proof -
  let ?h = "reference_transaction_hash i"
  let ?k = "serialize_from_construct ?h (utxo_index i)"
  show ?thesis
  proof (cases "map_of (main_cache c) ?k")
    case None
    obtain r where r: "coin_record_of E (coin_database c) ?h = Inr r" "record_good r"
      using assms db_goodD by (metis coin_inv_def)
    have "CoinRecord_deserialize (runtime_of E) (fst (get_safely (to_string (unat ?h)) (coin_database c))) = Inr r"
      using r(1) by (simp add: coin_record_of_def get_record)
    moreover have "coin_key i \<in> dom (coins E c) \<longleftrightarrow> ucast (utxo_index i) \<in> set (utxo r)"
      using ucast_notin [OF r, of "utxo_index i"] None by (auto simp: coins_def coin_key_def cache_coins_def map_add_def domIff)
    ultimately show ?thesis using None
      by (auto simp: validate_input_def case_prod_unfold list_ex_iff only_reads_def
          intro: exI [of _ "snd (get_safely (to_string (unat ?h)) (coin_database c))"])
  next
    case (Some coin)
    then have "\<not> is_spent coin"
      using assms map_of_SomeD [OF Some] by (auto simp: coin_inv_def cache_inv_def list_all_iff coin_entry_def)
    with Some show ?thesis by (auto simp: validate_input_def coins_def coin_key_def cache_coins_def map_add_def domIff)
  qed
qed

lemma validate_inputs_spec:
  assumes "coin_inv E c"
  shows "\<exists>c'. validate_inputs E is c = Inr (list_all (\<lambda>i. coin_key i \<in> dom (coins E c)) is, c') \<and> only_reads E c c'"
  using assms
proof (induction "is" arbitrary: c)
  case (Cons i "is")
  obtain c1 where c1: "validate_input E i c = Inr (coin_key i \<in> dom (coins E c), c1)" "only_reads E c c1"
    using validate_input_spec [OF Cons.prems] by blast
  obtain c2 where "validate_inputs E is c1 = Inr (list_all (\<lambda>i. coin_key i \<in> dom (coins E c)) is, c2)" "only_reads E c1 c2"
    using Cons.IH [of c1] Cons.prems only_reads_same [OF c1(2)] by auto
  with c1 show ?case by (auto intro: only_reads_trans)
qed simp

lemma validate_transaction_spec:
  assumes "coin_inv E c"
  shows "\<exists>c'. validate_transaction E tx c =
    Inr (list_all (\<lambda>i. coin_key i \<in> dom (coins E c)) (transaction_inputs tx), c') \<and> only_reads E c c'"
  unfolding validate_transaction_def by (rule validate_inputs_spec [OF assms])

lemma validate_block_spec:
  assumes "coin_inv E c"
  shows "\<exists>c'. validate_block E txs c =
    Inr (list_all (\<lambda>tx. list_all (\<lambda>i. coin_key i \<in> dom (coins E c)) (transaction_inputs tx)) txs, c') \<and> only_reads E c c'"
  using assms
proof (induction txs arbitrary: c)
  case (Cons tx txs)
  let ?valid = "\<lambda>c tx. list_all (\<lambda>i. coin_key i \<in> dom (coins E c)) (transaction_inputs tx)"
  obtain c1 where c1: "validate_transaction E tx c = Inr (?valid c tx, c1)" "only_reads E c c1"
    using validate_transaction_spec [OF Cons.prems] by blast
  obtain c2 where "validate_block E txs c1 = Inr (list_all (?valid c) txs, c2)" "only_reads E c1 c2"
    using Cons.IH [of c1] Cons.prems only_reads_same [OF c1(2)] by auto
  with c1 show ?case by (auto intro: only_reads_trans)
qed simp

section \<open>Spending and creating\<close>

lemma map_of_cache_erase: "map_of (cache_erase k xs) l = (if l = k then None else map_of xs l)"
  by (induction xs) (auto simp: cache_erase_def)

lemma cache_erase_coins:
  "cache_coins (cache_erase (serialize_from_construct h i) xs) = (cache_coins xs)((h, i) := None)"
  by (auto simp: cache_coins_def fun_eq_iff map_of_cache_erase)

lemma spend_stored:
  assumes "protobuf_runtime (runtime_of E)" "coin_inv E c" "coin_key i \<in> dom (coins E c)"
    and "map_of (main_cache c) (serialize_from_construct (reference_transaction_hash i) (utxo_index i)) = None"
  shows "\<exists>d. spend_input E i c = Inr (c\<lparr>coin_database := d\<rparr>) \<and> coin_inv E (c\<lparr>coin_database := d\<rparr>) \<and>
    coins E (c\<lparr>coin_database := d\<rparr>) = (coins E c)(coin_key i := None)"
proof -
  let ?h = "reference_transaction_hash i"
  have inv: "cache_inv c" "db_good E (coin_database c)" "dom (cache_coins (main_cache c)) \<inter> dom (db_coins E (coin_database c)) = {}"
    using assms(2) by (simp_all add: coin_inv_def)
  have out: "coin_key i \<notin> dom (cache_coins (main_cache c))" using assms(4) by (simp add: cache_coins_def coin_key_def domIff)
  with assms(3) have db: "(?h, utxo_index i) \<in> dom (db_coins E (coin_database c))"
    by (auto simp: coins_def coin_key_def)
  obtain r where r: "coin_record_of E (coin_database c) ?h = Inr r" "record_good r"
    using db_goodD [OF inv(2)] by blast
  have u: "ucast (utxo_index i) \<in> set (utxo r)" using ucast_notin [OF r] db by blast
  then have has: "Database_has (to_string (unat ?h)) (coin_database c)"
    by (rule coin_record_present [OF r(1)])
  have "CoinRecord_deserialize (runtime_of E) (fst (get_safely (to_string (unat ?h)) (coin_database c))) = Inr r"
    using r(1) by (simp add: coin_record_of_def get_record)
  moreover obtain r' d' where d': "erase_and_put E (to_string (unat ?h)) (vec_find (ucast (utxo_index i)) (utxo r)) r
      (snd (get_safely (to_string (unat ?h)) (coin_database c))) = Inr (r', d')" "db_good E d'"
    "db_coins E d' = (db_coins E (coin_database c))((?h, utxo_index i) := None)"
    using erase_record [OF assms(1) inv(2) r u, of "snd (get_safely (to_string (unat ?h)) (coin_database c))"] by auto
  ultimately have "spend_input E i c = Inr (c\<lparr>coin_database := d'\<rparr>)"
    using assms(4) has by (simp add: spend_input_def case_prod_unfold)
  moreover have "coin_inv E (c\<lparr>coin_database := d'\<rparr>)"
    using inv d'(2,3) by (auto simp: coin_inv_def cache_inv_def)
  moreover have "coins E (c\<lparr>coin_database := d'\<rparr>) = (coins E c)(coin_key i := None)"
    using out d'(3) by (auto simp: coins_def coin_key_def fun_eq_iff map_add_def split: option.splits)
  ultimately show ?thesis by auto
qed

lemma cache_erase_inv:
  assumes "cache_inv c" "map_of (main_cache c) k = Some coin"
  shows "cache_inv (c\<lparr>main_cache := cache_erase k (main_cache c), main_cache_size := main_cache_size c - 1\<rparr>)"
    and "unat (main_cache_size c - 1) \<le> unat (main_cache_size c)"
proof -
  have mem: "(k, coin) \<in> set (main_cache c)" using map_of_SomeD [OF assms(2)] .
  then have "length (cache_erase k (main_cache c)) < length (main_cache c)"
    unfolding cache_erase_def by (intro length_filter_less) auto
  moreover have "0 < unat (main_cache_size c)"
    using length_pos_if_in_set [OF mem] assms(1) unfolding cache_inv_def by linarith
  then have "unat (main_cache_size c - 1) = unat (main_cache_size c) - 1"
    by (simp add: unat_sub_if')
  ultimately show "cache_inv (c\<lparr>main_cache := cache_erase k (main_cache c), main_cache_size := main_cache_size c - 1\<rparr>)"
    "unat (main_cache_size c - 1) \<le> unat (main_cache_size c)"
    using assms(1) by (auto simp: cache_inv_def cache_erase_def distinct_map_filter list_all_iff)
qed

lemma spend_cached:
  assumes "coin_inv E c" "map_of (main_cache c) (serialize_from_construct (reference_transaction_hash i) (utxo_index i)) = Some coin"
  shows "\<exists>c'. spend_input E i c = Inr c' \<and> coin_inv E c' \<and> coins E c' = (coins E c)(coin_key i := None) \<and>
    mempool_cache c' = mempool_cache c \<and> coin_database c' = coin_database c \<and> unat (main_cache_size c') \<le> unat (main_cache_size c)"
proof -
  let ?k = "serialize_from_construct (reference_transaction_hash i) (utxo_index i)"
  let ?c = "c\<lparr>main_cache := cache_erase ?k (main_cache c), main_cache_size := main_cache_size c - 1\<rparr>"
  have inv: "cache_inv c" "db_good E (coin_database c)" "dom (cache_coins (main_cache c)) \<inter> dom (db_coins E (coin_database c)) = {}"
    using assms(1) by (simp_all add: coin_inv_def)
  note erase = cache_erase_inv [OF inv(1) assms(2)]
  have here: "coin_key i \<in> dom (cache_coins (main_cache c))"
    using assms(2) by (simp add: cache_coins_def coin_key_def domIff)
  have "coin_inv E ?c" using inv erase(1) by (auto simp: coin_inv_def cache_erase_coins)
  moreover have "coins E ?c = (coins E c)(coin_key i := None)"
    using here inv(3) by (auto simp: coins_def cache_erase_coins coin_key_def fun_eq_iff map_add_def split: option.splits)
  ultimately show ?thesis using assms(2) erase(2) by (auto simp: spend_input_def)
qed

lemma spend_input_spec:
  assumes "protobuf_runtime (runtime_of E)" "coin_inv E c" "coin_key i \<in> dom (coins E c)"
  shows "\<exists>c'. spend_input E i c = Inr c' \<and> coin_inv E c' \<and> coins E c' = (coins E c)(coin_key i := None) \<and>
    mempool_cache c' = mempool_cache c"
  using spend_stored [OF assms] spend_cached [OF assms(2), of i]
  by (cases "map_of (main_cache c) (serialize_from_construct (reference_transaction_hash i) (utxo_index i))") auto

text \<open>An input that is not unspent: erasing at the end when the store has its hash, nothing otherwise.\<close>

lemma spend_input_absent:
  assumes "coin_inv E c" "coin_key i \<notin> dom (coins E c)"
  shows "spend_input E i c =
    (if Database_has (to_string (unat (reference_transaction_hash i))) (coin_database c) then Inl UB_erase_at_end else Inr c)"
proof -
  let ?h = "reference_transaction_hash i"
  have None: "map_of (main_cache c) (serialize_from_construct ?h (utxo_index i)) = None"
    using assms(2) by (auto simp: coins_def coin_key_def cache_coins_def map_add_def domIff split: option.splits)
  obtain r where r: "coin_record_of E (coin_database c) ?h = Inr r" "record_good r"
    using assms(1) db_goodD by (metis coin_inv_def)
  have "(?h, utxo_index i) \<notin> dom (db_coins E (coin_database c))"
    using assms(2) by (auto simp: coins_def coin_key_def)
  then have "ucast (utxo_index i) \<notin> set (utxo r)" using ucast_notin [OF r] by blast
  then have "vec_erase (vec_find (ucast (utxo_index i)) (utxo r)) (utxo r) = Inl UB_erase_at_end"
    by (simp add: vec_erase_def vec_find_less_iff)
  moreover have "CoinRecord_deserialize (runtime_of E) (fst (get_safely (to_string (unat ?h)) (coin_database c))) = Inr r"
    using r(1) by (simp add: coin_record_of_def get_record)
  ultimately show ?thesis using None by (simp add: spend_input_def case_prod_unfold erase_and_put_def)
qed

lemma create_output_spec:
  assumes "protobuf_runtime (runtime_of E)" "order_ok E" "coin_inv E c"
    and "(h, i) \<notin> dom (coins E c)" "h = word_of_int hash" "i = word_of_int n"
  shows "\<exists>c'. create_output E hash n out c = Inr c' \<and> coin_inv E c' \<and> coins E c' = (coins E c)((h, i) \<mapsto> out) \<and>
    mempool_cache c' = mempool_cache c"
proof -
  obtain c1 where c1: "(if main_cache_capacity c \<le> main_cache_size c then flush_main_cache E c else Inr c) = Inr c1"
    "coin_inv E c1" "coins E c1 = coins E c" "unat (main_cache_size c1) < 70" "mempool_cache c1 = mempool_cache c"
  proof (cases "main_cache_capacity c \<le> main_cache_size c")
    case True
    then show ?thesis using that flush_spec [OF assms(1-3)] by auto
  next
    case False
    then have "unat (main_cache_size c) < 70"
      using assms(3) by (simp add: coin_inv_def cache_inv_def word_le_nat_alt)
    then show ?thesis using that [of c] False assms(3) by simp
  qed
  let ?c = "c1\<lparr>main_cache := cache_insert (serialize_from_construct h i) (Coin_new out False) (main_cache c1),
    main_cache_size := main_cache_size c1 + 1\<rparr>"
  have "(h, i) \<notin> dom (coins E c1)" using assms(4) c1(3) by simp
  then have out: "(h, i) \<notin> dom (cache_coins (main_cache c1))" "(h, i) \<notin> dom (db_coins E (coin_database c1))"
    by (auto simp: coins_def)
  then have ins: "cache_insert (serialize_from_construct h i) (Coin_new out False) (main_cache c1)
      = main_cache c1 @ [(serialize_from_construct h i, Coin_new out False)]"
    "serialize_from_construct h i \<notin> fst ` set (main_cache c1)"
    by (auto simp: cache_insert_def cache_coins_def domIff map_of_eq_None_iff)
  have coins: "cache_coins (main_cache c1 @ [(serialize_from_construct h i, Coin_new out False)]) = (cache_coins (main_cache c1))((h, i) \<mapsto> out)"
    using out(1) by (auto simp: cache_coins_def fun_eq_iff Coin_new_def map_add_def domIff split: option.splits)
  have "unat (main_cache_size c1 + 1) = unat (main_cache_size c1) + 1"
    using c1(4) by (simp add: unat_word_ariths)
  then have "cache_inv ?c"
    using c1(2,4) ins by (auto simp: coin_inv_def cache_inv_def coin_entry_def Coin_new_def)
  then have "coin_inv E ?c"
    using c1(2) out(2) by (auto simp: coin_inv_def ins(1) coins)
  moreover have "coins E ?c = (coins E c)((h, i) \<mapsto> out)"
    unfolding c1(3) [symmetric] by (simp add: coins_def ins(1) coins)
  ultimately show ?thesis using c1(1,5) assms(5,6) by (auto simp: create_output_def)
qed

section \<open>A whole transaction, a whole block\<close>

text \<open>
  What a transaction means for the unspent outputs: its inputs go, its outputs come, under its hash
  and their positions.
\<close>

definition utxo_step :: "uint32 \<Rightarrow> Transaction \<Rightarrow> (uint32 \<times> uint8 \<rightharpoonup> TransactionOutput) \<Rightarrow> (uint32 \<times> uint8 \<rightharpoonup> TransactionOutput)" where
  "utxo_step h tx m = (\<lambda>(h', i).
     if h' = h \<and> unat i < length (transaction_outputs tx) then Some (transaction_outputs tx ! unat i)
     else if (h', i) \<in> coin_key ` set (transaction_inputs tx) then None else m (h', i))"

definition tx_applicable :: "uint32 \<Rightarrow> Transaction \<Rightarrow> (uint32 \<times> uint8 \<rightharpoonup> TransactionOutput) \<Rightarrow> bool" where
  "tx_applicable h tx m \<longleftrightarrow>
     distinct (map coin_key (transaction_inputs tx)) \<and> list_all (\<lambda>i. coin_key i \<in> dom m) (transaction_inputs tx) \<and>
     length (transaction_outputs tx) \<le> 256 \<and> (\<forall>i. (h, i) \<notin> dom m)"

lemma spend_inputs_spec:
  assumes "protobuf_runtime (runtime_of E)"
  shows "coin_inv E c \<Longrightarrow> distinct (map coin_key is) \<Longrightarrow> list_all (\<lambda>i. coin_key i \<in> dom (coins E c)) is \<Longrightarrow>
    \<exists>c'. res_fold (spend_input E) is c = Inr c' \<and> coin_inv E c' \<and>
      coins E c' = (\<lambda>k. if k \<in> coin_key ` set is then None else coins E c k) \<and> mempool_cache c' = mempool_cache c"
proof (induction "is" arbitrary: c)
  case (Cons i "is")
  obtain c1 where c1: "spend_input E i c = Inr c1" "coin_inv E c1" "coins E c1 = (coins E c)(coin_key i := None)"
    "mempool_cache c1 = mempool_cache c"
    using spend_input_spec [OF assms Cons.prems(1), of i] Cons.prems(3) by auto
  have "coin_key j \<noteq> coin_key i" if "j \<in> set is" for j
    using Cons.prems(2) imageI [OF that, of coin_key] by auto
  then have "list_all (\<lambda>i. coin_key i \<in> dom (coins E c1)) is"
    using Cons.prems(3) by (simp add: c1(3) list_all_iff)
  then obtain c2 where c2: "res_fold (spend_input E) is c1 = Inr c2" "coin_inv E c2"
    "coins E c2 = (\<lambda>k. if k \<in> coin_key ` set is then None else coins E c1 k)" "mempool_cache c2 = mempool_cache c1"
    using Cons.IH [OF c1(2)] Cons.prems(2) by auto
  have "coins E c2 = (\<lambda>k. if k \<in> coin_key ` set (i # is) then None else coins E c k)"
    by (rule ext) (simp add: c2(3) c1(3))
  with c1 c2 show ?case by simp
qed simp

lemma create_outputs_spec:
  assumes "protobuf_runtime (runtime_of E)" "order_ok E"
  shows "coin_inv E c \<Longrightarrow> n + length outs \<le> 256 \<Longrightarrow> (\<And>i. n \<le> unat i \<Longrightarrow> (h, i) \<notin> dom (coins E c)) \<Longrightarrow>
    \<exists>c'. create_outputs E (sint h) (int n) outs c = Inr c' \<and> coin_inv E c' \<and>
      coins E c' = (\<lambda>(h', i). if h' = h \<and> n \<le> unat i \<and> unat i < n + length outs then Some (outs ! (unat i - n))
        else coins E c (h', i)) \<and> mempool_cache c' = mempool_cache c"
proof (induction outs arbitrary: n c)
  case Nil
  then show ?case by (auto simp: fun_eq_iff)
next
  case (Cons out outs)
  have n: "unat (of_nat n :: uint8) = n" using Cons.prems(2) by (simp add: unat_of_nat take_bit_nat_eq_self)
  have fresh: "(h, of_nat n) \<notin> dom (coins E c)" using Cons.prems(3) [of "of_nat n"] n by simp
  obtain c1 where c1: "create_output E (sint h) (int n) out c = Inr c1" "coin_inv E c1"
    "coins E c1 = (coins E c)((h, of_nat n) \<mapsto> out)" "mempool_cache c1 = mempool_cache c"
    using create_output_spec [OF assms Cons.prems(1) fresh, of "sint h" "int n" out] by auto
  have "(h, i) \<notin> dom (coins E c1)" if "Suc n \<le> unat i" for i
    using that Cons.prems(3) [of i] n by (auto simp: c1(3))
  then obtain c2 where c2: "create_outputs E (sint h) (int (Suc n)) outs c1 = Inr c2" "coin_inv E c2"
    "coins E c2 = (\<lambda>(h', i). if h' = h \<and> Suc n \<le> unat i \<and> unat i < Suc n + length outs then Some (outs ! (unat i - Suc n))
        else coins E c1 (h', i))" "mempool_cache c2 = mempool_cache c1"
    using Cons.IH [OF c1(2), of "Suc n"] Cons.prems(2) by auto
  have "coins E c2 (h', i) = (if h' = h \<and> n \<le> unat i \<and> unat i < n + length (out # outs) then Some ((out # outs) ! (unat i - n))
        else coins E c (h', i))" for h' i
  proof (cases "unat i = n")
    case True
    then have "i = of_nat n" by auto
    with n show ?thesis by (auto simp: c2(3) c1(3))
  next
    case False
    then have "i \<noteq> of_nat n" using n by auto
    moreover have "n \<le> unat i \<longleftrightarrow> Suc n \<le> unat i" "Suc n \<le> unat i \<Longrightarrow> unat i - n = Suc (unat i - Suc n)"
      using False by auto
    ultimately show ?thesis by (auto simp: c2(3) c1(3))
  qed
  with c1 c2 show ?case by (auto simp: fun_eq_iff add.commute)
qed

lemma store_transaction_spec:
  assumes "protobuf_runtime (runtime_of E)" "order_ok E" "coin_inv E c" "tx_applicable (hash_transaction E tx) tx (coins E c)"
  shows "\<exists>c'. store_transaction_coins E tx c = Inr c' \<and> coin_inv E c' \<and>
    coins E c' = utxo_step (hash_transaction E tx) tx (coins E c) \<and> mempool_cache c' = mempool_cache c"
proof -
  let ?h = "hash_transaction E tx"
  obtain c1 where c1: "res_fold (spend_input E) (transaction_inputs tx) c = Inr c1" "coin_inv E c1"
    "coins E c1 = (\<lambda>k. if k \<in> coin_key ` set (transaction_inputs tx) then None else coins E c k)" "mempool_cache c1 = mempool_cache c"
    using spend_inputs_spec [OF assms(1,3)] assms(4) unfolding tx_applicable_def by blast
  have "(?h, i) \<notin> dom (coins E c1)" for i using assms(4) by (auto simp: c1(3) tx_applicable_def domIff)
  then obtain c2 where c2: "create_outputs E (sint ?h) (int 0) (transaction_outputs tx) c1 = Inr c2" "coin_inv E c2"
    "coins E c2 = (\<lambda>(h', i). if h' = ?h \<and> 0 \<le> unat i \<and> unat i < 0 + length (transaction_outputs tx)
       then Some (transaction_outputs tx ! (unat i - 0)) else coins E c1 (h', i))" "mempool_cache c2 = mempool_cache c1"
    using create_outputs_spec [OF assms(1,2) c1(2), of 0 "transaction_outputs tx" ?h] assms(4)
    by (auto simp: tx_applicable_def)
  then show ?thesis using c1(1,3,4)
    by (auto simp: store_transaction_coins_def utxo_step_def fun_eq_iff)
qed

text \<open>A list of transactions, each applicable after the ones before it.\<close>

fun utxo_steps :: "'u env \<Rightarrow> Transaction list \<Rightarrow> (uint32 \<times> uint8 \<rightharpoonup> TransactionOutput) \<Rightarrow> (uint32 \<times> uint8 \<rightharpoonup> TransactionOutput)" where
  "utxo_steps E [] m = m"
| "utxo_steps E (tx # txs) m = utxo_steps E txs (utxo_step (hash_transaction E tx) tx m)"

fun txs_applicable :: "'u env \<Rightarrow> Transaction list \<Rightarrow> (uint32 \<times> uint8 \<rightharpoonup> TransactionOutput) \<Rightarrow> bool" where
  "txs_applicable E [] m \<longleftrightarrow> True"
| "txs_applicable E (tx # txs) m \<longleftrightarrow> tx_applicable (hash_transaction E tx) tx m \<and>
     txs_applicable E txs (utxo_step (hash_transaction E tx) tx m)"

lemma store_transactions_spec:
  assumes "protobuf_runtime (runtime_of E)" "order_ok E"
  shows "coin_inv E c \<Longrightarrow> txs_applicable E txs (coins E c) \<Longrightarrow>
    \<exists>c'. store_transactions_to_main_cache E txs c = Inr c' \<and> coin_inv E c' \<and> coins E c' = utxo_steps E txs (coins E c) \<and>
      mempool_cache c' = mempool_cache c"
proof (induction txs arbitrary: c)
  case (Cons tx txs)
  obtain c1 where c1: "store_transaction_coins E tx c = Inr c1" "coin_inv E c1"
    "coins E c1 = utxo_step (hash_transaction E tx) tx (coins E c)" "mempool_cache c1 = mempool_cache c"
    using store_transaction_spec [OF assms Cons.prems(1)] Cons.prems(2) by auto
  then show ?case using Cons.IH [OF c1(2)] Cons.prems(2) by (auto simp: store_transactions_to_main_cache_def)
qed (simp add: store_transactions_to_main_cache_def)

section \<open>The mempool\<close>

lemma remove_transactions_mempool:
  "mempool_cache (remove_transactions_from_mempool E txs c) = (mempool_cache c) |` (- (hash_transaction E ` set txs))"
  "coin_database (remove_transactions_from_mempool E txs c) = coin_database c"
  "main_cache (remove_transactions_from_mempool E txs c) = main_cache c"
  "main_cache_size (remove_transactions_from_mempool E txs c) = main_cache_size c"
  "main_cache_capacity (remove_transactions_from_mempool E txs c) = main_cache_capacity c"
  "mempool_size (remove_transactions_from_mempool E txs c) = mempool_size c"
  "mempool_capacity (remove_transactions_from_mempool E txs c) = mempool_capacity c"
  by (induction txs arbitrary: c)
    (auto simp: remove_transactions_from_mempool_def fun_eq_iff restrict_map_def)

lemma remove_transactions_same:
  "coins E (remove_transactions_from_mempool E txs c) = coins E c"
  "coin_inv E (remove_transactions_from_mempool E txs c) = coin_inv E c"
  by (simp_all add: coins_def coin_inv_def cache_inv_def remove_transactions_mempool)

lemma store_block_spec:
  assumes "protobuf_runtime (runtime_of E)" "order_ok E" "coin_inv E c" "txs_applicable E txs (coins E c)"
  shows "\<exists>c'. CoinDatabase_store_block E txs c = Inr c' \<and> coin_inv E c' \<and> coins E c' = utxo_steps E txs (coins E c) \<and>
    mempool_cache c' = (mempool_cache c) |` (- (hash_transaction E ` set txs))"
  using store_transactions_spec [OF assms(1,2), of "remove_transactions_from_mempool E txs c" txs] assms(3,4)
  by (auto simp: CoinDatabase_store_block_def remove_transactions_same remove_transactions_mempool)

section \<open>The initial state and the undo loops\<close>

lemma db_good_new: "db_good E Database_new" "db_coins E Database_new = Map.empty"
  by (simp_all add: db_good_def coin_record_of_def look_up_def Database_new_def CoinRecord_deserialize_Nil
      record_good_def CoinRecord_ok_def CoinRecord_new_def db_coins_def fun_eq_iff coins_of_def)

lemma coin_inv_new: "coin_inv E CoinDatabase_new" "coins E CoinDatabase_new = Map.empty"
  by (simp_all add: coin_inv_def cache_inv_def CoinDatabase_new_def db_good_new coins_def)

lemma for_equal_other: "i \<noteq> n \<Longrightarrow> for_equal n body i s = Inr s"
  by (simp add: for_equal.simps)

lemma for_equal_zero: "for_equal 0 body 0 s = body 0 s"
  by (cases "body 0 s") (simp_all add: for_equal.simps [of 0 body 0] for_equal_other)

lemma undo_coins_nonempty:
  "list_all (\<lambda>b. transaction_hashes b \<noteq> []) blocks \<Longrightarrow> undo_coins E blocks c = Inr c"
  by (induction blocks) (simp_all add: undo_coins_def for_equal_other)

lemma undo_coins_empty: "transaction_hashes b = [] \<Longrightarrow> undo_coins E (b # blocks) c = Inl UB_index_out_of_range"
  by (simp add: undo_coins_def for_equal_zero undo_hash_def)

section \<open>Every run of the coin database\<close>

text \<open>
  The public operations as steps. Whatever the runtime, the hash, the iteration order and the
  transactions are, the cache invariant holds after every step that returns, the mempool holds at most
  as many transactions as its counter says, and that counter never goes down.
\<close>

inductive coin_step :: "'u env \<Rightarrow> CoinDatabase \<Rightarrow> CoinDatabase \<Rightarrow> bool" for E where
  step_validate_block: "validate_block E txs c = Inr (valid, c') \<Longrightarrow> coin_step E c c'"
| step_validate_transaction: "validate_transaction E tx c = Inr (valid, c') \<Longrightarrow> coin_step E c c'"
| step_store_block: "CoinDatabase_store_block E txs c = Inr c' \<Longrightarrow> coin_step E c c'"
| step_store_transaction: "store_transaction E tx c = c' \<Longrightarrow> coin_step E c c'"
| step_validate_and_store_block: "validate_and_store_block E txs c = Inr (valid, c') \<Longrightarrow> coin_step E c c'"
| step_validate_and_store_transaction: "validate_and_store_transaction E tx c = Inr (valid, c') \<Longrightarrow> coin_step E c c'"
| step_remove: "remove_transactions_from_mempool E txs c = c' \<Longrightarrow> coin_step E c c'"
| step_store_coins: "store_transactions_to_main_cache E txs c = Inr c' \<Longrightarrow> coin_step E c c'"
| step_store_mempool: "store_transaction_in_mempool E tx c = c' \<Longrightarrow> coin_step E c c'"
| step_undo: "undo_coins E blocks c = Inr c' \<Longrightarrow> coin_step E c c'"
| step_flush: "flush_main_cache E c = Inr c' \<Longrightarrow> coin_step E c c'"

inductive coin_reachable :: "'u env \<Rightarrow> CoinDatabase \<Rightarrow> bool" for E where
  reach_new: "coin_reachable E CoinDatabase_new"
| reach_step: "coin_reachable E c \<Longrightarrow> coin_step E c c' \<Longrightarrow> coin_reachable E c'"

definition mempool_inv :: "CoinDatabase \<Rightarrow> bool" where
  "mempool_inv c \<longleftrightarrow> mempool_capacity c = 70 \<and> unat (mempool_size c) \<le> 70 \<and> finite (dom (mempool_cache c)) \<and>
     card (dom (mempool_cache c)) \<le> unat (mempool_size c)"

text \<open>What an operation that does not touch the mempool keeps.\<close>

definition same_mempool :: "CoinDatabase \<Rightarrow> CoinDatabase \<Rightarrow> bool" where
  "same_mempool c c' \<longleftrightarrow> mempool_cache c' = mempool_cache c \<and> mempool_size c' = mempool_size c \<and> mempool_capacity c' = mempool_capacity c"

definition keeps :: "CoinDatabase \<Rightarrow> CoinDatabase \<Rightarrow> bool" where
  "keeps c c' \<longleftrightarrow> same_mempool c c' \<and> (cache_inv c \<longrightarrow> cache_inv c')"

lemma keeps_refl [simp]: "keeps c c"
  by (simp add: keeps_def same_mempool_def)

lemma keeps_trans: "keeps c c' \<Longrightarrow> keeps c' c'' \<Longrightarrow> keeps c c''"
  by (simp add: keeps_def same_mempool_def)

lemma keeps_database [simp]: "keeps c (c\<lparr>coin_database := d\<rparr>)"
  by (simp add: keeps_def same_mempool_def cache_inv_def)

lemma keeps_fold:
  assumes "\<And>x s s'. f x s = Inr s' \<Longrightarrow> keeps s s'" "res_fold f xs s = Inr s'"
  shows "keeps s s'"
  by (rule res_fold_invariant [where P = "keeps s" and f = f and xs = xs, OF _ keeps_refl assms(2)])
    (blast intro: keeps_trans assms(1))

lemma keeps_validate_input: "validate_input E i c = Inr (v, c') \<Longrightarrow> keeps c c'"
  by (auto simp: validate_input_def case_prod_unfold Let_def split: option.splits)

lemma keeps_validate_inputs: "validate_inputs E is c = Inr (v, c') \<Longrightarrow> keeps c c'"
proof (induction "is" arbitrary: c)
  case (Cons i "is")
  then show ?case by (auto split: if_splits dest!: keeps_validate_input intro: keeps_trans)
qed simp

lemma keeps_validate_block: "validate_block E txs c = Inr (v, c') \<Longrightarrow> keeps c c'"
proof (induction txs arbitrary: c)
  case (Cons tx txs)
  then show ?case
    by (auto simp: validate_transaction_def split: if_splits dest!: keeps_validate_inputs intro: keeps_trans)
qed simp

lemma keeps_flush: "flush_main_cache E c = Inr c' \<Longrightarrow> keeps c c' \<and> (cache_inv c \<longrightarrow> main_cache_size c' = 0)"
  by (auto simp: flush_main_cache_def keeps_def same_mempool_def cache_inv_def)

lemma keeps_spend: "spend_input E i c = Inr c' \<Longrightarrow> keeps c c'"
proof (cases "map_of (main_cache c) (serialize_from_construct (reference_transaction_hash i) (utxo_index i))")
  case (Some coin)
  assume "spend_input E i c = Inr c'"
  then show ?thesis using Some cache_erase_inv(1) [OF _ Some] by (auto simp: spend_input_def keeps_def same_mempool_def)
qed (auto simp: spend_input_def case_prod_unfold Let_def split: if_splits)

lemma keeps_create_output: "create_output E h n out c = Inr c' \<Longrightarrow> keeps c c'"
proof -
  assume "create_output E h n out c = Inr c'"
  then obtain c1 where c1: "(if main_cache_capacity c \<le> main_cache_size c then flush_main_cache E c else Inr c) = Inr c1"
    and c': "c' = c1\<lparr>main_cache := cache_insert (serialize_from_construct (word_of_int h) (word_of_int n)) (Coin_new out False) (main_cache c1),
      main_cache_size := main_cache_size c1 + 1\<rparr>"
    by (auto simp: create_output_def)
  have k: "keeps c c1" using c1 keeps_flush [of E c c1] by (auto split: if_splits)
  have "cache_inv c'" if inv: "cache_inv c"
  proof -
    have inv1: "cache_inv c1" using k inv by (simp add: keeps_def)
    have "unat (main_cache_size c1) < 70"
      using c1 keeps_flush [of E c c1] inv by (auto simp: cache_inv_def word_le_nat_alt split: if_splits)
    then have "unat (main_cache_size c1 + 1) = unat (main_cache_size c1) + 1" "unat (main_cache_size c1) < 70"
      by (simp_all add: unat_word_ariths)
    moreover have "k \<notin> fst ` set xs" if "map_of xs k = None" for k and xs :: "(string \<times> Coin) list"
      using that by (simp add: map_of_eq_None_iff)
    ultimately show ?thesis
      using inv1 by (auto simp: c' cache_inv_def cache_insert_def coin_entry_def Coin_new_def)
  qed
  with k show ?thesis by (simp add: keeps_def same_mempool_def c')
qed

lemma keeps_create_outputs: "create_outputs E h n outs c = Inr c' \<Longrightarrow> keeps c c'"
proof (induction outs arbitrary: n c)
  case (Cons out outs)
  then show ?case by (auto dest!: keeps_create_output intro: keeps_trans)
qed simp

lemma keeps_spends: "res_fold (spend_input E) is c = Inr c' \<Longrightarrow> keeps c c'"
  by (rule keeps_fold [of "spend_input E"]) (auto intro: keeps_spend)

lemma keeps_store_transactions: "store_transactions_to_main_cache E txs c = Inr c' \<Longrightarrow> keeps c c'"
  unfolding store_transactions_to_main_cache_def
  by (rule keeps_fold [of "store_transaction_coins E"])
    (auto simp: store_transaction_coins_def dest!: keeps_spends keeps_create_outputs intro: keeps_trans)

lemma keeps_undo_coin: "undo_coin E h r j c = Inr c' \<Longrightarrow> keeps c c'"
  by (auto simp: undo_coin_def case_prod_unfold Let_def split: if_splits)

lemma keeps_for_equal:
  assumes "\<And>i s s'. body i s = Inr s' \<Longrightarrow> keeps s s'" "for_equal n body i s = Inr s'"
  shows "keeps s s'"
proof (cases "i = n")
  case True
  with assms(2) obtain s1 where s1: "body i s = Inr s1" "for_equal n body (Suc i) s1 = Inr s'"
    by (subst (asm) for_equal.simps) auto
  then have "s' = s1" using True by (simp add: for_equal_other)
  with s1(1) show ?thesis using assms(1) by blast
qed (use assms(2) in \<open>simp add: for_equal_other\<close>)

lemma keeps_undo_hash: "undo_hash E b i c = Inr c' \<Longrightarrow> keeps c c'"
proof -
  have "for_equal n (undo_coin E h r) j c = Inr c' \<Longrightarrow> keeps c c'" for n h r j
    by (rule keeps_for_equal [of "undo_coin E h r"]) (auto intro: keeps_undo_coin)
  then show "undo_hash E b i c = Inr c' \<Longrightarrow> keeps c c'"
    by (auto simp: undo_hash_def)
qed

lemma keeps_undo_coins: "undo_coins E blocks c = Inr c' \<Longrightarrow> keeps c c'"
proof -
  have *: "for_equal n (undo_hash E b) j s = Inr s' \<Longrightarrow> keeps s s'" for n b j s s'
    by (rule keeps_for_equal [of "undo_hash E b"]) (auto intro: keeps_undo_hash)
  assume "undo_coins E blocks c = Inr c'"
  then show ?thesis
    unfolding undo_coins_def
    by (rule keeps_fold [rotated]) (rule *)
qed

lemma mempool_inv_same: "same_mempool c c' \<Longrightarrow> mempool_inv c' = mempool_inv c"
  by (simp add: same_mempool_def mempool_inv_def)

lemma store_transaction_mempool:
  assumes "mempool_inv c"
  shows "mempool_inv (store_transaction E tx c)" "mempool_size c \<le> mempool_size (store_transaction E tx c)"
    "cache_inv (store_transaction E tx c) = cache_inv c"
proof -
  have inv: "mempool_capacity c = 70" "unat (mempool_size c) \<le> 70" "finite (dom (mempool_cache c))"
    "card (dom (mempool_cache c)) \<le> unat (mempool_size c)"
    using assms by (simp_all add: mempool_inv_def)
  show "cache_inv (store_transaction E tx c) = cache_inv c"
    by (simp add: store_transaction_def store_transaction_in_mempool_def cache_inv_def Let_def)
  have size: "unat (mempool_size c + 1) = unat (mempool_size c) + 1 \<and> unat (mempool_size c) < 70" if "mempool_capacity c \<noteq> mempool_size c"
  proof -
    have "unat (mempool_size c) \<noteq> 70"
    proof
      assume "unat (mempool_size c) = 70"
      then have "unat (mempool_size c) = unat (70 :: uint16)" by simp
      with that inv(1) show False by (simp only: unat_inject)
    qed
    with inv(2) show ?thesis by (simp add: unat_word_ariths)
  qed
  show "mempool_inv (store_transaction E tx c)"
    using inv size by (auto simp: mempool_inv_def store_transaction_def store_transaction_in_mempool_def Let_def card_insert_if)
  show "mempool_size c \<le> mempool_size (store_transaction E tx c)"
    using size by (auto simp: store_transaction_def store_transaction_in_mempool_def Let_def word_le_nat_alt)
qed

lemma remove_transactions_inv:
  assumes "mempool_inv c"
  shows "mempool_inv (remove_transactions_from_mempool E txs c)"
proof -
  have "card (dom (mempool_cache c) \<inter> - hash_transaction E ` set txs) \<le> card (dom (mempool_cache c))"
    using assms by (intro card_mono) (auto simp: mempool_inv_def)
  then show ?thesis using assms by (auto simp: mempool_inv_def remove_transactions_mempool dom_restrict)
qed

text \<open>
  Every step only keeps, or it also takes transactions out of the mempool before or puts one in afterwards.
\<close>

lemma coin_step_kinds:
  assumes "coin_step E c c'"
  shows "keeps c c' \<or> (\<exists>c1 txs. keeps c c1 \<and> keeps (remove_transactions_from_mempool E txs c1) c') \<or>
    (\<exists>c1 tx. keeps c c1 \<and> c' = store_transaction E tx c1)"
  using assms
proof cases
  case (step_store_block txs)
  then have "keeps (remove_transactions_from_mempool E txs c) c'"
    by (simp add: CoinDatabase_store_block_def keeps_store_transactions)
  then show ?thesis using keeps_refl by blast
next
  case (step_validate_and_store_block txs valid)
  then obtain v c1 where c1: "validate_block E txs c = Inr (v, c1)"
    "(if v then res_bind (CoinDatabase_store_block E txs c1) (\<lambda>c. Inr (True, c)) else Inr (False, c1)) = Inr (valid, c')"
    by (auto simp: validate_and_store_block_def)
  then have "keeps (remove_transactions_from_mempool E txs c1) c'" if v
    using that by (auto simp: CoinDatabase_store_block_def keeps_store_transactions)
  with keeps_validate_block [OF c1(1)] c1(2) show ?thesis by (cases v) auto
next
  case (step_validate_and_store_transaction tx valid)
  then obtain v c1 where "validate_inputs E (transaction_inputs tx) c = Inr (v, c1)" "c' = (if v then store_transaction E tx c1 else c1)"
    by (auto simp: validate_and_store_transaction_def validate_transaction_def split: if_splits)
  then show ?thesis using keeps_validate_inputs by metis
next
  case (step_remove txs)
  then show ?thesis using keeps_refl by blast
next
  case (step_store_mempool tx)
  then have "c' = store_transaction E tx c" by (simp add: store_transaction_def)
  then show ?thesis using keeps_refl by blast
qed (auto simp: validate_transaction_def intro: keeps_refl
  dest: keeps_validate_block keeps_validate_inputs keeps_store_transactions keeps_undo_coins keeps_flush)

lemma coin_step_keeps:
  assumes "coin_step E c c'" "mempool_inv c"
  shows "mempool_inv c' \<and> mempool_size c \<le> mempool_size c' \<and> (cache_inv c \<longrightarrow> cache_inv c')"
proof -
  have keep: "mempool_inv c2 \<and> mempool_size c2 = mempool_size c1 \<and> (cache_inv c1 \<longrightarrow> cache_inv c2)" if "keeps c1 c2" "mempool_inv c1" for c1 c2
    using that mempool_inv_same [of c1 c2] by (auto simp: keeps_def same_mempool_def)
  from coin_step_kinds [OF assms(1)] show ?thesis
  proof (elim disjE exE conjE)
    assume "keeps c c'"
    then show ?thesis using keep assms(2) by fastforce
  next
    fix c1 txs assume s: "keeps c c1" "keeps (remove_transactions_from_mempool E txs c1) c'"
    have "cache_inv (remove_transactions_from_mempool E txs c1) = cache_inv c1"
      "mempool_size (remove_transactions_from_mempool E txs c1) = mempool_size c1"
      by (simp_all add: cache_inv_def remove_transactions_mempool)
    then show ?thesis using keep [OF s(1) assms(2)] keep [OF s(2)] remove_transactions_inv [of c1 E txs] by simp
  next
    fix c1 tx assume "keeps c c1" "c' = store_transaction E tx c1"
    then show ?thesis using keep [OF _ assms(2), of c1] store_transaction_mempool [of c1 E tx] by simp
  qed
qed

lemma reachable_inv: "coin_reachable E c \<Longrightarrow> mempool_inv c \<and> cache_inv c"
proof (induction rule: coin_reachable.induct)
  case reach_new
  then show ?case by (simp add: mempool_inv_def cache_inv_def CoinDatabase_new_def)
next
  case (reach_step c c')
  then show ?case using coin_step_keeps by blast
qed

text \<open>Once the counter has reached the capacity, it stays there, and no transaction enters the mempool again.\<close>

lemma coin_step_full:
  assumes "coin_step E c c'" "mempool_inv c" "mempool_size c = 70"
  shows "mempool_size c' = 70 \<and> dom (mempool_cache c') \<subseteq> dom (mempool_cache c)"
proof -
  have keep: "mempool_size c1 = 70 \<and> mempool_capacity c1 = 70 \<and> mempool_cache c1 = mempool_cache c" if "keeps c c1" for c1
    using that assms(2,3) by (simp add: keeps_def same_mempool_def mempool_inv_def)
  from coin_step_kinds [OF assms(1)] show ?thesis
  proof (elim disjE exE conjE)
    assume "keeps c c'"
    then show ?thesis using keep [of c'] by simp
  next
    fix c1 txs assume s: "keeps c c1" "keeps (remove_transactions_from_mempool E txs c1) c'"
    then show ?thesis using keep [OF s(1)] by (auto simp: keeps_def same_mempool_def remove_transactions_mempool)
  next
    fix c1 tx assume "keeps c c1" "c' = store_transaction E tx c1"
    then show ?thesis using keep [of c1] by (simp add: store_transaction_def store_transaction_in_mempool_def)
  qed
qed

end
