(* ===== verification/Chain.thy ===== *)
theory Chain
  imports Chain_Writer Coin_Spec
begin

text \<open>
  \<open>Chain\<close> of \<open>core/src/chain/chain.cpp\<close>: the active chain, whose last block is kept in
  memory, whose blocks are found by hash through the block-info database and read back from the files,
  and whose coins are in the coin database. The file system is passed beside the object. Loops with an
  \<open>int\<close> that counts down from the 32-bit length are recursions on that number of rounds.
\<close>

record Chain =
  active_chain_length :: uint32
  active_chain_last_block :: Block
  block_info_database :: BlockInfoDatabase
  chain_writer :: ChainWriter
  chain_coin_database :: CoinDatabase

definition hash_block :: "'u env \<Rightarrow> Block \<Rightarrow> uint32" where
  "hash_block E b = CryptCrypto_hash (garbage_of E) (Block_serialize (runtime_of E) b)"

section \<open>Construction\<close>

definition construct_genesis_block :: Block where
  "construct_genesis_block =
     (let header = BlockHeader_new 1 0 0 0 0 0;
          transactionOutput = [TransactionOutput_new 100 12345, TransactionOutput_new 200 67891, TransactionOutput_new 300 23456]
      in Block_new header [Transaction_new [] transactionOutput 0 0])"

definition Chain_new :: "'u env \<Rightarrow> file_system \<Rightarrow> (Chain \<times> file_system) result" where
  "Chain_new E fs =
     (let ch = \<lparr>active_chain_length = 1, active_chain_last_block = construct_genesis_block,
                block_info_database = BlockInfoDatabase_new, chain_writer = ChainWriter_new,
                chain_coin_database = CoinDatabase_new\<rparr>;
          last = active_chain_last_block ch
      in res_bind (ChainWriter_store_block (runtime_of E) (garbage_of E) last 1 (chain_writer ch, fs)) (\<lambda>(record, w, fs).
         let ch = ch\<lparr>chain_writer := w,
                block_info_database := store_block_record (runtime_of E) (hash_block E last) record (block_info_database ch)\<rparr>
         in res_bind (CoinDatabase_store_block E (get_transactions last) (chain_coin_database ch)) (\<lambda>c.
            Inr (ch\<lparr>chain_coin_database := c\<rparr>, fs))))"

section \<open>Reading the chain\<close>

definition get_last_block :: "'u env \<Rightarrow> Chain \<Rightarrow> Block option result" where
  "get_last_block E ch = Block_deserialize (runtime_of E) (Block_serialize (runtime_of E) (active_chain_last_block ch))"

definition get_last_block_hash :: "'u env \<Rightarrow> Chain \<Rightarrow> uint32 result" where
  "get_last_block_hash E ch =
     res_bind (get_last_block E ch) (\<lambda>b. case b of None \<Rightarrow> Inl UB_null_dereference | Some b \<Rightarrow> Inr (hash_block E b))"

definition get_active_chain_length :: "Chain \<Rightarrow> uint32" where
  "get_active_chain_length ch = active_chain_length ch"

text \<open>\<open>get_block_record\<close> never returns a null pointer, so the null tests of the callers do not fire.\<close>

definition get_chain_length :: "'u env \<Rightarrow> uint32 \<Rightarrow> Chain \<Rightarrow> (uint32 \<times> Chain) result" where
  "get_chain_length E h ch =
     res_bind (get_block_record (runtime_of E) h (block_info_database ch)) (\<lambda>(r, d).
     Inr (height r, ch\<lparr>block_info_database := d\<rparr>))"

definition load_block :: "'u env \<Rightarrow> uint32 \<Rightarrow> file_system \<Rightarrow> BlockInfoDatabase \<Rightarrow> (Block option \<times> BlockInfoDatabase) result" where
  "load_block E h fs d =
     res_bind (get_block_record (runtime_of E) h d) (\<lambda>(r, d).
     res_bind (read_block (FileInfo_new (block_file_stored r) (block_offset_start r) (block_offset_end r)) fs) (\<lambda>s.
     res_bind (Block_deserialize (runtime_of E) s) (\<lambda>b. Inr (b, d))))"

definition get_block :: "'u env \<Rightarrow> uint32 \<Rightarrow> file_system \<Rightarrow> Chain \<Rightarrow> (Block option \<times> Chain) result" where
  "get_block E h fs ch =
     res_bind (load_block E h fs (block_info_database ch)) (\<lambda>(b, d). Inr (b, ch\<lparr>block_info_database := d\<rparr>))"

text \<open>The number of rounds of \<open>for (int i = length; i >= 1; i--)\<close>.\<close>

definition rounds :: "uint32 \<Rightarrow> nat" where
  "rounds len = nat (sint len)"

fun hashes_loop ::
  "'u env \<Rightarrow> uint32 \<Rightarrow> uint32 \<Rightarrow> nat \<Rightarrow> uint32 \<Rightarrow> uint32 list \<Rightarrow> BlockInfoDatabase \<Rightarrow> (uint32 list \<times> BlockInfoDatabase) result" where
  "hashes_loop E start stop 0 prev result d = Inr (result, d)"
| "hashes_loop E start stop (Suc i) prev result d =
     (if of_nat (Suc i) < start then Inr (result, d)
      else let result = (if of_nat (Suc i) \<le> stop then prev # result else result)
           in res_bind (get_block_record (runtime_of E) prev d) (\<lambda>(r, d).
              hashes_loop E start stop i (previous_block_hash (BlockRecord_block_header r)) result d))"

definition get_active_chain_hashes :: "'u env \<Rightarrow> uint32 \<Rightarrow> uint32 \<Rightarrow> Chain \<Rightarrow> (uint32 list \<times> Chain) result" where
  "get_active_chain_hashes E start stop ch =
     (if stop < start then Inr ([], ch)
      else let start = (if start = 0 then 1 else start);
               stop = (if active_chain_length ch < stop then active_chain_length ch else stop)
           in res_bind (get_last_block_hash E ch) (\<lambda>prev.
              res_bind (hashes_loop E start stop (rounds (active_chain_length ch)) prev [] (block_info_database ch)) (\<lambda>(result, d).
              Inr (result, ch\<lparr>block_info_database := d\<rparr>))))"

fun chain_loop ::
  "'u env \<Rightarrow> uint32 \<Rightarrow> uint32 \<Rightarrow> file_system \<Rightarrow> nat \<Rightarrow> uint32 \<Rightarrow> Block option list \<Rightarrow> BlockInfoDatabase
     \<Rightarrow> (Block option list \<times> BlockInfoDatabase) result" where
  "chain_loop E start stop fs 0 prev result d = Inr (result, d)"
| "chain_loop E start stop fs (Suc i) prev result d =
     (if of_nat (Suc i) < start then Inr (result, d)
      else res_bind (if of_nat (Suc i) \<le> stop
                     then res_bind (load_block E prev fs d) (\<lambda>(b, d). Inr (b # result, d))
                     else Inr (result, d)) (\<lambda>(result, d).
           res_bind (get_block_record (runtime_of E) prev d) (\<lambda>(r, d).
           chain_loop E start stop fs i (previous_block_hash (BlockRecord_block_header r)) result d)))"

definition get_active_chain :: "'u env \<Rightarrow> uint32 \<Rightarrow> uint32 \<Rightarrow> file_system \<Rightarrow> Chain \<Rightarrow> (Block option list \<times> Chain) result" where
  "get_active_chain E start stop fs ch =
     (if stop < start then Inr ([], ch)
      else let start = (if start = 0 then 1 else start);
               stop = (if active_chain_length ch < stop then active_chain_length ch else stop)
           in res_bind (get_last_block_hash E ch) (\<lambda>prev.
              res_bind (chain_loop E start stop fs (rounds (active_chain_length ch)) prev [] (block_info_database ch)) (\<lambda>(result, d).
              Inr (result, ch\<lparr>block_info_database := d\<rparr>))))"

section \<open>Forks\<close>

fun forked_loop :: "'u env \<Rightarrow> nat \<Rightarrow> uint32 \<Rightarrow> uint32 list \<Rightarrow> BlockInfoDatabase \<Rightarrow> (uint32 list \<times> BlockInfoDatabase) result" where
  "forked_loop E 0 prev forked d = Inr (forked, d)"
| "forked_loop E (Suc i) prev forked d =
     res_bind (get_block_record (runtime_of E) prev d) (\<lambda>(r, d).
     forked_loop E i (previous_block_hash (BlockRecord_block_header r)) (prev # forked) d)"

text \<open>
  \<open>*std::mismatch(xs.begin(), xs.end(), ys.begin()).first\<close>: reading past the shorter second
  range, or the end of the first, is undefined.
\<close>

fun first_mismatch :: "uint32 list \<Rightarrow> uint32 list \<Rightarrow> uint32 result" where
  "first_mismatch [] ys = Inl UB_index_out_of_range"
| "first_mismatch (x # xs) [] = Inl UB_index_out_of_range"
| "first_mismatch (x # xs) (y # ys) = (if x = y then first_mismatch xs ys else Inr x)"

fun result_loop :: "'u env \<Rightarrow> uint32 \<Rightarrow> file_system \<Rightarrow> nat \<Rightarrow> uint32 \<Rightarrow> Block option list \<Rightarrow> BlockInfoDatabase
     \<Rightarrow> (Block option list \<times> BlockInfoDatabase) result" where
  "result_loop E ancestor fs 0 prev result d = Inr (result, d)"
| "result_loop E ancestor fs (Suc i) prev result d =
     (if prev = ancestor then res_bind (load_block E prev fs d) (\<lambda>(b, d). Inr (result @ [b], d))
      else res_bind (load_block E prev fs d) (\<lambda>(b, d).
           res_bind (get_block_record (runtime_of E) prev d) (\<lambda>(r, d).
           result_loop E ancestor fs i (previous_block_hash (BlockRecord_block_header r)) (result @ [b]) d)))"

definition get_forked_blocks_stack :: "'u env \<Rightarrow> uint32 \<Rightarrow> file_system \<Rightarrow> Chain \<Rightarrow> (Block option list \<times> Chain) result" where
  "get_forked_blocks_stack E starting_hash fs ch =
     res_bind (get_active_chain_hashes E 1 (active_chain_length ch) ch) (\<lambda>(activeBlocks, ch).
     res_bind (get_block_record (runtime_of E) starting_hash (block_info_database ch)) (\<lambda>(r, d).
     let blockHeight = height r
     in res_bind (forked_loop E (rounds blockHeight) starting_hash [] d) (\<lambda>(forkedBlocks, d).
        res_bind (first_mismatch activeBlocks forkedBlocks) (\<lambda>activeFirstMismatchHash.
        res_bind (get_block_record (runtime_of E) activeFirstMismatchHash d) (\<lambda>(r, d).
        let commonAncestorHash = previous_block_hash (BlockRecord_block_header r);
            forkedPrevHash = previous_block_hash (BlockRecord_block_header r)
        in res_bind (result_loop E commonAncestorHash fs (rounds blockHeight) forkedPrevHash [] d) (\<lambda>(result, d).
           Inr (result, ch\<lparr>block_info_database := d\<rparr>)))))))"

fun undo_queue_loop :: "'u env \<Rightarrow> file_system \<Rightarrow> nat \<Rightarrow> uint32 \<Rightarrow> UndoBlock list \<Rightarrow> BlockInfoDatabase
     \<Rightarrow> (UndoBlock list \<times> BlockInfoDatabase) result" where
  "undo_queue_loop E fs 0 prev result d = Inr (result, d)"
| "undo_queue_loop E fs (Suc i) prev result d =
     res_bind (get_block_record (runtime_of E) prev d) (\<lambda>(r, d).
     res_bind (read_undo_block (FileInfo_new (undo_file_stored r) (undo_offset_start r) (undo_offset_end r)) fs) (\<lambda>s.
     res_bind (UndoBlock_deserialize (runtime_of E) s) (\<lambda>u.
     undo_queue_loop E fs i (previous_block_hash (BlockRecord_block_header r)) (result @ [u]) d)))"

definition get_undo_blocks_queue :: "'u env \<Rightarrow> uint32 \<Rightarrow> file_system \<Rightarrow> Chain \<Rightarrow> (UndoBlock list \<times> Chain) result" where
  "get_undo_blocks_queue E branching_height fs ch =
     res_bind (get_last_block_hash E ch) (\<lambda>prev.
     if branching_height = 0 \<or> active_chain_length ch < branching_height then Inr ([], ch)
     else res_bind (undo_queue_loop E fs (unat (active_chain_length ch - branching_height)) prev [] (block_info_database ch)) (\<lambda>(result, d).
          Inr (result, ch\<lparr>block_info_database := d\<rparr>)))"

section \<open>Handling a block and a transaction\<close>

definition extend_active_chain :: "'u env \<Rightarrow> Block \<Rightarrow> uint32 \<Rightarrow> Chain \<times> file_system \<Rightarrow> (Chain \<times> file_system) result" where
  "extend_active_chain E b currentHash = (\<lambda>(ch, fs).
     res_bind (CoinDatabase_store_block E (get_transactions b) (chain_coin_database ch)) (\<lambda>c.
     let blockHeight = active_chain_length ch + 1
     in res_bind (ChainWriter_store_block (runtime_of E) (garbage_of E) b blockHeight (chain_writer ch, fs)) (\<lambda>(newRecord, w, fs).
        Inr (ch\<lparr>chain_coin_database := c, chain_writer := w,
               block_info_database := store_block_record (runtime_of E) currentHash newRecord (block_info_database ch),
               active_chain_length := active_chain_length ch + 1,
               active_chain_last_block := b\<rparr>, fs))))"

definition take_over :: "'u env \<Rightarrow> Block \<Rightarrow> uint32 \<Rightarrow> Chain \<times> file_system \<Rightarrow> (Chain \<times> file_system) result" where
  "take_over E b currentHash = (\<lambda>(ch, fs).
     res_bind (get_forked_blocks_stack E currentHash fs ch) (\<lambda>(forkedBlocks, ch).
     res_bind (get_undo_blocks_queue E (of_nat (length forkedBlocks)) fs ch) (\<lambda>(undoBlocks, ch).
     res_bind (undo_coins E undoBlocks (chain_coin_database ch)) (\<lambda>c.
     res_bind (res_fold (\<lambda>fetchedBlock c. case fetchedBlock of
         None \<Rightarrow> Inl UB_null_dereference
       | Some fetched \<Rightarrow> CoinDatabase_store_block E (get_transactions fetched) c) forkedBlocks c) (\<lambda>c.
     Inr (ch\<lparr>chain_coin_database := c, active_chain_length := active_chain_length ch + 1,
            active_chain_last_block := b\<rparr>, fs))))))"

definition store_fork :: "'u env \<Rightarrow> Block \<Rightarrow> uint32 \<Rightarrow> Chain \<times> file_system \<Rightarrow> (Chain \<times> file_system) result" where
  "store_fork E b currentHash = (\<lambda>(ch, fs).
     res_bind (get_block_record (runtime_of E) (previous_block_hash (Block_block_header b)) (block_info_database ch)) (\<lambda>(prevBlockRecord, d).
     let blockHeight = height prevBlockRecord + 1;
         numOfTransactions = of_nat (length (transactions b))
     in res_bind (write_block (Block_serialize (runtime_of E) b) (chain_writer ch, fs)) (\<lambda>(blockFileInfo, w, fs).
        let dummyUndoBlockFileInfo = FileInfo_new '''' 0 0;
            rawHeader = BlockHeader_serialize (runtime_of E) (Block_block_header b)
        in res_bind (BlockHeader_deserialize (runtime_of E) rawHeader) (\<lambda>header.
           case blockFileInfo of
             None \<Rightarrow> Inl UB_null_dereference
           | Some info \<Rightarrow>
               let r = BlockRecord_new header numOfTransactions blockHeight info dummyUndoBlockFileInfo;
                   ch = ch\<lparr>chain_writer := w, block_info_database := store_block_record (runtime_of E) currentHash r d\<rparr>
               in if active_chain_length ch < blockHeight then take_over E b currentHash (ch, fs)
                  else Inr (ch, fs)))))"

definition handle_block :: "'u env \<Rightarrow> Block \<Rightarrow> Chain \<times> file_system \<Rightarrow> (Chain \<times> file_system) result" where
  "handle_block E b = (\<lambda>(ch, fs).
     let currentHash = hash_block E b;
         prevHash = previous_block_hash (Block_block_header b)
     in res_bind (validate_block E (get_transactions b) (chain_coin_database ch)) (\<lambda>(valid, c).
        let ch = ch\<lparr>chain_coin_database := c\<rparr>
        in res_bind (get_last_block_hash E ch) (\<lambda>lastHash.
           if valid \<or> prevHash \<noteq> lastHash then
             (if prevHash = lastHash then extend_active_chain E b currentHash (ch, fs)
              else store_fork E b currentHash (ch, fs))
           else Inr (ch, fs))))"

definition handle_transaction :: "'u env \<Rightarrow> Transaction \<Rightarrow> Chain \<Rightarrow> Chain result" where
  "handle_transaction E tx ch =
     res_bind (validate_and_store_transaction E (Transaction_new (transaction_inputs tx) (transaction_outputs tx) 0 0)
       (chain_coin_database ch)) (\<lambda>(_, c). Inr (ch\<lparr>chain_coin_database := c\<rparr>))"

end
