(* ===== verification/Simulation.thy ===== *)
theory Simulation
  imports Prelude
begin

text \<open>
  How a program that handles one message after the other is compared with its description. Program and description
  return results: they \<open>agree\<close> when both fail with the same error or both return and the values are related. Only
  covered messages are compared, and the relation carries a number \<open>k\<close> of steps there still is room for. The chain
  (a run of blocks that extend it) and the node (any sequence of messages) are instances.
\<close>

section \<open>Results that agree\<close>

abbreviation agree :: "('a \<Rightarrow> 's \<Rightarrow> bool) \<Rightarrow> 'a result \<Rightarrow> 's result \<Rightarrow> bool" where
  "agree R \<equiv> rel_sum (=) R"

lemma agree_Inl [simp]: "agree R (Inl e) y \<longleftrightarrow> y = Inl e"
  by (cases y) auto

lemma agree_Inr: "agree R (Inr a) y \<longleftrightarrow> (\<exists>s. y = Inr s \<and> R a s)"
  by (cases y) auto

lemma agree_bind:
  assumes "agree R x y" "\<And>a s. x = Inr a \<Longrightarrow> y = Inr s \<Longrightarrow> R a s \<Longrightarrow> agree S (f a) (g s)"
  shows "agree S (res_bind x f) (res_bind y g)"
  using assms by (cases x; cases y) auto

lemma agree_mono: "agree R x y \<Longrightarrow> (\<And>a s. R a s \<Longrightarrow> S a s) \<Longrightarrow> agree S x y"
  by (cases x; cases y) auto

lemma agree_fold:
  assumes "\<And>x a s. x \<in> set xs \<Longrightarrow> R a s \<Longrightarrow> agree R (f x a) (g x s)"
  shows "R a s \<Longrightarrow> agree R (res_fold f xs a) (res_fold g xs s)"
  using assms
proof (induction xs arbitrary: a s)
  case (Cons x xs)
  have "agree R (f x a) (g x s)" using Cons.prems by simp
  then show ?case
    unfolding res_fold.simps by (rule agree_bind) (rule Cons.IH; use Cons.prems in auto)
qed simp

section \<open>Runs of a description\<close>

fun covered_run :: "('m \<Rightarrow> 'a \<Rightarrow> 'a result) \<Rightarrow> ('m \<Rightarrow> 'a \<Rightarrow> bool) \<Rightarrow> 'm list \<Rightarrow> 'a \<Rightarrow> bool" where
  "covered_run spec covered [] a \<longleftrightarrow> True"
| "covered_run spec covered (m # ms) a \<longleftrightarrow> covered m a \<and>
     (case spec m a of Inl e \<Rightarrow> True | Inr a' \<Rightarrow> covered_run spec covered ms a')"

lemma res_fold_snoc: "res_fold spec (ms @ [m]) a = res_bind (res_fold spec ms a) (spec m)"
proof (cases "res_fold spec ms a")
  case (Inr a')
  then show ?thesis by (cases "spec m a'") (simp_all add: res_fold_append)
qed (simp add: res_fold_append)

lemma covered_run_append:
  "covered_run spec covered (ms @ ms') a \<longleftrightarrow> covered_run spec covered ms a \<and>
     (case res_fold spec ms a of Inl e \<Rightarrow> True | Inr a' \<Rightarrow> covered_run spec covered ms' a')"
  by (induction ms arbitrary: a) (auto split: sum.splits)

lemma covered_run_snoc:
  "covered_run spec covered (ms @ [m]) a \<longleftrightarrow> covered_run spec covered ms a \<and>
     (case res_fold spec ms a of Inl e \<Rightarrow> True | Inr a' \<Rightarrow> covered m a')"
  by (auto simp: covered_run_append split: sum.splits)

text \<open>What every covered step keeps or increases.\<close>

lemma covered_run_le:
  fixes f :: "'a \<Rightarrow> nat"
  assumes "\<And>m a a'. covered m a \<Longrightarrow> spec m a = Inr a' \<Longrightarrow> f a \<le> f a'"
  shows "covered_run spec covered ms a \<Longrightarrow> res_fold spec ms a = Inr a' \<Longrightarrow> f a \<le> f a'"
proof (induction ms arbitrary: a)
  case (Cons m ms)
  then show ?case using assms le_trans by (force split: sum.splits)
qed simp

section \<open>Simulation\<close>

locale simulation =
  fixes step :: "'m \<Rightarrow> 's \<Rightarrow> 's result"
    and spec :: "'m \<Rightarrow> 'a \<Rightarrow> 'a result"
    and covered :: "'m \<Rightarrow> 'a \<Rightarrow> bool"
    and rel :: "nat \<Rightarrow> 'a \<Rightarrow> 's \<Rightarrow> bool"
  assumes sim_step: "rel (Suc k) a s \<Longrightarrow> covered m a \<Longrightarrow> agree (rel k) (spec m a) (step m s)"
begin

lemma sim_run:
  "rel (length ms + k) a s \<Longrightarrow> covered_run spec covered ms a \<Longrightarrow> agree (rel k) (res_fold spec ms a) (res_fold step ms s)"
proof (induction ms arbitrary: a s)
  case (Cons m ms)
  have "agree (rel (length ms + k)) (spec m a) (step m s)" using sim_step Cons.prems by simp
  then show ?case
    unfolding res_fold.simps by (rule agree_bind) (rule Cons.IH; use Cons.prems(2) in auto)
qed simp

lemma sim_run_Inr:
  assumes "rel (length ms + k) a s" "covered_run spec covered ms a" "res_fold spec ms a = Inr a'"
  shows "\<exists>s'. res_fold step ms s = Inr s' \<and> rel k a' s'"
  using sim_run [OF assms(1,2)] assms(3) by (simp add: agree_Inr)

lemma sim_run_returns:
  assumes "rel (length ms + k) a s" "covered_run spec covered ms a" "res_fold step ms s = Inr s'"
  shows "\<exists>a'. res_fold spec ms a = Inr a' \<and> rel k a' s'"
  using sim_run [OF assms(1,2)] assms(3) by (cases "res_fold spec ms a") auto

end

end
