(* ===== verification/Chain_Spec.thy ===== *)
theory Chain_Spec
  imports Chain Simulation
begin

text \<open>
  The contract of the chain: \<open>chain_reads E k bs st\<close> says that the state \<open>st\<close>
  represents the list of blocks \<open>bs\<close>, oldest first (each block is recorded under its hash, with
  its height, and can be read back from the files, and \<open>k\<close> more blocks can be stored), \<open>chain_holds E k bs st\<close>
  also that the coins are in order and that every block has its undo block on file. The constructor establishes it for the genesis block, a valid block on top of the last one extends the list
  and updates the unspent outputs, and the readers return what the list says.
\<close>

section \<open>Blocks that can be stored\<close>

definition block_ok :: "'u env \<Rightarrow> Block \<Rightarrow> bool" where
  "block_ok E b \<longleftrightarrow> Block_weight b < 1000 \<and>
     UndoBlock_weight (undo_block_trim (make_undo_block (runtime_of E) (garbage_of E) b)) < 1000 \<and>
     (\<forall>i < length (transactions b). inputs_upto (Suc i) (transactions b) \<le> outputs_upto (Suc i) (transactions b))"

lemma get_transactions_eq:
  "get_transactions b = map (\<lambda>tx. Transaction_new (transaction_inputs tx) (transaction_outputs tx) 0 0) (transactions b)"
  by (simp add: get_transactions_def get_transactions_fold)

text \<open>The undo block that is written for a block: each record is cut to the number of its inputs.\<close>

definition undo_of :: "'u env \<Rightarrow> Block \<Rightarrow> UndoBlock" where
  "undo_of E b = undo_block_trim (make_undo_block (runtime_of E) (garbage_of E) b)"

lemma undo_of_hashes: "length (transaction_hashes (undo_of E b)) = length (transactions b)"
  by (simp add: undo_of_def undo_block_trim_def make_undo_block_lengths)

lemma undo_of_nonempty: "transaction_hashes (undo_of E b) = [] \<longleftrightarrow> transactions b = []"
  using undo_of_hashes [of E b] by (metis length_0_conv)

lemma block_ok_fits:
  assumes "protobuf_runtime (runtime_of E)" "block_ok E b"
  shows "fits_file (Block_serialize (runtime_of E) b)" "Block_weight b \<le> MAX_SIZE"
    and "\<exists>u. UndoBlock_serialize (runtime_of E) (make_undo_block (runtime_of E) (garbage_of E) b) = Inr u \<and> fits_file u \<and>
      UndoBlock_deserialize (runtime_of E) u = Inr (undo_of E b)"
proof -
  let ?u = "make_undo_block (runtime_of E) (garbage_of E) b"
  show w: "Block_weight b \<le> MAX_SIZE"
    using assms(2) by (simp add: block_ok_def MAX_SIZE_def INT_MAX_def)
  show "fits_file (Block_serialize (runtime_of E) b)"
    using protobuf_runtime.Block_serialize_wire(2) [OF assms(1) w] assms(2) by (simp add: fits_file_def block_ok_def)
  have len: "length (undo_coin_records ?u) = length (transaction_hashes ?u)" by (simp add: make_undo_block_lengths)
  have readable: "list_all undo_readable (undo_coin_records ?u)"
    using assms(2) by (simp add: block_ok_def make_undo_block_readable)
  have "UndoBlock_weight (undo_block_trim ?u) \<le> MAX_SIZE"
    using assms(2) by (simp add: block_ok_def MAX_SIZE_def INT_MAX_def)
  note small = this
  then obtain s where s: "UndoBlock_serialize (runtime_of E) (undo_block_trim ?u) = Inr s"
    "length s \<le> UndoBlock_weight (undo_block_trim ?u)"
    using protobuf_runtime.UndoBlock_serialize_wire [OF assms(1) undo_block_trim_ok [OF len readable]] by blast
  moreover have "UndoBlock_deserialize (runtime_of E) s = Inr (undo_of E b)"
    using protobuf_runtime.UndoBlock_deserialize_serialize [OF assms(1) undo_block_trim_ok [OF len readable] small]
    by (simp add: s(1) undo_of_def)
  ultimately show "\<exists>u. UndoBlock_serialize (runtime_of E) ?u = Inr u \<and> fits_file u \<and>
      UndoBlock_deserialize (runtime_of E) u = Inr (undo_of E b)"
    using assms(2) readable by (auto simp: undo_serialize_cases [OF len] block_ok_def fits_file_def)
qed

section \<open>The invariant\<close>

definition recorded :: "'u env \<Rightarrow> BlockInfoDatabase \<Rightarrow> file_system \<Rightarrow> nat \<Rightarrow> Block \<Rightarrow> bool" where
  "recorded E d fs n b \<longleftrightarrow>
     (case record_of (runtime_of E) d (hash_block E b) of
        Inl _ \<Rightarrow> False
      | Inr r \<Rightarrow> height r = of_nat n \<and> BlockRecord_block_header r = Block_block_header b \<and>
          located (block_location r) (Block_serialize (runtime_of E) b) fs)"

definition undoable :: "'u env \<Rightarrow> BlockInfoDatabase \<Rightarrow> file_system \<Rightarrow> Block \<Rightarrow> bool" where
  "undoable E d fs b \<longleftrightarrow>
     (case record_of (runtime_of E) d (hash_block E b) of
        Inl _ \<Rightarrow> False
      | Inr r \<Rightarrow> \<exists>u. located (undo_location r) u fs \<and> UndoBlock_deserialize (runtime_of E) u = Inr (undo_of E b))"

definition linked :: "'u env \<Rightarrow> Block list \<Rightarrow> bool" where
  "linked E bs \<longleftrightarrow> (\<forall>i. Suc i < length bs \<longrightarrow> previous_block_hash (Block_block_header (bs ! Suc i)) = hash_block E (bs ! i))"

text \<open>A branch: recorded blocks, each on top of the one before, the first of height one.\<close>

definition branch :: "'u env \<Rightarrow> BlockInfoDatabase \<Rightarrow> file_system \<Rightarrow> Block list \<Rightarrow> bool" where
  "branch E d fs bs \<longleftrightarrow> bs \<noteq> [] \<and> list_all (\<lambda>b. Block_weight b \<le> MAX_SIZE) bs \<and> linked E bs \<and>
     (\<forall>i < length bs. recorded E d fs (Suc i) (bs ! i))"

text \<open>
  What the readers need, and what a chain that was never reorganised offers beyond that: its undo blocks are on file, too,
  and the coin database keeps its invariant.
\<close>

definition chain_reads :: "'u env \<Rightarrow> nat \<Rightarrow> Block list \<Rightarrow> Chain \<times> file_system \<Rightarrow> bool" where
  "chain_reads E k bs = (\<lambda>(ch, fs).
     branch E (block_info_database ch) fs bs \<and> length bs + k < 2 ^ 31 \<and>
     active_chain_length ch = of_nat (length bs) \<and> active_chain_last_block ch = last bs \<and> writer_ok k (chain_writer ch, fs))"

definition chain_holds :: "'u env \<Rightarrow> nat \<Rightarrow> Block list \<Rightarrow> Chain \<times> file_system \<Rightarrow> bool" where
  "chain_holds E k bs = (\<lambda>(ch, fs). chain_reads E k bs (ch, fs) \<and> coin_inv E (chain_coin_database ch) \<and>
     (\<forall>b \<in> set bs. undoable E (block_info_database ch) fs b))"

lemma chain_reads_parts:
  assumes "chain_reads E k bs (ch, fs)"
  shows "bs \<noteq> []" "length bs + k < 2 ^ 31" "active_chain_length ch = of_nat (length bs)" "active_chain_last_block ch = last bs"
    "list_all (\<lambda>b. Block_weight b \<le> MAX_SIZE) bs" "linked E bs"
    "\<forall>i < length bs. recorded E (block_info_database ch) fs (Suc i) (bs ! i)"
    "writer_ok k (chain_writer ch, fs)" "branch E (block_info_database ch) fs bs"
  using assms by (simp_all add: chain_reads_def branch_def)

lemma chain_holds_parts:
  assumes "chain_holds E k bs (ch, fs)"
  shows "chain_reads E k bs (ch, fs)" "coin_inv E (chain_coin_database ch)"
    "\<forall>b \<in> set bs. undoable E (block_info_database ch) fs b"
  using assms by (simp_all add: chain_holds_def)

text \<open>One record is stored, and the files grow.\<close>

definition stores :: "'u env \<Rightarrow> uint32 \<Rightarrow> BlockRecord \<Rightarrow> BlockInfoDatabase \<times> file_system \<Rightarrow> BlockInfoDatabase \<times> file_system \<Rightarrow> bool" where
  "stores E h r = (\<lambda>(d, fs) (d', fs'). fs_grows fs fs' \<and> record_of (runtime_of E) d' = (record_of (runtime_of E) d)(h := Inr r))"

lemma recorded_same: "record_of (runtime_of E) d' = record_of (runtime_of E) d \<Longrightarrow> recorded E d' fs n b = recorded E d fs n b"
  by (simp add: recorded_def)

lemma undoable_same: "record_of (runtime_of E) d' = record_of (runtime_of E) d \<Longrightarrow> undoable E d' fs b = undoable E d fs b"
  by (simp add: undoable_def)

lemma recorded_stores:
  "stores E h r (d, fs) (d', fs') \<Longrightarrow> hash_block E b \<noteq> h \<Longrightarrow> recorded E d fs n b \<Longrightarrow> recorded E d' fs' n b"
  by (auto simp: recorded_def stores_def split: sum.splits intro: located_grows)

lemma undoable_stores:
  "stores E h r (d, fs) (d', fs') \<Longrightarrow> hash_block E b \<noteq> h \<Longrightarrow> undoable E d fs b \<Longrightarrow> undoable E d' fs' b"
  by (auto simp: undoable_def stores_def split: sum.splits dest: located_grows)

lemma recorded_stored:
  "stores E (hash_block E b) r (d, fs) (d', fs') \<Longrightarrow> height r = of_nat n \<Longrightarrow> BlockRecord_block_header r = Block_block_header b \<Longrightarrow>
   located (block_location r) (Block_serialize (runtime_of E) b) fs' \<Longrightarrow> recorded E d' fs' n b"
  by (simp add: recorded_def stores_def)

lemma undoable_stored:
  "stores E (hash_block E b) r (d, fs) (d', fs') \<Longrightarrow> located (undo_location r) u fs' \<Longrightarrow>
   UndoBlock_deserialize (runtime_of E) u = Inr (undo_of E b) \<Longrightarrow> undoable E d' fs' b"
  by (auto simp: undoable_def stores_def)

lemma branch_same: "record_of (runtime_of E) d' = record_of (runtime_of E) d \<Longrightarrow> branch E d' fs bs = branch E d fs bs"
  by (simp add: branch_def recorded_def)

lemma branch_stores:
  assumes "stores E h r (d, fs) (d', fs')" "h \<notin> hash_block E ` set bs" "branch E d fs bs"
  shows "branch E d' fs' bs"
proof -
  have "recorded E d' fs' (Suc m) (bs ! m)" if m: "m < length bs" for m
  proof -
    have "hash_block E (bs ! m) \<noteq> h" using assms(2) m by (metis image_eqI nth_mem)
    then show ?thesis using recorded_stores [OF assms(1)] assms(3) m by (simp add: branch_def)
  qed
  then show ?thesis using assms(3) by (simp add: branch_def)
qed

lemma branch_append:
  assumes "branch E d fs bs" "recorded E d fs (Suc (length bs)) b" "previous_block_hash (Block_block_header b) = hash_block E (last bs)"
    and "Block_weight b \<le> MAX_SIZE"
  shows "branch E d fs (bs @ [b])"
proof -
  have b: "bs \<noteq> []" "linked E bs" "\<forall>i < length bs. recorded E d fs (Suc i) (bs ! i)" using assms(1) by (simp_all add: branch_def)
  have "last bs = bs ! i" if "Suc i = length bs" for i
    using that b(1) by (metis diff_Suc_1 last_conv_nth)
  then have "linked E (bs @ [b])"
    using b(2) assms(3) by (auto simp: linked_def nth_append less_Suc_eq)
  moreover have "\<forall>i < length (bs @ [b]). recorded E d fs (Suc i) ((bs @ [b]) ! i)"
    using assms(2) b(3) by (auto simp: nth_append less_Suc_eq)
  ultimately show ?thesis using assms(1,4) by (simp add: branch_def)
qed

lemma branch_last:
  assumes "branch E d fs bs"
  obtains r where "record_of (runtime_of E) d (hash_block E (last bs)) = Inr r" "height r = of_nat (length bs)"
proof -
  have "bs \<noteq> []" using assms by (simp add: branch_def)
  moreover from this have "recorded E d fs (Suc (length bs - 1)) (bs ! (length bs - 1))"
    using assms unfolding branch_def by (metis diff_less length_greater_0_conv zero_less_one)
  ultimately have "recorded E d fs (length bs) (last bs)" by (simp add: last_conv_nth)
  then show ?thesis using that by (auto simp: recorded_def split: sum.splits)
qed

lemma stores_record:
  assumes "protobuf_runtime (runtime_of E)" "BlockRecord_ok r" "fs_grows fs fs'"
  shows "stores E h r (d, fs) (store_block_record (runtime_of E) h r d, fs')"
  using assms(3) protobuf_runtime.BlockRecord_deserialize_serialize [OF assms(1,2)]
  by (simp add: stores_def fun_eq_iff record_of_store)

lemma recorded_get:
  assumes "recorded E d fs n b"
  obtains r d' where "get_block_record (runtime_of E) (hash_block E b) d = Inr (r, d')"
    "record_of (runtime_of E) d' = record_of (runtime_of E) d" "height r = of_nat n"
    "BlockRecord_block_header r = Block_block_header b" "located (block_location r) (Block_serialize (runtime_of E) b) fs"
proof -
  obtain r where r: "record_of (runtime_of E) d (hash_block E b) = Inr r" "height r = of_nat n"
    "BlockRecord_block_header r = Block_block_header b" "located (block_location r) (Block_serialize (runtime_of E) b) fs"
    using assms by (auto simp: recorded_def split: sum.splits)
  then obtain d' where d': "get_block_record (runtime_of E) (hash_block E b) d = Inr (r, d')"
    by (simp add: get_block_record_eq)
  show ?thesis using that [OF d' get_block_record_same [OF d'] r(2-4)] .
qed

lemma recorded_load:
  assumes "protobuf_runtime (runtime_of E)" "recorded E d fs n b" "Block_weight b \<le> MAX_SIZE"
  shows "\<exists>d'. load_block E (hash_block E b) fs d = Inr (Some b, d') \<and> record_of (runtime_of E) d' = record_of (runtime_of E) d"
proof -
  obtain r d' where r: "get_block_record (runtime_of E) (hash_block E b) d = Inr (r, d')"
    "record_of (runtime_of E) d' = record_of (runtime_of E) d" "located (block_location r) (Block_serialize (runtime_of E) b) fs"
    using recorded_get [OF assms(2)] by metis
  then show ?thesis
    using located_read [OF r(3)] protobuf_runtime.Block_deserialize_serialize [OF assms(1,3)]
    by (simp add: load_block_def block_location_def)
qed

lemma last_block_hash:
  assumes "protobuf_runtime (runtime_of E)" "Block_weight (active_chain_last_block ch) \<le> MAX_SIZE"
  shows "get_last_block_hash E ch = Inr (hash_block E (active_chain_last_block ch))"
  using protobuf_runtime.Block_deserialize_serialize [OF assms] by (simp add: get_last_block_hash_def get_last_block_def)

section \<open>Reading the chain back\<close>

lemma of_nat_le_32: "m < 2 ^ 31 \<Longrightarrow> n < 2 ^ 31 \<Longrightarrow> (of_nat m :: uint32) \<le> of_nat n \<longleftrightarrow> m \<le> n"
  by (simp add: word_le_nat_alt unat_of_nat take_bit_nat_eq_self)

lemma of_nat_less_32: "m < 2 ^ 31 \<Longrightarrow> n < 2 ^ 31 \<Longrightarrow> (of_nat m :: uint32) < of_nat n \<longleftrightarrow> m < n"
  by (simp add: word_less_nat_alt unat_of_nat take_bit_nat_eq_self)

lemma rounds_of_nat: "n < 2 ^ 31 \<Longrightarrow> rounds (of_nat n) = n"
  by (simp add: rounds_def signed_of_nat signed_take_bit_int_eq_self)

text \<open>One round of the loops that walk back: \<open>i + 1\<close> blocks are left, the last of them is \<open>bs ! i\<close>.\<close>

lemma walk_back:
  assumes "linked E bs" "\<forall>i < length bs. recorded E d fs (Suc i) (bs ! i)" "i < length bs"
  obtains r d' where "get_block_record (runtime_of E) (hash_block E (bs ! i)) d = Inr (r, d')"
    "\<forall>i < length bs. recorded E d' fs (Suc i) (bs ! i)" "record_of (runtime_of E) d' = record_of (runtime_of E) d"
    "0 < i \<longrightarrow> previous_block_hash (BlockRecord_block_header r) = hash_block E (bs ! (i - 1))"
proof -
  obtain r d' where r: "get_block_record (runtime_of E) (hash_block E (bs ! i)) d = Inr (r, d')"
    "record_of (runtime_of E) d' = record_of (runtime_of E) d" "BlockRecord_block_header r = Block_block_header (bs ! i)"
    using recorded_get [of E d fs "Suc i" "bs ! i"] assms(2,3) by metis
  have "\<forall>i < length bs. recorded E d' fs (Suc i) (bs ! i)" using assms(2) recorded_same [OF r(2)] by blast
  moreover have "0 < i \<longrightarrow> previous_block_hash (BlockRecord_block_header r) = hash_block E (bs ! (i - 1))"
  proof
    assume "0 < i"
    then obtain j where "i = Suc j" by (cases i) auto
    then show "previous_block_hash (BlockRecord_block_header r) = hash_block E (bs ! (i - 1))"
      using assms(1,3) r(3) by (simp add: linked_def)
  qed
  ultimately show ?thesis using that r(1,2) by blast
qed

lemma slice_step:
  assumes "Suc i \<le> length bs" "s \<le> Suc i" "1 \<le> s"
  shows "drop (s - 1) (take (Suc i) bs) = drop (s - 1) (take i bs) @ [bs ! i]"
  using assms by (simp add: take_Suc_conv_app_nth)

lemma hashes_loop_spec:
  assumes "linked E bs" "1 \<le> s" "s < 2 ^ 31" "e \<le> length bs" "length bs < 2 ^ 31"
  shows "\<forall>i < length bs. recorded E d fs (Suc i) (bs ! i) \<Longrightarrow> i \<le> length bs \<Longrightarrow>
    (0 < i \<longrightarrow> prev = hash_block E (bs ! (i - 1))) \<Longrightarrow>
    \<exists>d'. hashes_loop E (of_nat s) (of_nat e) i prev acc d = Inr (map (hash_block E) (drop (s - 1) (take (min i e) bs)) @ acc, d') \<and>
      record_of (runtime_of E) d' = record_of (runtime_of E) d"
proof (induction i arbitrary: prev acc d)
  case (Suc i)
  have small: "Suc i < 2 ^ 31" "e < 2 ^ 31" using Suc.prems(2) assms(4,5) by auto
  show ?case
  proof (cases "Suc i < s")
    case True
    then have "drop (s - 1) (take (min (Suc i) e) bs) = []" by simp
    with True show ?thesis using of_nat_less_32 [OF small(1) assms(3)] by simp
  next
    case False
    let ?acc = "if Suc i \<le> e then prev # acc else acc"
    have prev: "prev = hash_block E (bs ! i)" using Suc.prems(3) by simp
    obtain r d1 where r: "get_block_record (runtime_of E) prev d = Inr (r, d1)"
      "\<forall>i < length bs. recorded E d1 fs (Suc i) (bs ! i)" "record_of (runtime_of E) d1 = record_of (runtime_of E) d"
      "0 < i \<longrightarrow> previous_block_hash (BlockRecord_block_header r) = hash_block E (bs ! (i - 1))"
      using walk_back [OF assms(1) Suc.prems(1), of i] Suc.prems(2) unfolding prev by auto
    obtain d2 where d2: "hashes_loop E (of_nat s) (of_nat e) i (previous_block_hash (BlockRecord_block_header r)) ?acc d1
        = Inr (map (hash_block E) (drop (s - 1) (take (min i e) bs)) @ ?acc, d2)"
      "record_of (runtime_of E) d2 = record_of (runtime_of E) d1"
      using Suc.IH [OF r(2) _ r(4), of ?acc] Suc.prems(2) by auto
    have "map (hash_block E) (drop (s - 1) (take (min i e) bs)) @ ?acc = map (hash_block E) (drop (s - 1) (take (min (Suc i) e) bs)) @ acc"
      using slice_step [of i bs s] False Suc.prems(2) assms(2) prev
      by (cases "Suc i \<le> e") (simp_all add: min_absorb1 min_absorb2)
    then show ?thesis
      using d2 r(1,3) False of_nat_less_32 [OF small(1) assms(3)] of_nat_le_32 [OF small]
      by (simp del: of_nat_Suc)
  qed
qed simp

lemma chain_loop_spec:
  assumes "protobuf_runtime (runtime_of E)" "list_all (\<lambda>b. Block_weight b \<le> MAX_SIZE) bs"
    and "linked E bs" "1 \<le> s" "s < 2 ^ 31" "e \<le> length bs" "length bs < 2 ^ 31"
  shows "\<forall>i < length bs. recorded E d fs (Suc i) (bs ! i) \<Longrightarrow> i \<le> length bs \<Longrightarrow>
    (0 < i \<longrightarrow> prev = hash_block E (bs ! (i - 1))) \<Longrightarrow>
    \<exists>d'. chain_loop E (of_nat s) (of_nat e) fs i prev acc d = Inr (map Some (drop (s - 1) (take (min i e) bs)) @ acc, d') \<and>
      record_of (runtime_of E) d' = record_of (runtime_of E) d"
proof (induction i arbitrary: prev acc d)
  case (Suc i)
  have small: "Suc i < 2 ^ 31" "e < 2 ^ 31" using Suc.prems(2) assms(6,7) by auto
  show ?case
  proof (cases "Suc i < s")
    case True
    then have "drop (s - 1) (take (min (Suc i) e) bs) = []" by simp
    with True show ?thesis using of_nat_less_32 [OF small(1) assms(5)] by simp
  next
    case False
    let ?acc = "if Suc i \<le> e then Some (bs ! i) # acc else acc"
    have prev: "prev = hash_block E (bs ! i)" using Suc.prems(3) by simp
    have "Block_weight (bs ! i) \<le> MAX_SIZE" using assms(2) Suc.prems(2) by (simp add: list_all_length)
    moreover have "recorded E d fs (Suc i) (bs ! i)" using Suc.prems(1,2) by simp
    ultimately obtain dl where "load_block E prev fs d = Inr (Some (bs ! i), dl)"
      "record_of (runtime_of E) dl = record_of (runtime_of E) d"
      using recorded_load [OF assms(1)] prev by blast
    then have "\<exists>d0. (if Suc i \<le> e then res_bind (load_block E prev fs d) (\<lambda>(b, d). Inr (b # acc, d)) else Inr (acc, d)) = Inr (?acc, d0) \<and>
      record_of (runtime_of E) d0 = record_of (runtime_of E) d"
      by (cases "Suc i \<le> e") simp_all
    then obtain d0 where d0: "(if Suc i \<le> e then res_bind (load_block E prev fs d) (\<lambda>(b, d). Inr (b # acc, d)) else Inr (acc, d)) = Inr (?acc, d0)"
      "record_of (runtime_of E) d0 = record_of (runtime_of E) d"
      by blast
    have rec0: "\<forall>i < length bs. recorded E d0 fs (Suc i) (bs ! i)" using Suc.prems(1) recorded_same [OF d0(2)] by blast
    obtain r d1 where r: "get_block_record (runtime_of E) prev d0 = Inr (r, d1)"
      "\<forall>i < length bs. recorded E d1 fs (Suc i) (bs ! i)" "record_of (runtime_of E) d1 = record_of (runtime_of E) d0"
      "0 < i \<longrightarrow> previous_block_hash (BlockRecord_block_header r) = hash_block E (bs ! (i - 1))"
      using walk_back [OF assms(3) rec0, of i] Suc.prems(2) unfolding prev by auto
    obtain d2 where d2: "chain_loop E (of_nat s) (of_nat e) fs i (previous_block_hash (BlockRecord_block_header r)) ?acc d1
        = Inr (map Some (drop (s - 1) (take (min i e) bs)) @ ?acc, d2)"
      "record_of (runtime_of E) d2 = record_of (runtime_of E) d1"
      using Suc.IH [OF r(2) _ r(4), of ?acc] Suc.prems(2) by auto
    have "map Some (drop (s - 1) (take (min i e) bs)) @ ?acc = map Some (drop (s - 1) (take (min (Suc i) e) bs)) @ acc"
      using slice_step [of i bs s] False Suc.prems(2) assms(4) prev
      by (cases "Suc i \<le> e") (simp_all add: min_absorb1 min_absorb2)
    then show ?thesis
      using d2 d0 r(1,3) False of_nat_less_32 [OF small(1) assms(5)] of_nat_le_32 [OF small]
      by (simp del: of_nat_Suc)
  qed
qed simp

text \<open>The whole of \<open>get_active_chain_hashes\<close> and \<open>get_active_chain\<close>, for any bounds.\<close>

definition chain_slice :: "uint32 \<Rightarrow> uint32 \<Rightarrow> 'a list \<Rightarrow> 'a list" where
  "chain_slice start stop bs = (if stop < start then [] else drop (unat start - 1) (take (unat stop) bs))"

definition same_records :: "'u env \<Rightarrow> Chain \<Rightarrow> Chain \<Rightarrow> bool" where
  "same_records E ch ch' \<longleftrightarrow> (\<exists>d. ch' = ch\<lparr>block_info_database := d\<rparr> \<and>
     record_of (runtime_of E) d = record_of (runtime_of E) (block_info_database ch))"

lemma chain_reads_same: "same_records E ch ch' \<Longrightarrow> chain_reads E k bs (ch', fs) = chain_reads E k bs (ch, fs)"
  by (auto simp: same_records_def chain_reads_def branch_def recorded_def)

lemma chain_last_hash:
  assumes "protobuf_runtime (runtime_of E)" "chain_reads E k bs (ch, fs)"
  shows "get_last_block_hash E ch = Inr (hash_block E (last bs))"
proof -
  note h = chain_reads_parts [OF assms(2)]
  have "Block_weight (last bs) \<le> MAX_SIZE" using h(1,5) by (simp add: list_all_iff)
  then show ?thesis using last_block_hash [OF assms(1), of ch] h(4) by simp
qed

lemma clamp_bounds:
  assumes "length bs < 2 ^ 31" "bs \<noteq> []" "\<not> (stop :: uint32) < start" "unat start < 2 ^ 31"
  defines "s \<equiv> (if start = 0 then 1 else start)" and "e \<equiv> (if of_nat (length bs) < stop then of_nat (length bs) else stop)"
  shows "1 \<le> unat s" "unat s < 2 ^ 31" "unat e \<le> length bs" "drop (unat s - 1) (take (unat e) bs) = chain_slice start stop bs"
proof -
  have n: "unat (of_nat (length bs) :: uint32) = length bs"
    using assms(1) by (simp add: unat_of_nat take_bit_nat_eq_self)
  show "1 \<le> unat s" "unat s < 2 ^ 31" using assms(4) by (auto simp: s_def unat_gt_0 Suc_le_eq)
  show "unat e \<le> length bs" using n by (auto simp: e_def word_less_nat_alt)
  have "unat s - 1 = unat start - 1" by (simp add: s_def)
  moreover have "take (unat e) bs = take (unat stop) bs" using n by (auto simp: e_def word_less_nat_alt)
  ultimately show "drop (unat s - 1) (take (unat e) bs) = chain_slice start stop bs"
    using assms(3) by (simp add: chain_slice_def)
qed

lemma active_chain_hashes_spec:
  assumes "protobuf_runtime (runtime_of E)" "chain_reads E k bs (ch, fs)" "unat start < 2 ^ 31"
  shows "\<exists>ch'. get_active_chain_hashes E start stop ch = Inr (map (hash_block E) (chain_slice start stop bs), ch') \<and> same_records E ch ch'"
proof (cases "stop < start")
  case True
  then show ?thesis by (auto simp: get_active_chain_hashes_def chain_slice_def same_records_def intro: exI [of _ "block_info_database ch"])
next
  case False
  note h = chain_reads_parts [OF assms(2)]
  have len: "length bs < 2 ^ 31" using h(2) by simp
  let ?s = "if start = 0 then 1 else start" and ?e = "if of_nat (length bs) < stop then of_nat (length bs) else stop"
  note c = clamp_bounds [OF len h(1) False assms(3)]
  have prev: "0 < length bs \<longrightarrow> hash_block E (last bs) = hash_block E (bs ! (length bs - 1))"
    using h(1) by (simp add: last_conv_nth)
  obtain d where d: "hashes_loop E (of_nat (unat ?s)) (of_nat (unat ?e)) (length bs) (hash_block E (last bs)) [] (block_info_database ch)
      = Inr (map (hash_block E) (drop (unat ?s - 1) (take (min (length bs) (unat ?e)) bs)) @ [], d)"
    "record_of (runtime_of E) d = record_of (runtime_of E) (block_info_database ch)"
    using hashes_loop_spec [OF h(6) c(1,2,3) len h(7) order_refl prev] by blast
  have "min (length bs) (unat ?e) = unat ?e" using c(3) by (rule min_absorb2)
  with d c(4) have "hashes_loop E ?s ?e (length bs) (hash_block E (last bs)) [] (block_info_database ch)
      = Inr (map (hash_block E) (chain_slice start stop bs), d)"
    by (simp only: of_nat_unat ucast_id append_Nil2)
  then show ?thesis
    using False d(2) chain_last_hash [OF assms(1,2)] h(3) rounds_of_nat [OF len]
    by (auto simp: get_active_chain_hashes_def same_records_def Let_def)
qed

lemma active_chain_spec:
  assumes "protobuf_runtime (runtime_of E)" "chain_reads E k bs (ch, fs)" "unat start < 2 ^ 31"
  shows "\<exists>ch'. get_active_chain E start stop fs ch = Inr (map Some (chain_slice start stop bs), ch') \<and> same_records E ch ch'"
proof (cases "stop < start")
  case True
  then show ?thesis by (auto simp: get_active_chain_def chain_slice_def same_records_def intro: exI [of _ "block_info_database ch"])
next
  case False
  note h = chain_reads_parts [OF assms(2)]
  have len: "length bs < 2 ^ 31" using h(2) by simp
  let ?s = "if start = 0 then 1 else start" and ?e = "if of_nat (length bs) < stop then of_nat (length bs) else stop"
  note c = clamp_bounds [OF len h(1) False assms(3)]
  have prev: "0 < length bs \<longrightarrow> hash_block E (last bs) = hash_block E (bs ! (length bs - 1))"
    using h(1) by (simp add: last_conv_nth)
  obtain d where d: "chain_loop E (of_nat (unat ?s)) (of_nat (unat ?e)) fs (length bs) (hash_block E (last bs)) [] (block_info_database ch)
      = Inr (map Some (drop (unat ?s - 1) (take (min (length bs) (unat ?e)) bs)) @ [], d)"
    "record_of (runtime_of E) d = record_of (runtime_of E) (block_info_database ch)"
    using chain_loop_spec [OF assms(1) h(5,6) c(1,2,3) len h(7) order_refl prev] by blast
  have "min (length bs) (unat ?e) = unat ?e" using c(3) by (rule min_absorb2)
  with d c(4) have "chain_loop E ?s ?e fs (length bs) (hash_block E (last bs)) [] (block_info_database ch)
      = Inr (map Some (chain_slice start stop bs), d)"
    by (simp only: of_nat_unat ucast_id append_Nil2)
  then show ?thesis
    using False d(2) chain_last_hash [OF assms(1,2)] h(3) rounds_of_nat [OF len]
    by (auto simp: get_active_chain_def same_records_def Let_def)
qed

section \<open>Extending the chain\<close>

definition block_valid :: "'u env \<Rightarrow> Chain \<Rightarrow> Block \<Rightarrow> bool" where
  "block_valid E ch b \<longleftrightarrow>
     list_all (\<lambda>tx. list_all (\<lambda>i. coin_key i \<in> dom (coins E (chain_coin_database ch))) (transaction_inputs tx)) (transactions b)"

text \<open>The coin database after a block was validated: it was only read, though that may leave empty records.\<close>

definition validated :: "'u env \<Rightarrow> Block \<Rightarrow> CoinDatabase \<Rightarrow> CoinDatabase \<Rightarrow> bool" where
  "validated E b c c' \<longleftrightarrow> only_reads E c c' \<and> (\<exists>v. validate_block E (get_transactions b) c = Inr (v, c'))"

lemma validated_reads: "validated E b c c' \<Longrightarrow> only_reads E c c'"
  by (simp add: validated_def)

lemma validate_block_chain:
  assumes "coin_inv E (chain_coin_database ch)"
  shows "\<exists>c. validate_block E (get_transactions b) (chain_coin_database ch) = Inr (block_valid E ch b, c) \<and>
    validated E b (chain_coin_database ch) c"
  using validate_block_spec [OF assms, of "get_transactions b"]
  by (auto simp add: validated_def get_transactions_eq block_valid_def list.pred_map comp_def Transaction_new_def)

text \<open>A record under a new hash leaves the chain readable, and a block on the last one with such a record makes it longer.\<close>

lemma chain_reads_beside:
  assumes "chain_reads E (Suc k) bs (ch, fs)" "hash_block E b \<notin> hash_block E ` set bs" "writer_ok k (w, fs1)"
    and "stores E (hash_block E b) r (block_info_database ch, fs) (d, fs1)"
  shows "chain_reads E k bs (ch\<lparr>chain_writer := w, block_info_database := d\<rparr>, fs1)"
  using branch_stores [OF assms(4,2)] assms(1,3) by (simp add: chain_reads_def)

lemma chain_holds_beside:
  assumes "chain_holds E (Suc k) bs (ch, fs)" "hash_block E b \<notin> hash_block E ` set bs" "writer_ok k (w, fs1)"
    and "stores E (hash_block E b) r (block_info_database ch, fs) (d, fs1)"
  shows "chain_holds E k bs (ch\<lparr>chain_writer := w, block_info_database := d\<rparr>, fs1)"
proof -
  note h = chain_holds_parts [OF assms(1)]
  have "undoable E d fs1 x" if x: "x \<in> set bs" for x
  proof -
    have "hash_block E x \<noteq> hash_block E b" using assms(2) x by (metis image_eqI)
    then show ?thesis using undoable_stores [OF assms(4)] h(3) x by blast
  qed
  then show ?thesis using chain_reads_beside [OF h(1) assms(2-4)] h(2) by (simp add: chain_holds_def)
qed

lemma chain_reads_append:
  assumes "chain_reads E k bs (ch, fs)" "recorded E (block_info_database ch) fs (Suc (length bs)) b"
    and "previous_block_hash (Block_block_header b) = hash_block E (last bs)" "Block_weight b \<le> MAX_SIZE" "length bs + Suc k < 2 ^ 31"
  shows "chain_reads E k (bs @ [b]) (ch\<lparr>active_chain_length := active_chain_length ch + 1, active_chain_last_block := b\<rparr>, fs)"
  using branch_append [OF _ assms(2-4)] assms(1,5) by (simp add: chain_reads_def)

lemma chain_reads_coins: "chain_reads E k bs (ch\<lparr>chain_coin_database := c\<rparr>, fs) = chain_reads E k bs (ch, fs)"
  by (simp add: chain_reads_def)

text \<open>
  Extending the chain: what is stored in the files and the block-info database does not depend on what becomes of the coins.
\<close>

lemma extend_spec:
  assumes "protobuf_runtime (runtime_of E)" "chain_reads E (Suc k) bs (ch, fs)" "block_ok E b"
    and "previous_block_hash (Block_block_header b) = hash_block E (last bs)" "hash_block E b \<notin> hash_block E ` set bs"
  shows "\<exists>ch' fs' r. extend_active_chain E b (hash_block E b) (ch, fs) =
      res_bind (CoinDatabase_store_block E (get_transactions b) (chain_coin_database ch)) (\<lambda>c. Inr (ch'\<lparr>chain_coin_database := c\<rparr>, fs')) \<and>
    chain_reads E k (bs @ [b]) (ch', fs') \<and>
    stores E (hash_block E b) r (block_info_database ch, fs) (block_info_database ch', fs') \<and>
    undoable E (block_info_database ch') fs' b"
proof -
  note h = chain_reads_parts [OF assms(2)]
  note fits = block_ok_fits [OF assms(1,3)]
  obtain u where u: "UndoBlock_serialize (runtime_of E) (make_undo_block (runtime_of E) (garbage_of E) b) = Inr u" "fits_file u"
    "UndoBlock_deserialize (runtime_of E) u = Inr (undo_of E b)"
    using fits(3) by blast
  obtain r w fs' where r: "ChainWriter_store_block (runtime_of E) (garbage_of E) b (active_chain_length ch + 1) (chain_writer ch, fs)
      = Inr (r, w, fs')" "writer_ok k (w, fs')" "fs_grows fs fs'"
    "located (block_location r) (Block_serialize (runtime_of E) b) fs'" "BlockRecord_ok r"
    "BlockRecord_block_header r = Block_block_header b" "height r = active_chain_length ch + 1"
    "located (undo_location r) u fs'"
    using store_block_ok [OF h(8) fits(1) u(1,2), of "active_chain_length ch + 1"] by auto
  let ?d = "store_block_record (runtime_of E) (hash_block E b) r (block_info_database ch)"
  let ?ch = "ch\<lparr>chain_writer := w, block_info_database := ?d\<rparr>"
  let ?ch' = "?ch\<lparr>active_chain_length := active_chain_length ch + 1, active_chain_last_block := b\<rparr>"
  have len: "active_chain_length ch + 1 = of_nat (Suc (length bs))" using h(3) by simp
  note st = stores_record [OF assms(1) r(5,3), of "hash_block E b" "block_info_database ch"]
  note new = recorded_stored [OF st r(7) [unfolded len] r(6,4)]
  have "chain_reads E k bs (?ch, fs')" by (rule chain_reads_beside [OF assms(2,5) r(2) st])
  from chain_reads_append [OF this, of b] have "chain_reads E k (bs @ [b]) (?ch', fs')"
    using new assms(4) fits(2) h(2) by simp
  moreover have order: "ch\<lparr>chain_coin_database := c, chain_writer := w, block_info_database := ?d,
      active_chain_length := active_chain_length ch + 1, active_chain_last_block := b\<rparr> = ?ch'\<lparr>chain_coin_database := c\<rparr>" for c
    by (rule Chain.equality) simp_all
  have "extend_active_chain E b (hash_block E b) (ch, fs) =
      res_bind (CoinDatabase_store_block E (get_transactions b) (chain_coin_database ch)) (\<lambda>c. Inr (?ch'\<lparr>chain_coin_database := c\<rparr>, fs'))"
    unfolding order [symmetric] using r(1) by (simp add: extend_active_chain_def Let_def)
  ultimately show ?thesis using st undoable_stored [OF st r(8) u(3)]
    by (intro exI [of _ ?ch'] exI [of _ fs'] exI [of _ r]) simp
qed

lemma handle_block_on_tip:
  assumes "protobuf_runtime (runtime_of E)" "coin_inv E (chain_coin_database ch)" "chain_reads E (Suc k) bs (ch, fs)" "block_ok E b"
    and "previous_block_hash (Block_block_header b) = hash_block E (last bs)" "hash_block E b \<notin> hash_block E ` set bs"
    and "block_valid E ch b"
  shows "\<exists>ch' fs' r c. handle_block E b (ch, fs) =
      res_bind (CoinDatabase_store_block E (get_transactions b) c) (\<lambda>c. Inr (ch'\<lparr>chain_coin_database := c\<rparr>, fs')) \<and>
    validated E b (chain_coin_database ch) c \<and> chain_reads E k (bs @ [b]) (ch', fs') \<and>
    stores E (hash_block E b) r (block_info_database ch, fs) (block_info_database ch', fs') \<and>
    undoable E (block_info_database ch') fs' b"
proof -
  obtain c where c: "validate_block E (get_transactions b) (chain_coin_database ch) = Inr (True, c)"
    "validated E b (chain_coin_database ch) c"
    using validate_block_chain [OF assms(2), of b] assms(7) by auto
  let ?ch = "ch\<lparr>chain_coin_database := c\<rparr>"
  have reads: "chain_reads E (Suc k) bs (?ch, fs)" using assms(3) by (simp add: chain_reads_coins)
  from extend_spec [OF assms(1) reads assms(4-6)] show ?thesis
    using assms(5) c chain_last_hash [OF assms(1) reads] by (simp add: handle_block_def Let_def) blast
qed

lemma handle_block_extends:
  assumes "protobuf_runtime (runtime_of E)" "order_ok E" "chain_holds E (Suc k) bs (ch, fs)" "block_ok E b"
    and "previous_block_hash (Block_block_header b) = hash_block E (last bs)" "hash_block E b \<notin> hash_block E ` set bs"
    and "block_valid E ch b" "txs_applicable E (get_transactions b) (coins E (chain_coin_database ch))"
  shows "\<exists>ch' fs'. handle_block E b (ch, fs) = Inr (ch', fs') \<and> chain_holds E k (bs @ [b]) (ch', fs') \<and>
    coins E (chain_coin_database ch') = utxo_steps E (get_transactions b) (coins E (chain_coin_database ch))"
proof -
  note h = chain_holds_parts [OF assms(3)]
  obtain ch' fs' r c where t: "handle_block E b (ch, fs) =
      res_bind (CoinDatabase_store_block E (get_transactions b) c) (\<lambda>c. Inr (ch'\<lparr>chain_coin_database := c\<rparr>, fs'))"
    "validated E b (chain_coin_database ch) c" "chain_reads E k (bs @ [b]) (ch', fs')"
    "stores E (hash_block E b) r (block_info_database ch, fs) (block_info_database ch', fs')"
    "undoable E (block_info_database ch') fs' b"
    using handle_block_on_tip [OF assms(1) h(2,1) assms(4-7)] by blast
  note same = only_reads_same [OF validated_reads [OF t(2)]]
  obtain c' where c': "CoinDatabase_store_block E (get_transactions b) c = Inr c'" "coin_inv E c'"
    "coins E c' = utxo_steps E (get_transactions b) (coins E (chain_coin_database ch))"
    using store_block_spec [OF assms(1,2), of c "get_transactions b"] same h(2) assms(8) by auto
  have "undoable E (block_info_database ch') fs' x" if x: "x \<in> set bs" for x
  proof -
    have "hash_block E x \<noteq> hash_block E b" using assms(6) x by (metis image_eqI)
    then show ?thesis using undoable_stores [OF t(4)] h(3) x by blast
  qed
  then show ?thesis using t c' by (auto simp: chain_holds_def chain_reads_coins)
qed

text \<open>An invalid block on the last one changes nothing but reads.\<close>

lemma handle_block_refused:
  assumes "protobuf_runtime (runtime_of E)" "coin_inv E (chain_coin_database ch)" "chain_reads E k bs (ch, fs)"
    and "previous_block_hash (Block_block_header b) = hash_block E (last bs)" "\<not> block_valid E ch b"
  shows "\<exists>c. handle_block E b (ch, fs) = Inr (ch\<lparr>chain_coin_database := c\<rparr>, fs) \<and> validated E b (chain_coin_database ch) c"
proof -
  obtain c where c: "validate_block E (get_transactions b) (chain_coin_database ch) = Inr (False, c)"
    "validated E b (chain_coin_database ch) c"
    using validate_block_chain [OF assms(2), of b] assms(5) by auto
  have "chain_reads E k bs (ch\<lparr>chain_coin_database := c\<rparr>, fs)" using assms(3) by (simp add: chain_reads_coins)
  then show ?thesis
    using c assms(4) chain_last_hash [OF assms(1)] by (intro exI [of _ c]) (simp add: handle_block_def Let_def)
qed

lemma handle_block_rejects:
  assumes "protobuf_runtime (runtime_of E)" "chain_holds E k bs (ch, fs)"
    and "previous_block_hash (Block_block_header b) = hash_block E (last bs)" "\<not> block_valid E ch b"
  shows "\<exists>ch'. handle_block E b (ch, fs) = Inr (ch', fs) \<and> chain_holds E k bs (ch', fs) \<and>
    coins E (chain_coin_database ch') = coins E (chain_coin_database ch) \<and> block_info_database ch' = block_info_database ch"
proof -
  note h = chain_holds_parts [OF assms(2)]
  obtain c where c: "handle_block E b (ch, fs) = Inr (ch\<lparr>chain_coin_database := c\<rparr>, fs)" "validated E b (chain_coin_database ch) c"
    using handle_block_refused [OF assms(1) h(2,1) assms(3,4)] by blast
  then show ?thesis using h only_reads_same [OF validated_reads [OF c(2)]]
    by (intro exI [of _ "ch\<lparr>chain_coin_database := c\<rparr>"]) (simp add: chain_holds_def chain_reads_coins)
qed

section \<open>The genesis block\<close>

text \<open>A file system in which the data files can be created afresh.\<close>

definition fresh_fs :: "file_system \<Rightarrow> bool" where
  "fresh_fs fs \<longleftrightarrow> denied fs = [] \<and> (is_directory ''data'' fs \<or> files fs ''data'' = None) \<and>
     (\<forall>n. files fs (block_path n) = None \<and> files fs (undo_path n) = None)"

lemma writer_ok_new: "fresh_fs fs \<Longrightarrow> k \<le> 65535 \<Longrightarrow> writer_ok k (ChainWriter_new, fs)"
  by (simp add: writer_ok_def block_log_ok_def current_file_def ChainWriter_new_def fresh_fs_def)

lemma genesis_simps:
  "transactions construct_genesis_block = [Transaction_new [] [TransactionOutput_new 100 12345,
     TransactionOutput_new 200 67891, TransactionOutput_new 300 23456] 0 0]"
  "get_transactions construct_genesis_block = transactions construct_genesis_block"
  by (simp_all add: construct_genesis_block_def Let_def Block_new_def get_transactions_eq Transaction_new_def)

lemma genesis_ok: "block_ok E construct_genesis_block"
  by (simp add: block_ok_def Block_weight_def genesis_simps Transaction_weight_def Transaction_new_def
      make_undo_block_def make_undo_step_def Let_def undo_block_trim_def undo_trim_def UndoBlock_new_def UndoCoinRecord_new_def
      UndoBlock_weight_def UndoCoinRecord_weight_def inputs_upto_def outputs_upto_def)

lemma Chain_new_spec:
  assumes "protobuf_runtime (runtime_of E)" "order_ok E" "fresh_fs fs" "k < 65535"
  shows "\<exists>ch fs'. Chain_new E fs = Inr (ch, fs') \<and> chain_holds E k [construct_genesis_block] (ch, fs') \<and>
    coins E (chain_coin_database ch) = utxo_steps E (get_transactions construct_genesis_block) Map.empty"
proof -
  let ?g = construct_genesis_block
  note fits = block_ok_fits [OF assms(1) genesis_ok]
  obtain u where u: "UndoBlock_serialize (runtime_of E) (make_undo_block (runtime_of E) (garbage_of E) ?g) = Inr u" "fits_file u"
    "UndoBlock_deserialize (runtime_of E) u = Inr (undo_of E ?g)"
    using fits(3) by blast
  have "txs_applicable E (get_transactions ?g) (coins E CoinDatabase_new)"
    by (simp add: genesis_simps tx_applicable_def Transaction_new_def coin_inv_new)
  then obtain c where c: "CoinDatabase_store_block E (get_transactions ?g) CoinDatabase_new = Inr c" "coin_inv E c"
    "coins E c = utxo_steps E (get_transactions ?g) Map.empty"
    using store_block_spec [OF assms(1,2) coin_inv_new(1)] unfolding coin_inv_new(2) by blast
  obtain r w fs' where r: "ChainWriter_store_block (runtime_of E) (garbage_of E) ?g 1 (ChainWriter_new, fs) = Inr (r, w, fs')"
    "writer_ok k (w, fs')" "located (block_location r) (Block_serialize (runtime_of E) ?g) fs'" "BlockRecord_ok r"
    "BlockRecord_block_header r = Block_block_header ?g" "height r = of_nat 1" "located (undo_location r) u fs'" "fs_grows fs fs'"
    using store_block_ok [OF writer_ok_new fits(1) u(1,2), of fs k 1] assms(3,4) by auto
  note st = stores_record [OF assms(1) r(4) r(8), of "hash_block E ?g" BlockInfoDatabase_new]
  show ?thesis
    using r(1,2) c fits(2) assms(4) recorded_stored [OF st r(6,5,3)] undoable_stored [OF st r(7) u(3)]
    by (simp add: Chain_new_def Let_def chain_holds_def chain_reads_def branch_def linked_def)
qed

section \<open>A run of blocks\<close>

text \<open>A block that extends the chain \<open>bs\<close> with the unspent outputs \<open>m\<close>, and what it does to them.\<close>

definition extends_with :: "'u env \<Rightarrow> Block \<Rightarrow> Block list \<times> (uint32 \<times> uint8 \<rightharpoonup> TransactionOutput) \<Rightarrow> bool" where
  "extends_with E b = (\<lambda>(bs, m). block_ok E b \<and> previous_block_hash (Block_block_header b) = hash_block E (last bs) \<and>
     hash_block E b \<notin> hash_block E ` set bs \<and>
     list_all (\<lambda>tx. list_all (\<lambda>i. coin_key i \<in> dom m) (transaction_inputs tx)) (transactions b) \<and>
     txs_applicable E (get_transactions b) m)"

definition extended_by :: "'u env \<Rightarrow> Block \<Rightarrow> Block list \<times> (uint32 \<times> uint8 \<rightharpoonup> TransactionOutput)
     \<Rightarrow> (Block list \<times> (uint32 \<times> uint8 \<rightharpoonup> TransactionOutput)) result" where
  "extended_by E b = (\<lambda>(bs, m). Inr (bs @ [b], utxo_steps E (get_transactions b) m))"

abbreviation extends_chain :: "'u env \<Rightarrow> Block list \<Rightarrow> Block list \<Rightarrow> (uint32 \<times> uint8 \<rightharpoonup> TransactionOutput) \<Rightarrow> bool" where
  "extends_chain E bs news m \<equiv> covered_run (extended_by E) (extends_with E) news (bs, m)"

definition utxo_of_blocks :: "'u env \<Rightarrow> Block list \<Rightarrow> (uint32 \<times> uint8 \<rightharpoonup> TransactionOutput) \<Rightarrow> (uint32 \<times> uint8 \<rightharpoonup> TransactionOutput)" where
  "utxo_of_blocks E bs m = fold (\<lambda>b m. utxo_steps E (get_transactions b) m) bs m"

lemma extended_by_run: "res_fold (extended_by E) news (bs, m) = Inr (bs @ news, utxo_of_blocks E news m)"
  by (induction news arbitrary: bs m) (simp_all add: extended_by_def utxo_of_blocks_def)

definition extension_holds :: "'u env \<Rightarrow> nat \<Rightarrow> Block list \<times> (uint32 \<times> uint8 \<rightharpoonup> TransactionOutput) \<Rightarrow> Chain \<times> file_system \<Rightarrow> bool" where
  "extension_holds E k = (\<lambda>(bs, m) (ch, fs). protobuf_runtime (runtime_of E) \<and> order_ok E \<and> chain_holds E k bs (ch, fs) \<and>
     coins E (chain_coin_database ch) = m)"

interpretation extension: simulation "handle_block E" "extended_by E" "extends_with E" "extension_holds E"
  for E :: "'u env"
proof (unfold_locales, goal_cases)
  case (1 k a s b)
  obtain bs m ch fs where eq: "a = (bs, m)" "s = (ch, fs)" by (cases a, cases s)
  have holds: "protobuf_runtime (runtime_of E)" "order_ok E" "chain_holds E (Suc k) bs (ch, fs)" "coins E (chain_coin_database ch) = m"
    using 1(1) by (simp_all add: eq extension_holds_def)
  have ok: "block_ok E b" "previous_block_hash (Block_block_header b) = hash_block E (last bs)"
    "hash_block E b \<notin> hash_block E ` set bs" "block_valid E ch b" "txs_applicable E (get_transactions b) (coins E (chain_coin_database ch))"
    using 1(2) holds(4) by (simp_all add: eq extends_with_def block_valid_def)
  from handle_block_extends [OF holds(1-3) ok] show ?case
    using holds by (auto simp: eq extended_by_def extension_holds_def)
qed

lemma handle_blocks_extend:
  assumes "protobuf_runtime (runtime_of E)" "order_ok E" "chain_holds E (length news + k) bs (ch, fs)"
    and "extends_chain E bs news (coins E (chain_coin_database ch))"
  shows "\<exists>ch' fs'. res_fold (handle_block E) news (ch, fs) = Inr (ch', fs') \<and> chain_holds E k (bs @ news) (ch', fs') \<and>
    coins E (chain_coin_database ch') = utxo_of_blocks E news (coins E (chain_coin_database ch))"
  using extension.sim_run_Inr [OF _ assms(4) extended_by_run, of k "(ch, fs)"] assms(1-3)
  by (auto simp: extension_holds_def)

section \<open>Transactions\<close>

lemma handle_transaction_spec:
  assumes "coin_inv E (chain_coin_database ch)"
  shows "\<exists>c'. handle_transaction E tx ch = Inr (ch\<lparr>chain_coin_database := c'\<rparr>) \<and> coin_inv E c' \<and>
    coins E c' = coins E (chain_coin_database ch) \<and>
    (let c = chain_coin_database ch;
         kept = Transaction_new (transaction_inputs tx) (transaction_outputs tx) 0 0;
         accepted = (list_all (\<lambda>i. coin_key i \<in> dom (coins E c)) (transaction_inputs tx) \<and> mempool_size c \<noteq> mempool_capacity c)
     in mempool_cache c' = (if accepted then [hash_transaction E kept \<mapsto> kept] ++ mempool_cache c else mempool_cache c) \<and>
        mempool_size c' = (if accepted then mempool_size c + 1 else mempool_size c))"
proof -
  let ?c = "chain_coin_database ch" and ?kept = "Transaction_new (transaction_inputs tx) (transaction_outputs tx) 0 0"
  let ?valid = "list_all (\<lambda>i. coin_key i \<in> dom (coins E ?c)) (transaction_inputs tx)"
  obtain c1 where v: "validate_transaction E ?kept ?c = Inr (?valid, c1)" "only_reads E ?c c1"
    using validate_transaction_spec [OF assms, of ?kept] by (auto simp: Transaction_new_def)
  define c' where "c' = (if ?valid then store_transaction E ?kept c1 else c1)"
  have "handle_transaction E tx ch = Inr (ch\<lparr>chain_coin_database := c'\<rparr>)"
    using v(1) by (auto simp: handle_transaction_def validate_and_store_transaction_def c'_def)
  moreover have same: "mempool_capacity c1 = mempool_capacity ?c" using v(2) by (auto simp: only_reads_def)
  moreover have "coins E c' = coins E c1" "coin_inv E c' = coin_inv E c1"
    by (simp_all add: c'_def store_transaction_def store_transaction_in_mempool_def Let_def coins_def coin_inv_def cache_inv_def)
  moreover have "mempool_cache c' = (if ?valid \<and> mempool_size ?c \<noteq> mempool_capacity ?c
      then [hash_transaction E ?kept \<mapsto> ?kept] ++ mempool_cache ?c else mempool_cache ?c)"
    "mempool_size c' = (if ?valid \<and> mempool_size ?c \<noteq> mempool_capacity ?c then mempool_size ?c + 1 else mempool_size ?c)"
    using same only_reads_same [OF v(2)]
    by (auto simp: c'_def store_transaction_def store_transaction_in_mempool_def Let_def fun_eq_iff map_add_def split: option.splits)
  ultimately show ?thesis using only_reads_same [OF v(2)] assms unfolding Let_def by metis
qed

end
