(* ===== verification/Chain_Forks.thy ===== *)
theory Chain_Forks
  imports Chain_Spec
begin

text \<open>
  What \<open>handle_block\<close> does with a block that is not on the last one: \<open>store_fork\<close> writes and records it, without
  undo information; a block of the chain that comes again and a block of unknown origin go the same way.
\<close>

section \<open>Undo blocks that are lost\<close>

text \<open>A block whose record has the dummy location instead of that of its undo block.\<close>

definition undo_lost :: "'u env \<Rightarrow> BlockInfoDatabase \<Rightarrow> Block \<Rightarrow> bool" where
  "undo_lost E d b \<longleftrightarrow>
     (case record_of (runtime_of E) d (hash_block E b) of Inl _ \<Rightarrow> False | Inr r \<Rightarrow> undo_location r = FileInfo_new '''' 0 0)"

lemma undo_lost_same: "record_of (runtime_of E) d' = record_of (runtime_of E) d \<Longrightarrow> undo_lost E d' b = undo_lost E d b"
  by (simp add: undo_lost_def)

lemma undo_lost_stores:
  "stores E h r (d, fs) (d', fs') \<Longrightarrow> hash_block E b \<noteq> h \<Longrightarrow> undo_lost E d b \<Longrightarrow> undo_lost E d' b"
  by (simp add: undo_lost_def stores_def)

lemma undo_lost_stored: "stores E (hash_block E b) r (d, fs) (d', fs') \<Longrightarrow> undo_location r = FileInfo_new '''' 0 0 \<Longrightarrow> undo_lost E d' b"
  by (simp add: undo_lost_def stores_def)

lemma not_both_undo: "undo_lost E d b \<Longrightarrow> \<not> undoable E d fs b"
  by (auto simp: undo_lost_def undoable_def located_def fopen_read_def FileInfo_new_def split: sum.splits)

section \<open>Blocks that are stored beside the active chain\<close>

lemma BlockRecord_ok_no_undo:
  assumes "block_file_stored r \<in> range block_path" "undo_file_stored r = ''''"
  shows "BlockRecord_ok r"
proof -
  have "BlockRecord_ok (r\<lparr>undo_file_stored := undo_path 0\<rparr>)" by (rule BlockRecord_ok_paths) (use assms(1) in simp_all)
  then show ?thesis using assms(2) by (simp add: BlockRecord_ok_def ascii_def)
qed

lemma write_block_writer_ok:
  assumes "writer_ok (Suc k) (w, fs)" "fits_file s"
  shows "\<exists>loc w' fs'. write_block s (w, fs) = Inr (Some loc, w', fs') \<and> writer_ok k (w', fs') \<and> fs_grows fs fs' \<and>
    located loc s fs' \<and> file_name loc \<in> range block_path"
proof -
  have ok: "block_log_ok (Suc k) (w, fs)" "unat (current_undo_offset w) \<le> 1000"
    "unat (current_undo_file_number w) + Suc k \<le> 65535"
    "current_file undo_path (current_undo_file_number w) (current_undo_offset w) fs"
    using assms(1) by (simp_all add: writer_ok_def)
  obtain loc w' fs' where wb: "write_block s (w, fs) = Inr (Some loc, w', fs')"
    "block_log_ok k (w', fs')" "located loc s fs'" "file_name loc \<in> range block_path"
    using write_block_ok [OF ok(1) assms(2)] by auto
  note fr = write_block_frame [OF wb(1)]
  have "writer_ok k (w', fs')"
    using wb(2) ok fr current_file_cong [OF fr(3)] by (simp add: writer_ok_def)
  then show ?thesis using wb write_block_grows [OF wb(1)] by blast
qed

lemma header_roundtrip:
  "protobuf_runtime (runtime_of E) \<Longrightarrow>
   BlockHeader_deserialize (runtime_of E) (BlockHeader_serialize (runtime_of E) h) = Inr h"
  by (rule protobuf_runtime.BlockHeader_deserialize_serialize)

text \<open>
  What \<open>store_fork\<close> does before it compares the heights: the block goes to the files and gets a record one above
  the record of its predecessor, without undo information.
\<close>

lemma store_fork_writes:
  assumes "protobuf_runtime (runtime_of E)" "writer_ok (Suc k) (chain_writer ch, fs)" "Block_weight b < 1000"
    and "record_of (runtime_of E) (block_info_database ch) (previous_block_hash (Block_block_header b)) = Inr p"
  shows "\<exists>w fs1 d r. store_fork E b (hash_block E b) (ch, fs) =
      (let ch1 = ch\<lparr>chain_writer := w, block_info_database := d\<rparr>
       in if active_chain_length ch < height p + 1 then take_over E b (hash_block E b) (ch1, fs1) else Inr (ch1, fs1)) \<and>
    writer_ok k (w, fs1) \<and> stores E (hash_block E b) r (block_info_database ch, fs) (d, fs1) \<and>
    height r = height p + 1 \<and> BlockRecord_block_header r = Block_block_header b \<and>
    located (block_location r) (Block_serialize (runtime_of E) b) fs1 \<and> undo_location r = FileInfo_new '''' 0 0"
proof -
  have w: "Block_weight b \<le> MAX_SIZE" using assms(3) by (simp add: MAX_SIZE_def INT_MAX_def)
  have "fits_file (Block_serialize (runtime_of E) b)"
    using protobuf_runtime.Block_serialize_wire(2) [OF assms(1) w] assms(3) by (simp add: fits_file_def)
  then obtain loc w' fs' where wb: "write_block (Block_serialize (runtime_of E) b) (chain_writer ch, fs) = Inr (Some loc, w', fs')"
    "writer_ok k (w', fs')" "fs_grows fs fs'" "located loc (Block_serialize (runtime_of E) b) fs'" "file_name loc \<in> range block_path"
    using write_block_writer_ok [OF assms(2)] by blast
  obtain d where d: "get_block_record (runtime_of E) (previous_block_hash (Block_block_header b)) (block_info_database ch) = Inr (p, d)"
    using assms(4) by (simp add: get_block_record_eq)
  note same = get_block_record_same [OF d]
  let ?r = "BlockRecord_new (Block_block_header b) (of_nat (length (transactions b))) (height p + 1) loc (FileInfo_new '''' 0 0)"
  let ?d = "store_block_record (runtime_of E) (hash_block E b) ?r d"
  have ok: "BlockRecord_ok ?r"
    by (rule BlockRecord_ok_no_undo) (use wb(5) in \<open>simp_all add: BlockRecord_new_def FileInfo_new_def\<close>)
  have stored: "stores E (hash_block E b) ?r (block_info_database ch, fs) (?d, fs')"
    using stores_record [OF assms(1) ok wb(3), of "hash_block E b" d] by (simp add: stores_def same)
  have "store_fork E b (hash_block E b) (ch, fs) =
      (let ch1 = ch\<lparr>chain_writer := w', block_info_database := ?d\<rparr>
       in if active_chain_length ch < height p + 1 then take_over E b (hash_block E b) (ch1, fs') else Inr (ch1, fs'))"
    using d wb(1) header_roundtrip [OF assms(1)] by (simp add: store_fork_def Let_def)
  moreover have "block_location ?r = loc" "height ?r = height p + 1" "BlockRecord_block_header ?r = Block_block_header b"
    "undo_location ?r = FileInfo_new '''' 0 0"
    by (simp_all add: BlockRecord_new_def block_location_def undo_location_def FileInfo_new_def)
  ultimately show ?thesis using stored wb(2,4)
    by (intro exI [of _ w'] exI [of _ fs'] exI [of _ ?d] exI [of _ ?r]) simp
qed

lemma load_located:
  assumes "protobuf_runtime (runtime_of E)" "Block_weight b \<le> MAX_SIZE" "record_of (runtime_of E) d h = Inr r"
    and "located (block_location r) (Block_serialize (runtime_of E) b) fs"
  shows "\<exists>d'. load_block E h fs d = Inr (Some b, d')"
  using assms(3) located_read [OF assms(4)] protobuf_runtime.Block_deserialize_serialize [OF assms(1,2)]
  by (auto simp: load_block_def get_block_record_eq block_location_def)

text \<open>
  A block that is not on the last one: it is written to the files and recorded, valid or not. If its height does not
  exceed the length of the chain, everything else is as before, except for reads; otherwise its branch takes over.
\<close>

lemma handle_block_off_tip:
  assumes "protobuf_runtime (runtime_of E)" "coin_inv E (chain_coin_database ch)" "chain_reads E (Suc k) bs (ch, fs)"
    and "Block_weight b < 1000"
    and "record_of (runtime_of E) (block_info_database ch) (previous_block_hash (Block_block_header b)) = Inr p"
    and "previous_block_hash (Block_block_header b) \<noteq> hash_block E (last bs)"
  shows "\<exists>c w fs1 d r. handle_block E b (ch, fs) =
      (let ch1 = ch\<lparr>chain_coin_database := c, chain_writer := w, block_info_database := d\<rparr>
       in if active_chain_length ch < height p + 1 then take_over E b (hash_block E b) (ch1, fs1) else Inr (ch1, fs1)) \<and>
    validated E b (chain_coin_database ch) c \<and> writer_ok k (w, fs1) \<and>
    stores E (hash_block E b) r (block_info_database ch, fs) (d, fs1) \<and>
    height r = height p + 1 \<and> BlockRecord_block_header r = Block_block_header b \<and>
    located (block_location r) (Block_serialize (runtime_of E) b) fs1 \<and> undo_location r = FileInfo_new '''' 0 0"
proof -
  obtain v c where c: "validate_block E (get_transactions b) (chain_coin_database ch) = Inr (v, c)"
    "validated E b (chain_coin_database ch) c"
    using validate_block_chain [OF assms(2), of b] by auto
  let ?ch = "ch\<lparr>chain_coin_database := c\<rparr>"
  have reads: "chain_reads E (Suc k) bs (?ch, fs)" using assms(3) by (simp add: chain_reads_coins)
  have "record_of (runtime_of E) (block_info_database ?ch) (previous_block_hash (Block_block_header b)) = Inr p"
    using assms(5) by simp
  from store_fork_writes [OF assms(1) chain_reads_parts(8) [OF reads] assms(4) this]
  obtain w fs1 d r where s: "store_fork E b (hash_block E b) (?ch, fs) =
      (let ch1 = ?ch\<lparr>chain_writer := w, block_info_database := d\<rparr>
       in if active_chain_length ?ch < height p + 1 then take_over E b (hash_block E b) (ch1, fs1) else Inr (ch1, fs1))"
    "writer_ok k (w, fs1)" "stores E (hash_block E b) r (block_info_database ch, fs) (d, fs1)"
    "height r = height p + 1" "BlockRecord_block_header r = Block_block_header b"
    "located (block_location r) (Block_serialize (runtime_of E) b) fs1" "undo_location r = FileInfo_new '''' 0 0"
    by auto
  have "handle_block E b (ch, fs) = store_fork E b (hash_block E b) (?ch, fs)"
    using c(1) chain_last_hash [OF assms(1) reads] assms(6) by (simp add: handle_block_def Let_def)
  with s c(2) show ?thesis
    by (intro exI [of _ c] exI [of _ w] exI [of _ fs1] exI [of _ d] exI [of _ r]) (simp add: Let_def)
qed

lemma handle_block_not_higher:
  assumes "protobuf_runtime (runtime_of E)" "coin_inv E (chain_coin_database ch)" "chain_reads E (Suc k) bs (ch, fs)"
    and "Block_weight b < 1000"
    and "record_of (runtime_of E) (block_info_database ch) (previous_block_hash (Block_block_header b)) = Inr p"
    and "previous_block_hash (Block_block_header b) \<noteq> hash_block E (last bs)" "height p + 1 \<le> active_chain_length ch"
  shows "\<exists>c w fs1 d r ch2. handle_block E b (ch, fs) =
      Inr (ch\<lparr>chain_coin_database := c, chain_writer := w, block_info_database := d\<rparr>, fs1) \<and>
    validated E b (chain_coin_database ch) c \<and> writer_ok k (w, fs1) \<and>
    stores E (hash_block E b) r (block_info_database ch, fs) (d, fs1) \<and>
    height r = height p + 1 \<and> BlockRecord_block_header r = Block_block_header b \<and>
    located (block_location r) (Block_serialize (runtime_of E) b) fs1 \<and> undo_location r = FileInfo_new '''' 0 0 \<and>
    get_block E (hash_block E b) fs1 (ch\<lparr>chain_coin_database := c, chain_writer := w, block_info_database := d\<rparr>) = Inr (Some b, ch2)"
proof -
  obtain c w fs1 d r where s: "handle_block E b (ch, fs) =
      (let ch1 = ch\<lparr>chain_coin_database := c, chain_writer := w, block_info_database := d\<rparr>
       in if active_chain_length ch < height p + 1 then take_over E b (hash_block E b) (ch1, fs1) else Inr (ch1, fs1))"
    "validated E b (chain_coin_database ch) c" "writer_ok k (w, fs1)"
    "stores E (hash_block E b) r (block_info_database ch, fs) (d, fs1)"
    "height r = height p + 1" "BlockRecord_block_header r = Block_block_header b"
    "located (block_location r) (Block_serialize (runtime_of E) b) fs1" "undo_location r = FileInfo_new '''' 0 0"
    using handle_block_off_tip [OF assms(1-6)] by blast
  have "\<not> active_chain_length ch < height p + 1" using assms(7) by (simp add: not_less)
  then have "handle_block E b (ch, fs) = Inr (ch\<lparr>chain_coin_database := c, chain_writer := w, block_info_database := d\<rparr>, fs1)"
    unfolding s(1) by (simp add: Let_def)
  moreover have "Block_weight b \<le> MAX_SIZE" using assms(4) by (simp add: MAX_SIZE_def INT_MAX_def)
  from load_located [OF assms(1) this _ s(7), of d "hash_block E b"] s(4)
  obtain d' where "load_block E (hash_block E b) fs1 d = Inr (Some b, d')" by (auto simp: stores_def)
  ultimately show ?thesis
    using s(2-8)
    by (intro exI [of _ c] exI [of _ w] exI [of _ fs1] exI [of _ d] exI [of _ r]) (simp add: get_block_def)
qed

text \<open>Different positions of the chain have different hashes, since they are recorded with different heights.\<close>

lemma chain_hash_distinct:
  assumes "chain_reads E k bs (ch, fs)" "i < length bs" "j < length bs" "hash_block E (bs ! i) = hash_block E (bs ! j)"
  shows "i = j"
proof -
  note h = chain_reads_parts [OF assms(1)]
  have "recorded E (block_info_database ch) fs (Suc i) (bs ! i)" "recorded E (block_info_database ch) fs (Suc j) (bs ! j)"
    using h(7) assms(2,3) by blast+
  then have "(of_nat (Suc i) :: uint32) = of_nat (Suc j)"
    using assms(4) unfolding recorded_def by (auto split: sum.splits)
  moreover have "Suc i < 2 ^ 31" "Suc j < 2 ^ 31" using h(2) assms(2,3) by simp_all
  ultimately show ?thesis
    using of_nat_less_32 [of "Suc i" "Suc j"] of_nat_less_32 [of "Suc j" "Suc i"] by (simp del: of_nat_Suc)
qed

lemma chain_hash_not_last:
  assumes "chain_reads E k bs (ch, fs)" "Suc i < length bs"
  shows "hash_block E (bs ! i) \<noteq> hash_block E (last bs)"
  using chain_hash_distinct [OF assms(1), of i "length bs - 1"] chain_reads_parts(1) [OF assms(1)] assms(2)
  by (auto simp: last_conv_nth)

lemma chain_parent_record:
  assumes "chain_reads E k bs (ch, fs)" "Suc i < length bs"
  obtains p where "record_of (runtime_of E) (block_info_database ch) (hash_block E (bs ! i)) = Inr p"
    "height p + 1 = of_nat (Suc (Suc i))" "height p + 1 \<le> active_chain_length ch"
proof -
  note h = chain_reads_parts [OF assms(1)]
  have "recorded E (block_info_database ch) fs (Suc i) (bs ! i)" using h(7) assms(2) by simp
  then obtain p where p: "record_of (runtime_of E) (block_info_database ch) (hash_block E (bs ! i)) = Inr p"
    "height p = of_nat (Suc i)"
    by (auto simp: recorded_def split: sum.splits)
  have hp: "height p + 1 = of_nat (Suc (Suc i))" by (simp add: p(2))
  then have "height p + 1 \<le> active_chain_length ch"
    using of_nat_le_32 [of "Suc (Suc i)" "length bs"] h(2,3) assms(2) by (simp del: of_nat_Suc)
  with p(1) hp that show ?thesis by blast
qed

text \<open>The state after a block was stored beside the chain, when the chain has no block of that hash.\<close>

lemma chain_holds_off_tip:
  assumes "chain_holds E (Suc k) bs (ch, fs)" "hash_block E b \<notin> hash_block E ` set bs" "validated E b (chain_coin_database ch) c"
    and "writer_ok k (w, fs1)" "stores E (hash_block E b) r (block_info_database ch, fs) (d, fs1)"
  shows "chain_holds E k bs (ch\<lparr>chain_coin_database := c, chain_writer := w, block_info_database := d\<rparr>, fs1)"
    "coins E c = coins E (chain_coin_database ch)"
  using chain_holds_beside [OF assms(1,2,4,5)] only_reads_same [OF validated_reads [OF assms(3)]]
  by (simp_all add: chain_holds_def chain_reads_def)

text \<open>
  A block of the chain that arrives again is stored a second time, with a record that has no undo information.
\<close>

lemma handle_block_again:
  assumes "protobuf_runtime (runtime_of E)" "coin_inv E (chain_coin_database ch)" "chain_reads E (Suc k) bs (ch, fs)"
    and "Suc i < length bs" "Block_weight (bs ! Suc i) < 1000"
  shows "\<exists>ch' fs' r ch''. handle_block E (bs ! Suc i) (ch, fs) = Inr (ch', fs') \<and> chain_reads E k bs (ch', fs') \<and>
    coins E (chain_coin_database ch') = coins E (chain_coin_database ch) \<and> coin_inv E (chain_coin_database ch') \<and>
    record_of (runtime_of E) (block_info_database ch') (hash_block E (bs ! Suc i)) = Inr r \<and>
    undo_location r = FileInfo_new '''' 0 0 \<and> get_block E (hash_block E (bs ! Suc i)) fs' ch' = Inr (Some (bs ! Suc i), ch'')"
proof -
  note h = chain_reads_parts [OF assms(3)]
  let ?b = "bs ! Suc i"
  have prev: "previous_block_hash (Block_block_header ?b) = hash_block E (bs ! i)"
    using h(6) assms(4) by (simp add: linked_def)
  obtain p where p: "record_of (runtime_of E) (block_info_database ch) (previous_block_hash (Block_block_header ?b)) = Inr p"
    "height p + 1 = of_nat (Suc (Suc i))" "height p + 1 \<le> active_chain_length ch"
    unfolding prev using chain_parent_record [OF assms(3,4)] .
  have "previous_block_hash (Block_block_header ?b) \<noteq> hash_block E (last bs)"
    using chain_hash_not_last [OF assms(3,4)] prev by simp
  from handle_block_not_higher [OF assms(1-3,5) p(1) this p(3)] obtain c w fs1 d r ch2 where
    s: "handle_block E ?b (ch, fs) = Inr (ch\<lparr>chain_coin_database := c, chain_writer := w, block_info_database := d\<rparr>, fs1)"
    "validated E ?b (chain_coin_database ch) c" "writer_ok k (w, fs1)"
    "stores E (hash_block E ?b) r (block_info_database ch, fs) (d, fs1)"
    "height r = height p + 1" "BlockRecord_block_header r = Block_block_header ?b"
    "located (block_location r) (Block_serialize (runtime_of E) ?b) fs1" "undo_location r = FileInfo_new '''' 0 0"
    "get_block E (hash_block E ?b) fs1 (ch\<lparr>chain_coin_database := c, chain_writer := w, block_info_database := d\<rparr>)
      = Inr (Some ?b, ch2)"
    by blast
  let ?ch = "ch\<lparr>chain_coin_database := c, chain_writer := w, block_info_database := d\<rparr>"
  have "recorded E d fs1 (Suc m) (bs ! m)" if m: "m < length bs" for m
  proof (cases "hash_block E (bs ! m) = hash_block E ?b")
    case True
    then have "m = Suc i" using chain_hash_distinct [OF assms(3) m assms(4)] by simp
    then show ?thesis using recorded_stored [OF s(4) _ s(6,7), of "Suc (Suc i)"] s(5) p(2) by simp
  qed (use recorded_stores [OF s(4)] h(7) m in blast)
  then have "chain_reads E k bs (?ch, fs1)" using h s(3) by (simp add: chain_reads_def branch_def)
  moreover have "record_of (runtime_of E) (block_info_database ?ch) (hash_block E ?b) = Inr r" using s(4) by (simp add: stores_def)
  moreover have "coins E (chain_coin_database ?ch) = coins E (chain_coin_database ch)" "coin_inv E (chain_coin_database ?ch)"
    using only_reads_same [OF validated_reads [OF s(2)]] assms(2) by simp_all
  ultimately show ?thesis using s(1,8,9) by blast
qed

text \<open>A block whose predecessor is unknown is not refused: it is stored with height one, like the genesis block.\<close>

lemma record_of_unknown: "\<not> Database_has (to_string (unat h)) (info_database d) \<Longrightarrow> record_of rt d h = Inr default_record"
  by (simp add: record_of_def look_up_def Database_has_def BlockRecord_deserialize_Nil)

lemma height_default [simp]: "height default_record = 0"
  by (simp add: default_record_def BlockRecord_new_def)

lemma handle_block_orphan:
  assumes "protobuf_runtime (runtime_of E)" "chain_holds E (Suc k) bs (ch, fs)" "Block_weight b < 1000"
    and "\<not> Database_has (to_string (unat (previous_block_hash (Block_block_header b)))) (info_database (block_info_database ch))"
    and "hash_block E b \<notin> hash_block E ` set bs"
  shows "\<exists>ch' fs' ch'' ch'''. handle_block E b (ch, fs) = Inr (ch', fs') \<and> chain_holds E k bs (ch', fs') \<and>
    coins E (chain_coin_database ch') = coins E (chain_coin_database ch) \<and>
    get_chain_length E (hash_block E b) ch' = Inr (1, ch'') \<and> get_block E (hash_block E b) fs' ch' = Inr (Some b, ch''')"
proof -
  note hh = chain_holds_parts [OF assms(2)]
  note h = chain_reads_parts [OF hh(1)]
  have p: "record_of (runtime_of E) (block_info_database ch) (previous_block_hash (Block_block_header b)) = Inr default_record"
    by (rule record_of_unknown [OF assms(4)])
  have "recorded E (block_info_database ch) fs (length bs) (last bs)"
    using spec [OF h(7), of "length bs - 1"] h(1) by (cases bs rule: rev_cases) simp_all
  then obtain r0 where r0: "record_of (runtime_of E) (block_info_database ch) (hash_block E (last bs)) = Inr r0"
    "height r0 = of_nat (length bs)"
    by (auto simp: recorded_def split: sum.splits)
  have pos: "0 < length bs" using h(1) by simp
  then have "height r0 \<noteq> 0" using of_nat_less_32 [of 0 "length bs"] h(2) by (auto simp: r0(2))
  then have off: "previous_block_hash (Block_block_header b) \<noteq> hash_block E (last bs)" using p r0(1) by auto
  have "height default_record + 1 \<le> active_chain_length ch"
    using of_nat_le_32 [of 1 "length bs"] h(2,3) pos by simp
  from handle_block_not_higher [OF assms(1) hh(2,1) assms(3) p off this] obtain c w fs1 d r ch2 where
    s: "handle_block E b (ch, fs) = Inr (ch\<lparr>chain_coin_database := c, chain_writer := w, block_info_database := d\<rparr>, fs1)"
    "validated E b (chain_coin_database ch) c" "writer_ok k (w, fs1)"
    "stores E (hash_block E b) r (block_info_database ch, fs) (d, fs1)" "height r = 1"
    "get_block E (hash_block E b) fs1 (ch\<lparr>chain_coin_database := c, chain_writer := w, block_info_database := d\<rparr>) = Inr (Some b, ch2)"
    by auto
  let ?ch = "ch\<lparr>chain_coin_database := c, chain_writer := w, block_info_database := d\<rparr>"
  note kept = chain_holds_off_tip [OF assms(2,5) s(2-4)]
  moreover obtain ch3 where "get_chain_length E (hash_block E b) ?ch = Inr (1, ch3)"
    using s(4,5) by (simp add: get_chain_length_def get_block_record_eq stores_def)
  ultimately show ?thesis using s(1,6)
    by (intro exI [of _ ?ch] exI [of _ fs1] exI [of _ ch3] exI [of _ ch2]) simp
qed

end
