(* ===== verification/Double_Spend.thy ===== *)
theory Double_Spend
  imports Coin_Spec
begin

text \<open>
  Blocks whose transactions spend coins that are still in the cache. Validation and spending look at the cache and the
  store separately, so such a block is accepted whether or not its transactions spend the same coins. And transactions
  that are stored a second time: outputs that were spent since come back.
\<close>

section \<open>Inputs that are not in the store\<close>

text \<open>
  As long as the store has no record for the hash of an input, spending it never fails: a coin in the cache goes, and an
  output that is not there is passed over. So any number of transactions can spend one coin of the cache.
\<close>

definition unrecorded :: "Database \<Rightarrow> Transaction \<Rightarrow> bool" where
  "unrecorded d tx \<longleftrightarrow> list_all (\<lambda>i. \<not> Database_has (to_string (unat (reference_transaction_hash i))) d) (transaction_inputs tx)"

lemma spend_unrecorded:
  assumes "protobuf_runtime (runtime_of E)" "coin_inv E c"
    and "\<not> Database_has (to_string (unat (reference_transaction_hash i))) (coin_database c)"
  shows "\<exists>c'. spend_input E i c = Inr c' \<and> coin_inv E c' \<and> coins E c' = (coins E c)(coin_key i := None) \<and>
    coin_database c' = coin_database c \<and> unat (main_cache_size c') \<le> unat (main_cache_size c)"
proof (cases "map_of (main_cache c) (serialize_from_construct (reference_transaction_hash i) (utxo_index i))")
  case (Some coin)
  then show ?thesis using spend_cached [OF assms(2) Some] by blast
next
  case None
  then have spend: "spend_input E i c = Inr c" using assms(3) by (simp add: spend_input_def)
  have "coin_key i \<notin> dom (coins E c)"
  proof
    assume key: "coin_key i \<in> dom (coins E c)"
    from spend_stored [OF assms(1,2) key None] spend have "coins E c = (coins E c)(coin_key i := None)" by (metis sum.inject(2))
    then have "coins E c (coin_key i) = None" by (metis fun_upd_same)
    with key show False by auto
  qed
  then have "(coins E c)(coin_key i := None) = coins E c" by (auto simp: fun_eq_iff domIff)
  with spend assms(2) show ?thesis by simp
qed

lemma spends_unrecorded:
  assumes "protobuf_runtime (runtime_of E)"
  shows "coin_inv E c \<Longrightarrow> list_all (\<lambda>i. \<not> Database_has (to_string (unat (reference_transaction_hash i))) (coin_database c)) is \<Longrightarrow>
    \<exists>c'. res_fold (spend_input E) is c = Inr c' \<and> coin_inv E c' \<and>
      coins E c' = (\<lambda>k. if k \<in> coin_key ` set is then None else coins E c k) \<and>
      coin_database c' = coin_database c \<and> unat (main_cache_size c') \<le> unat (main_cache_size c)"
proof (induction "is" arbitrary: c)
  case (Cons i "is")
  obtain c1 where c1: "spend_input E i c = Inr c1" "coin_inv E c1" "coins E c1 = (coins E c)(coin_key i := None)"
    "coin_database c1 = coin_database c" "unat (main_cache_size c1) \<le> unat (main_cache_size c)"
    using spend_unrecorded [OF assms Cons.prems(1), of i] Cons.prems(2) by auto
  then obtain c2 where c2: "res_fold (spend_input E) is c1 = Inr c2" "coin_inv E c2"
    "coins E c2 = (\<lambda>k. if k \<in> coin_key ` set is then None else coins E c1 k)"
    "coin_database c2 = coin_database c1" "unat (main_cache_size c2) \<le> unat (main_cache_size c1)"
    using Cons.IH [of c1] Cons.prems(2) by auto
  have "coins E c2 = (\<lambda>k. if k \<in> coin_key ` set (i # is) then None else coins E c k)"
    by (rule ext) (simp add: c2(3) c1(3))
  with c1 c2 show ?case by simp
qed simp

text \<open>With room in the cache, creating outputs does not flush.\<close>

lemma create_outputs_room:
  assumes "create_outputs E h n outs c = Inr c'" "main_cache_capacity c = 70" "unat (main_cache_size c) + length outs \<le> 70"
  shows "coin_database c' = coin_database c \<and> unat (main_cache_size c') = unat (main_cache_size c) + length outs"
  using assms
proof (induction outs arbitrary: n c)
  case (Cons out outs)
  have "\<not> main_cache_capacity c \<le> main_cache_size c" using Cons.prems(2,3) by (simp add: word_le_nat_alt)
  then obtain c1 where c1: "create_output E h n out c = Inr c1" "coin_database c1 = coin_database c"
    "main_cache_capacity c1 = 70" "main_cache_size c1 = main_cache_size c + 1"
    using Cons.prems by (simp add: create_output_def)
  have "unat (main_cache_size c1) = unat (main_cache_size c) + 1"
    using Cons.prems c1(4) by (simp add: unat_word_ariths)
  with c1 Cons.prems Cons.IH [of "n + 1" c1] show ?case by simp
qed simp

text \<open>The transactions of a block whose inputs are all unrecorded, used once or several times.\<close>

fun fresh_outputs :: "'u env \<Rightarrow> Transaction list \<Rightarrow> (uint32 \<times> uint8 \<rightharpoonup> TransactionOutput) \<Rightarrow> bool" where
  "fresh_outputs E [] m \<longleftrightarrow> True"
| "fresh_outputs E (tx # txs) m \<longleftrightarrow> (\<forall>i. (hash_transaction E tx, i) \<notin> dom m) \<and>
     fresh_outputs E txs (utxo_step (hash_transaction E tx) tx m)"

lemma store_unrecorded:
  assumes "protobuf_runtime (runtime_of E)" "order_ok E" "coin_inv E c" "unrecorded (coin_database c) tx"
    and "unat (main_cache_size c) + length (transaction_outputs tx) \<le> 70" "\<forall>i. (hash_transaction E tx, i) \<notin> dom (coins E c)"
  shows "\<exists>c'. store_transaction_coins E tx c = Inr c' \<and> coin_inv E c' \<and>
    coins E c' = utxo_step (hash_transaction E tx) tx (coins E c) \<and> coin_database c' = coin_database c \<and>
    unat (main_cache_size c') \<le> unat (main_cache_size c) + length (transaction_outputs tx)"
proof -
  let ?h = "hash_transaction E tx"
  obtain c1 where c1: "res_fold (spend_input E) (transaction_inputs tx) c = Inr c1" "coin_inv E c1"
    "coins E c1 = (\<lambda>k. if k \<in> coin_key ` set (transaction_inputs tx) then None else coins E c k)"
    "coin_database c1 = coin_database c" "unat (main_cache_size c1) \<le> unat (main_cache_size c)"
    using spends_unrecorded [OF assms(1,3)] assms(4) unfolding unrecorded_def by blast
  have "(?h, i) \<notin> dom (coins E c1)" for i using assms(6) by (auto simp: c1(3) domIff)
  then obtain c2 where c2: "create_outputs E (sint ?h) (int 0) (transaction_outputs tx) c1 = Inr c2" "coin_inv E c2"
    "coins E c2 = (\<lambda>(h', i). if h' = ?h \<and> 0 \<le> unat i \<and> unat i < 0 + length (transaction_outputs tx)
       then Some (transaction_outputs tx ! (unat i - 0)) else coins E c1 (h', i))"
    using create_outputs_spec [OF assms(1,2) c1(2), of 0 "transaction_outputs tx" ?h] assms(5) by auto
  have "main_cache_capacity c1 = 70" using c1(2) by (simp add: coin_inv_def cache_inv_def)
  from create_outputs_room [OF c2(1) this] have "coin_database c2 = coin_database c1"
    "unat (main_cache_size c2) = unat (main_cache_size c1) + length (transaction_outputs tx)"
    using c1(5) assms(5) by simp_all
  then show ?thesis using c1 c2
    by (auto simp: store_transaction_coins_def utxo_step_def fun_eq_iff)
qed

lemma store_all_unrecorded:
  assumes "protobuf_runtime (runtime_of E)" "order_ok E"
  shows "coin_inv E c \<Longrightarrow> list_all (unrecorded (coin_database c)) txs \<Longrightarrow>
    unat (main_cache_size c) + sum_list (map (\<lambda>tx. length (transaction_outputs tx)) txs) \<le> 70 \<Longrightarrow> fresh_outputs E txs (coins E c) \<Longrightarrow>
    \<exists>c'. store_transactions_to_main_cache E txs c = Inr c' \<and> coin_inv E c' \<and> coins E c' = utxo_steps E txs (coins E c)"
proof (induction txs arbitrary: c)
  case (Cons tx txs)
  have "unat (main_cache_size c) + length (transaction_outputs tx) \<le> 70" using Cons.prems(3) by simp
  with store_unrecorded [OF assms Cons.prems(1), of tx] Cons.prems(2,4) obtain c1 where
    c1: "store_transaction_coins E tx c = Inr c1" "coin_inv E c1" "coins E c1 = utxo_step (hash_transaction E tx) tx (coins E c)"
    "coin_database c1 = coin_database c" "unat (main_cache_size c1) \<le> unat (main_cache_size c) + length (transaction_outputs tx)"
    by auto
  then show ?case using Cons.IH [OF c1(2)] Cons.prems by (auto simp: store_transactions_to_main_cache_def)
qed (simp add: store_transactions_to_main_cache_def)

text \<open>Validating such transactions does not touch the store at all.\<close>

lemma validate_unrecorded:
  assumes "coin_inv E c" "unrecorded (coin_database c) tx" "list_all (\<lambda>i. coin_key i \<in> dom (coins E c)) (transaction_inputs tx)"
  shows "validate_transaction E tx c = Inr (True, c)"
proof -
  have one: "validate_input E i c = Inr (True, c)"
    if i: "\<not> Database_has (to_string (unat (reference_transaction_hash i))) (coin_database c)" "coin_key i \<in> dom (coins E c)" for i
  proof -
    let ?h = "reference_transaction_hash i"
    obtain r where r: "coin_record_of E (coin_database c) ?h = Inr r" "record_good r"
      using assms(1) db_goodD by (metis coin_inv_def)
    have "ucast (utxo_index i) \<notin> set (utxo r)" using coin_record_present [OF r(1)] i(1) by blast
    then have "(?h, utxo_index i) \<notin> dom (db_coins E (coin_database c))" using ucast_notin [OF r] by blast
    then obtain coin where "map_of (main_cache c) (serialize_from_construct ?h (utxo_index i)) = Some coin"
      using i(2) by (auto simp: coins_def coin_key_def cache_coins_def)
    then show ?thesis
      using validate_input_spec [OF assms(1), of i] i(2) by (auto simp: validate_input_def)
  qed
  have "validate_inputs E is c = Inr (True, c)"
    if "list_all (\<lambda>i. \<not> Database_has (to_string (unat (reference_transaction_hash i))) (coin_database c)) is"
      "list_all (\<lambda>i. coin_key i \<in> dom (coins E c)) is" for "is"
    using that one by (induction "is") simp_all
  then show ?thesis using assms(2,3) by (simp add: validate_transaction_def unrecorded_def)
qed

lemma validate_all_unrecorded:
  assumes "coin_inv E c"
  shows "list_all (unrecorded (coin_database c)) txs \<Longrightarrow>
    list_all (\<lambda>tx. list_all (\<lambda>i. coin_key i \<in> dom (coins E c)) (transaction_inputs tx)) txs \<Longrightarrow> validate_block E txs c = Inr (True, c)"
  by (induction txs) (simp_all add: validate_unrecorded [OF assms])

lemma double_spend_stores:
  assumes "protobuf_runtime (runtime_of E)" "order_ok E" "coin_inv E c" "list_all (unrecorded (coin_database c)) txs"
    and "list_all (\<lambda>tx. list_all (\<lambda>i. coin_key i \<in> dom (coins E c)) (transaction_inputs tx)) txs"
    and "unat (main_cache_size c) + sum_list (map (\<lambda>tx. length (transaction_outputs tx)) txs) \<le> 70" "fresh_outputs E txs (coins E c)"
  shows "\<exists>c'. validate_and_store_block E txs c = Inr (True, c') \<and> coin_inv E c' \<and> coins E c' = utxo_steps E txs (coins E c)"
  using validate_all_unrecorded [OF assms(3-5)]
    store_all_unrecorded [OF assms(1,2), of "remove_transactions_from_mempool E txs c" txs] assms(3,4,6,7)
  by (auto simp: validate_and_store_block_def CoinDatabase_store_block_def remove_transactions_same remove_transactions_mempool)

section \<open>Outputs that are stored again\<close>

text \<open>
  Creating outputs that may exist already, with room in the cache and none of them in the store: the ones in the cache stay as they
  are, since \<open>insert\<close> does not overwrite, and the others are created.
\<close>

lemma create_output_again:
  assumes "coin_inv E c" "unat (main_cache_size c) < 70" "(h, i) \<notin> dom (db_coins E (coin_database c))"
    and "h = word_of_int hash" "i = word_of_int n"
  shows "\<exists>c'. create_output E hash n out c = Inr c' \<and> coin_inv E c' \<and> coins E c' = [(h, i) \<mapsto> out] ++ coins E c \<and>
    coin_database c' = coin_database c \<and> unat (main_cache_size c') = unat (main_cache_size c) + 1"
proof -
  let ?k = "serialize_from_construct h i" and ?coin = "Coin_new out False"
  let ?c = "c\<lparr>main_cache := cache_insert ?k ?coin (main_cache c), main_cache_size := main_cache_size c + 1\<rparr>"
  have inv: "cache_inv c" "db_good E (coin_database c)" "dom (cache_coins (main_cache c)) \<inter> dom (db_coins E (coin_database c)) = {}"
    using assms(1) by (simp_all add: coin_inv_def)
  have "\<not> main_cache_capacity c \<le> main_cache_size c"
    using inv(1) assms(2) by (simp add: cache_inv_def word_le_nat_alt)
  then have created: "create_output E hash n out c = Inr ?c" using assms(4,5) by (simp add: create_output_def)
  have size: "unat (main_cache_size c + 1) = unat (main_cache_size c) + 1"
    using assms(2) by (simp add: unat_word_ariths)
  have cached: "cache_coins (cache_insert ?k ?coin (main_cache c)) = [(h, i) \<mapsto> out] ++ cache_coins (main_cache c)"
    by (auto simp: cache_insert_def cache_coins_def fun_eq_iff Coin_new_def map_add_def split: option.splits)
  have new: "?k \<notin> fst ` set (main_cache c)" if "map_of (main_cache c) ?k = None"
    using that by (simp add: map_of_eq_None_iff)
  then have "cache_inv ?c"
    using inv(1) size assms(2) by (auto simp: cache_inv_def cache_insert_def coin_entry_def Coin_new_def)
  then have "coin_inv E ?c"
    using inv(2,3) assms(3) by (auto simp: coin_inv_def cached)
  moreover have "coins E ?c = [(h, i) \<mapsto> out] ++ coins E c"
    using assms(3) by (auto simp: coins_def cached fun_eq_iff map_add_def domIff split: option.splits)
  ultimately show ?thesis using created size by auto
qed

lemma create_outputs_again:
  "coin_inv E c \<Longrightarrow> n + length outs \<le> 256 \<Longrightarrow> unat (main_cache_size c) + length outs \<le> 70 \<Longrightarrow>
   (\<And>i. (h, i) \<notin> dom (db_coins E (coin_database c))) \<Longrightarrow>
   \<exists>c'. create_outputs E (sint h) (int n) outs c = Inr c' \<and> coin_inv E c' \<and>
     coins E c' = (\<lambda>(h', i). if h' = h \<and> n \<le> unat i \<and> unat i < n + length outs then Some (outs ! (unat i - n)) else None) ++ coins E c \<and>
     coin_database c' = coin_database c \<and> unat (main_cache_size c') = unat (main_cache_size c) + length outs"
proof (induction outs arbitrary: n c)
  case (Cons out outs)
  have n: "unat (of_nat n :: uint8) = n" using Cons.prems(2) by (simp add: unat_of_nat take_bit_nat_eq_self)
  have room: "unat (main_cache_size c) < 70" using Cons.prems(3) by simp
  obtain c1 where c1: "create_output E (sint h) (int n) out c = Inr c1" "coin_inv E c1"
    "coins E c1 = [(h, of_nat n) \<mapsto> out] ++ coins E c" "coin_database c1 = coin_database c"
    "unat (main_cache_size c1) = unat (main_cache_size c) + 1"
    using create_output_again [OF Cons.prems(1) room Cons.prems(4), where i = "of_nat n" and hash = "sint h" and n = "int n" and out = out] by auto
  then obtain c2 where c2: "create_outputs E (sint h) (int (Suc n)) outs c1 = Inr c2" "coin_inv E c2"
    "coins E c2 = (\<lambda>(h', i). if h' = h \<and> Suc n \<le> unat i \<and> unat i < Suc n + length outs then Some (outs ! (unat i - Suc n)) else None) ++ coins E c1"
    "coin_database c2 = coin_database c1" "unat (main_cache_size c2) = unat (main_cache_size c1) + length outs"
    using Cons.IH [of c1 "Suc n"] Cons.prems by auto
  let ?later = "\<lambda>(h', i :: uint8). if h' = h \<and> Suc n \<le> unat i \<and> unat i < Suc n + length outs then Some (outs ! (unat i - Suc n)) else None"
    and ?now = "\<lambda>(h', i :: uint8). if h' = h \<and> n \<le> unat i \<and> unat i < n + length (out # outs) then Some ((out # outs) ! (unat i - n)) else None"
  have eq: "(?later ++ [(h, of_nat n) \<mapsto> out]) (h', i) = ?now (h', i)" for h' i
  proof (cases "unat i = n")
    case True
    then have "i = of_nat n" by auto
    then show ?thesis using n by (simp add: map_add_def)
  next
    case False
    then have "i \<noteq> of_nat n" using n by auto
    moreover have "n \<le> unat i \<longleftrightarrow> Suc n \<le> unat i" "Suc n \<le> unat i \<Longrightarrow> unat i - n = Suc (unat i - Suc n)"
      using False by auto
    ultimately show ?thesis by (auto simp: map_add_def)
  qed
  have "?later ++ [(h, of_nat n) \<mapsto> out] = ?now"
  proof
    fix k show "(?later ++ [(h, of_nat n) \<mapsto> out]) k = ?now k" by (cases k) (simp only: eq)
  qed
  then have "coins E c2 = ?now ++ coins E c" unfolding c2(3) c1(3) map_add_assoc by (simp only:)
  with c1 c2 show ?case by (simp add: add.commute)
qed (auto simp: fun_eq_iff map_add_def split: option.splits)

text \<open>A block of transactions without inputs, stored again.\<close>

definition utxo_again :: "'u env \<Rightarrow> Transaction list \<Rightarrow> (uint32 \<times> uint8 \<rightharpoonup> TransactionOutput) \<Rightarrow> (uint32 \<times> uint8 \<rightharpoonup> TransactionOutput)" where
  "utxo_again E txs m = fold (\<lambda>tx m. utxo_step (hash_transaction E tx) tx Map.empty ++ m) txs m"

definition not_in_store :: "'u env \<Rightarrow> CoinDatabase \<Rightarrow> Transaction \<Rightarrow> bool" where
  "not_in_store E c tx \<longleftrightarrow> (\<forall>i. (hash_transaction E tx, i) \<notin> dom (db_coins E (coin_database c)))"

lemma not_in_store_same: "coin_database c' = coin_database c \<Longrightarrow> not_in_store E c' = not_in_store E c"
  by (simp add: fun_eq_iff not_in_store_def)

lemma store_transaction_again:
  assumes "coin_inv E c" "transaction_inputs tx = []" "unat (main_cache_size c) + length (transaction_outputs tx) \<le> 70" "not_in_store E c tx"
  shows "\<exists>c'. store_transaction_coins E tx c = Inr c' \<and> coin_inv E c' \<and>
    coins E c' = utxo_step (hash_transaction E tx) tx Map.empty ++ coins E c \<and> coin_database c' = coin_database c \<and>
    unat (main_cache_size c') = unat (main_cache_size c) + length (transaction_outputs tx)"
proof -
  have "utxo_step (hash_transaction E tx) tx Map.empty = (\<lambda>(h', i). if h' = hash_transaction E tx \<and> 0 \<le> unat i \<and>
      unat i < 0 + length (transaction_outputs tx) then Some (transaction_outputs tx ! (unat i - 0)) else None)"
    by (simp add: utxo_step_def assms(2) fun_eq_iff)
  then show ?thesis
    using create_outputs_again [OF assms(1), of 0 "transaction_outputs tx" "hash_transaction E tx"] assms(2-4)
    by (simp add: store_transaction_coins_def not_in_store_def)
qed

lemma store_transactions_again:
  "coin_inv E c \<Longrightarrow> list_all (\<lambda>tx. transaction_inputs tx = []) txs \<Longrightarrow>
   unat (main_cache_size c) + sum_list (map (\<lambda>tx. length (transaction_outputs tx)) txs) \<le> 70 \<Longrightarrow> list_all (not_in_store E c) txs \<Longrightarrow>
   \<exists>c'. store_transactions_to_main_cache E txs c = Inr c' \<and> coin_inv E c' \<and> coins E c' = utxo_again E txs (coins E c) \<and>
     coin_database c' = coin_database c \<and>
     unat (main_cache_size c') = unat (main_cache_size c) + sum_list (map (\<lambda>tx. length (transaction_outputs tx)) txs)"
proof (induction txs arbitrary: c)
  case (Cons tx txs)
  have "unat (main_cache_size c) + length (transaction_outputs tx) \<le> 70" using Cons.prems(3) by simp
  with store_transaction_again [OF Cons.prems(1), of tx] Cons.prems(2,4) obtain c1 where
    c1: "store_transaction_coins E tx c = Inr c1" "coin_inv E c1"
    "coins E c1 = utxo_step (hash_transaction E tx) tx Map.empty ++ coins E c" "coin_database c1 = coin_database c"
    "unat (main_cache_size c1) = unat (main_cache_size c) + length (transaction_outputs tx)" by auto
  then have "list_all (not_in_store E c1) txs" using Cons.prems(4) unfolding not_in_store_same [OF c1(4)] by simp
  then show ?case using c1 Cons.IH [OF c1(2)] Cons.prems by (auto simp: store_transactions_to_main_cache_def utxo_again_def)
qed (simp add: store_transactions_to_main_cache_def utxo_again_def)

lemma store_block_again:
  assumes "coin_inv E c" "list_all (\<lambda>tx. transaction_inputs tx = []) txs"
    and "unat (main_cache_size c) + sum_list (map (\<lambda>tx. length (transaction_outputs tx)) txs) \<le> 70" "list_all (not_in_store E c) txs"
  shows "\<exists>c'. CoinDatabase_store_block E txs c = Inr c' \<and> coin_inv E c' \<and> coins E c' = utxo_again E txs (coins E c) \<and>
    coin_database c' = coin_database c \<and>
    unat (main_cache_size c') = unat (main_cache_size c) + sum_list (map (\<lambda>tx. length (transaction_outputs tx)) txs)"
proof -
  have "list_all (not_in_store E (remove_transactions_from_mempool E txs c)) txs"
    using assms(4) unfolding not_in_store_same [OF remove_transactions_mempool(2)] .
  then show ?thesis
    using store_transactions_again [of E "remove_transactions_from_mempool E txs c" txs] assms(1-3)
    by (auto simp: CoinDatabase_store_block_def remove_transactions_same remove_transactions_mempool)
qed

lemma not_in_store_reads:
  assumes "only_reads E c c'"
  shows "not_in_store E c' = not_in_store E c" "main_cache_size c' = main_cache_size c"
proof -
  obtain d where d: "c' = c\<lparr>coin_database := d\<rparr>" "coin_record_of E d = coin_record_of E (coin_database c)"
    using assms by (auto simp: only_reads_def)
  then have eq: "db_coins E d = db_coins E (coin_database c)" by (simp add: db_coins_def)
  show "not_in_store E c' = not_in_store E c" by (rule ext) (simp add: d(1) not_in_store_def eq)
  show "main_cache_size c' = main_cache_size c" by (simp add: d(1))
qed

section \<open>Before the first flush\<close>

text \<open>
  The store stays empty, reads apart, until the cache is flushed for the first time. That does not happen while the number
  \<open>n\<close> of outputs created so far is at most the capacity of the cache.
\<close>

definition outputs_of :: "Transaction list \<Rightarrow> nat" where
  "outputs_of txs = sum_list (map (\<lambda>tx. length (transaction_outputs tx)) txs)"

definition unflushed :: "'u env \<Rightarrow> nat \<Rightarrow> CoinDatabase \<Rightarrow> bool" where
  "unflushed E n c \<longleftrightarrow> db_coins E (coin_database c) = Map.empty \<and> unat (main_cache_size c) \<le> n"

lemma outputs_of_simps [simp]: "outputs_of [] = 0" "outputs_of (tx # txs) = length (transaction_outputs tx) + outputs_of txs"
  by (simp_all add: outputs_of_def)

lemma unflushed_new: "unflushed E 0 CoinDatabase_new"
  using db_good_new(2) [of E] by (simp add: unflushed_def CoinDatabase_new_def)

lemma unflushed_not_in_store: "unflushed E n c \<Longrightarrow> not_in_store E c tx"
  by (simp add: unflushed_def not_in_store_def)

lemma unflushed_reads:
  assumes "only_reads E c c'"
  shows "unflushed E n c' = unflushed E n c"
proof -
  obtain d where "c' = c\<lparr>coin_database := d\<rparr>" "coin_record_of E d = coin_record_of E (coin_database c)"
    using assms by (auto simp: only_reads_def)
  then show ?thesis by (simp add: unflushed_def db_coins_def)
qed

end
