(* ===== verification/Reorganisation.thy ===== *)
theory Reorganisation
  imports Chain_Forks Double_Spend "HOL-Library.Sublist"
begin

text \<open>
  What happens when a block comes higher than the chain is long: \<open>take_over\<close>, with the stack of
  \<open>get_forked_blocks_stack\<close> and the queue of \<open>get_undo_blocks_queue\<close>. Afterwards the branch
  below the block is the chain, or the program has no defined behaviour because a block of the old chain cannot be undone.
\<close>

section \<open>Taking over\<close>

text \<open>
  A fork: the blocks with hashes \<open>hs\<close> are recorded, the first one on top of \<open>bs ! (j - 1)\<close>, the others each
  on the one before, and they leave the active chain at \<open>bs ! j\<close>.
\<close>

definition forked :: "'u env \<Rightarrow> BlockInfoDatabase \<Rightarrow> Block list \<Rightarrow> nat \<Rightarrow> uint32 list \<Rightarrow> bool" where
  "forked E d bs j hs \<longleftrightarrow> hs \<noteq> [] \<and> 1 \<le> j \<and> j < length bs \<and> j + length hs < 2 ^ 31 \<and> hd hs \<noteq> hash_block E (bs ! j) \<and>
     (\<forall>m < length hs. \<exists>r. record_of (runtime_of E) d (hs ! m) = Inr r \<and> height r = of_nat (j + Suc m) \<and>
        previous_block_hash (BlockRecord_block_header r) = (if m = 0 then hash_block E (bs ! (j - 1)) else hs ! (m - 1)))"

definition back_linked :: "'u env \<Rightarrow> BlockInfoDatabase \<Rightarrow> uint32 list \<Rightarrow> bool" where
  "back_linked E d hs \<longleftrightarrow> (\<forall>i < length hs. \<exists>r. record_of (runtime_of E) d (hs ! i) = Inr r \<and>
     (0 < i \<longrightarrow> previous_block_hash (BlockRecord_block_header r) = hs ! (i - 1)))"

lemma back_linked_same: "record_of (runtime_of E) d' = record_of (runtime_of E) d \<Longrightarrow> back_linked E d' hs = back_linked E d hs"
  by (simp add: back_linked_def)

lemma back_linked_get:
  assumes "back_linked E d hs" "i < length hs"
  obtains r d' where "get_block_record (runtime_of E) (hs ! i) d = Inr (r, d')"
    "record_of (runtime_of E) d' = record_of (runtime_of E) d" "back_linked E d' hs"
    "0 < i \<longrightarrow> previous_block_hash (BlockRecord_block_header r) = hs ! (i - 1)"
proof -
  obtain r where r: "record_of (runtime_of E) d (hs ! i) = Inr r"
    "0 < i \<longrightarrow> previous_block_hash (BlockRecord_block_header r) = hs ! (i - 1)"
    using assms by (auto simp: back_linked_def)
  then obtain d' where d': "get_block_record (runtime_of E) (hs ! i) d = Inr (r, d')" by (simp add: get_block_record_eq)
  note same = get_block_record_same [OF d']
  show ?thesis using that [OF d' same _ r(2)] assms(1) back_linked_same [OF same] by blast
qed

lemma back_linked_active:
  assumes "linked E bs" "\<forall>i < length bs. recorded E d fs (Suc i) (bs ! i)"
  shows "back_linked E d (map (hash_block E) bs)"
  unfolding back_linked_def
proof (intro allI impI)
  fix i assume i: "i < length (map (hash_block E) bs)"
  then have "recorded E d fs (Suc i) (bs ! i)" using assms(2) by simp
  then obtain r where "record_of (runtime_of E) d (hash_block E (bs ! i)) = Inr r" "BlockRecord_block_header r = Block_block_header (bs ! i)"
    by (auto simp: recorded_def split: sum.splits)
  moreover have "previous_block_hash (Block_block_header (bs ! i)) = hash_block E (bs ! (i - 1))" if "0 < i"
    using assms(1) i that by (cases i) (auto simp: linked_def)
  ultimately show "\<exists>r. record_of (runtime_of E) d (map (hash_block E) bs ! i) = Inr r \<and>
      (0 < i \<longrightarrow> previous_block_hash (BlockRecord_block_header r) = map (hash_block E) bs ! (i - 1))"
    using i by auto
qed

lemma back_linked_append:
  assumes "back_linked E d xs" "xs \<noteq> []"
    and "\<forall>m < length ys. \<exists>r. record_of (runtime_of E) d (ys ! m) = Inr r \<and>
      previous_block_hash (BlockRecord_block_header r) = (if m = 0 then last xs else ys ! (m - 1))"
  shows "back_linked E d (xs @ ys)"
  unfolding back_linked_def
proof (intro allI impI)
  fix i assume i: "i < length (xs @ ys)"
  show "\<exists>r. record_of (runtime_of E) d ((xs @ ys) ! i) = Inr r \<and>
      (0 < i \<longrightarrow> previous_block_hash (BlockRecord_block_header r) = (xs @ ys) ! (i - 1))"
  proof (cases "i < length xs")
    case True
    then show ?thesis using assms(1) by (auto simp: back_linked_def nth_append)
  next
    case False
    then obtain m where m: "i = length xs + m" "m < length ys" using i by (metis add_diff_inverse_nat length_append nat_add_left_cancel_less)
    have "(xs @ ys) ! (i - 1) = (if m = 0 then last xs else ys ! (m - 1))"
      using assms(2) m by (auto simp: nth_append last_conv_nth)
    then show ?thesis using assms(3) m by (auto simp: nth_append)
  qed
qed

lemma forked_loop_spec:
  "back_linked E d hs \<Longrightarrow> i \<le> length hs \<Longrightarrow> (0 < i \<longrightarrow> prev = hs ! (i - 1)) \<Longrightarrow>
   \<exists>d'. forked_loop E i prev acc d = Inr (take i hs @ acc, d') \<and> record_of (runtime_of E) d' = record_of (runtime_of E) d"
proof (induction i arbitrary: prev acc d)
  case (Suc i)
  have i: "i < length hs" "prev = hs ! i" using Suc.prems(2,3) by auto
  obtain r d1 where r: "get_block_record (runtime_of E) (hs ! i) d = Inr (r, d1)"
    "record_of (runtime_of E) d1 = record_of (runtime_of E) d" "back_linked E d1 hs"
    "0 < i \<longrightarrow> previous_block_hash (BlockRecord_block_header r) = hs ! (i - 1)"
    using back_linked_get [OF Suc.prems(1) i(1)] .
  then show ?case
    using Suc.IH [OF r(3) _ r(4), of "prev # acc"] i by (auto simp: take_Suc_conv_app_nth)
qed simp

lemma first_mismatch_fork: "x \<noteq> y \<Longrightarrow> first_mismatch (ps @ x # xs) (ps @ y # ys) = Inr x"
  by (induction ps) simp_all

text \<open>The stack: not the forked blocks, but the one block both chains share last.\<close>

lemma whole_chain_hashes:
  assumes "protobuf_runtime (runtime_of E)" "chain_reads E k bs (ch, fs)"
  shows "\<exists>ch1. get_active_chain_hashes E 1 (active_chain_length ch) ch = Inr (map (hash_block E) bs, ch1) \<and> same_records E ch ch1"
proof -
  note h = chain_reads_parts [OF assms(2)]
  have "unat (of_nat (length bs) :: uint32) = length bs" using h(2) by (simp add: unat_of_nat take_bit_nat_eq_self)
  then show ?thesis
    using active_chain_hashes_spec [OF assms, of 1 "active_chain_length ch"] h(1)
    by (auto simp: h(3) chain_slice_def word_less_nat_alt)
qed

text \<open>Walking back from the last block of a fork gives the hashes of the shared blocks and of the fork.\<close>

lemma forked_walk:
  assumes "linked E bs" "\<forall>i < length bs. recorded E d fs (Suc i) (bs ! i)" "forked E d bs j hs"
  shows "\<exists>r d2 d3. get_block_record (runtime_of E) (last hs) d = Inr (r, d2) \<and> rounds (height r) = j + length hs \<and>
    forked_loop E (j + length hs) (last hs) [] d2 = Inr (map (hash_block E) (take j bs) @ hs, d3) \<and>
    record_of (runtime_of E) d3 = record_of (runtime_of E) d"
proof -
  have f: "hs \<noteq> []" "1 \<le> j" "j < length bs" "j + length hs < 2 ^ 31"
    "\<And>m. m < length hs \<Longrightarrow> \<exists>r. record_of (runtime_of E) d (hs ! m) = Inr r \<and> height r = of_nat (j + Suc m) \<and>
        previous_block_hash (BlockRecord_block_header r) = (if m = 0 then hash_block E (bs ! (j - 1)) else hs ! (m - 1))"
    using assms(3) by (auto simp: forked_def)
  let ?all = "map (hash_block E) (take j bs) @ hs" and ?n = "j + length hs"
  have "back_linked E d (map (hash_block E) bs)" by (rule back_linked_active [OF assms(1,2)])
  then have bl: "back_linked E d (map (hash_block E) (take j bs))"
    using f(3) by (simp add: back_linked_def)
  have shared: "map (hash_block E) (take j bs) \<noteq> []" using f(2,3) by auto
  have lst: "last (map (hash_block E) (take j bs)) = hash_block E (bs ! (j - 1))"
    using f(2,3) by (subst last_conv_nth) auto
  have "\<forall>m < length hs. \<exists>r. record_of (runtime_of E) d (hs ! m) = Inr r \<and>
      previous_block_hash (BlockRecord_block_header r) = (if m = 0 then last (map (hash_block E) (take j bs)) else hs ! (m - 1))"
    unfolding lst using f(5) by blast
  from back_linked_append [OF bl shared this] have linked: "back_linked E d ?all" .
  have "last hs = hs ! (length hs - 1)" "0 < length hs" using f(1) by (simp_all add: last_conv_nth)
  moreover have "?n - 1 = j + (length hs - 1)" using \<open>0 < length hs\<close> by linarith
  ultimately have lasthash: "last hs = ?all ! (?n - 1)" using f(3) by (simp only: nth_append) simp
  obtain r where r: "record_of (runtime_of E) d (last hs) = Inr r" "height r = of_nat ?n"
    using f(5) [of "length hs - 1"] f(1) by (auto simp: last_conv_nth)
  then obtain d2 where d2: "get_block_record (runtime_of E) (last hs) d = Inr (r, d2)" by (simp add: get_block_record_eq)
  note same = get_block_record_same [OF d2]
  have "rounds (height r) = ?n" unfolding r(2) by (rule rounds_of_nat [OF f(4)])
  moreover obtain d3 where "forked_loop E ?n (last hs) [] d2 = Inr (?all, d3)" "record_of (runtime_of E) d3 = record_of (runtime_of E) d2"
    using forked_loop_spec [of E d2 ?all ?n "last hs" "[]"] linked back_linked_same [OF same] f(3) lasthash by auto
  ultimately show ?thesis using d2 same by auto
qed

lemma forked_mismatch:
  assumes "forked E d bs j hs"
  shows "first_mismatch (map (hash_block E) bs) (map (hash_block E) (take j bs) @ hs) = Inr (hash_block E (bs ! j))"
proof -
  have f: "hs \<noteq> []" "j < length bs" "hd hs \<noteq> hash_block E (bs ! j)" using assms by (simp_all add: forked_def)
  have "map (hash_block E) bs = map (hash_block E) (take j bs) @ hash_block E (bs ! j) # map (hash_block E) (drop (Suc j) bs)"
    using f(2) by (metis id_take_nth_drop list.simps(9) map_append)
  with f(1,3) show ?thesis using first_mismatch_fork by (cases hs) auto
qed

lemma fork_stack:
  assumes "protobuf_runtime (runtime_of E)" "chain_reads E k bs (ch, fs)" "forked E (block_info_database ch) bs j hs"
  shows "\<exists>ch'. get_forked_blocks_stack E (last hs) fs ch = Inr ([Some (bs ! (j - 1))], ch') \<and> same_records E ch ch'"
proof -
  note h = chain_reads_parts [OF assms(2)]
  have j: "1 \<le> j" "j < length bs" using assms(3) by (auto simp: forked_def)
  obtain ch1 where ch1: "get_active_chain_hashes E 1 (active_chain_length ch) ch = Inr (map (hash_block E) bs, ch1)" "same_records E ch ch1"
    using whole_chain_hashes [OF assms(1,2)] by blast
  obtain d1 where d1: "ch1 = ch\<lparr>block_info_database := d1\<rparr>"
    "record_of (runtime_of E) d1 = record_of (runtime_of E) (block_info_database ch)"
    using ch1(2) by (auto simp: same_records_def)
  have rec1: "\<forall>i < length bs. recorded E d1 fs (Suc i) (bs ! i)" using h(7) recorded_same [OF d1(2)] by blast
  have "forked E d1 bs j hs" using assms(3) by (simp add: forked_def d1(2))
  from forked_walk [OF h(6) rec1 this] obtain r d2 d3 where walk: "get_block_record (runtime_of E) (last hs) d1 = Inr (r, d2)"
    "rounds (height r) = j + length hs" "forked_loop E (j + length hs) (last hs) [] d2 = Inr (map (hash_block E) (take j bs) @ hs, d3)"
    "record_of (runtime_of E) d3 = record_of (runtime_of E) d1" by blast
  have rec3: "\<forall>i < length bs. recorded E d3 fs (Suc i) (bs ! i)" using rec1 recorded_same [OF walk(4)] by blast
  from walk_back [OF h(6) rec3 j(2)] obtain r' d4 where r': "get_block_record (runtime_of E) (hash_block E (bs ! j)) d3 = Inr (r', d4)"
    "\<forall>i < length bs. recorded E d4 fs (Suc i) (bs ! i)" "record_of (runtime_of E) d4 = record_of (runtime_of E) d3"
    "previous_block_hash (BlockRecord_block_header r') = hash_block E (bs ! (j - 1))"
    using j(1) by auto
  moreover obtain d5 where "load_block E (hash_block E (bs ! (j - 1))) fs d4 = Inr (Some (bs ! (j - 1)), d5)"
    "record_of (runtime_of E) d5 = record_of (runtime_of E) d4"
    using recorded_load [OF assms(1), of d4 fs "Suc (j - 1)" "bs ! (j - 1)"] r'(2) h(5) j(2) by (force simp: list_all_length)
  moreover obtain n' where "j + length hs = Suc n'" using j(1) by (cases "j + length hs") auto
  ultimately show ?thesis
    using ch1(1) walk d1 forked_mismatch [OF assms(3)] by (auto simp: get_forked_blocks_stack_def Let_def same_records_def)
qed

text \<open>
  What \<open>get_undo_blocks_queue\<close> finds for a block: its undo block, or, when its record has the dummy location, the
  block that a read of nothing gives.
\<close>

definition undo_found :: "'u env \<Rightarrow> BlockInfoDatabase \<Rightarrow> file_system \<Rightarrow> Block \<Rightarrow> UndoBlock" where
  "undo_found E d fs b = (if undoable E d fs b then undo_of E b else UndoBlock_new [] [])"

lemma UndoBlock_deserialize_Nil: "UndoBlock_deserialize rt '''' = Inr (UndoBlock_new [] [])"
  by (simp add: UndoBlock_deserialize_def PUndoBlock_ParseFromString_def ParseFromString_def
      PUndoBlock_InternalParse_def parse_loop_Nil PUndoBlock_Clear_def PUndoBlock_new_def)

lemma undo_found_read:
  assumes "record_of (runtime_of E) d (hash_block E b) = Inr r" "undoable E d fs b \<or> undo_lost E d b"
  shows "\<exists>s. read_undo_block (undo_location r) fs = Inr s \<and> UndoBlock_deserialize (runtime_of E) s = Inr (undo_found E d fs b)"
  using assms(2)
proof
  assume u: "undoable E d fs b"
  then obtain s where "located (undo_location r) s fs" "UndoBlock_deserialize (runtime_of E) s = Inr (undo_of E b)"
    using assms(1) by (auto simp: undoable_def)
  with u show ?thesis using located_read by (auto simp: undo_found_def read_undo_block_def)
next
  assume lost: "undo_lost E d b"
  then have "undo_location r = FileInfo_new '''' 0 0" using assms(1) by (simp add: undo_lost_def)
  then have "read_undo_block (undo_location r) fs = Inr ''''"
    by (simp add: read_undo_block_def read_block_def fopen_read_def FileInfo_new_def)
  with lost not_both_undo [OF lost] show ?thesis by (simp add: undo_found_def UndoBlock_deserialize_Nil)
qed

text \<open>The queue of undo blocks, newest first.\<close>

lemma undo_queue_loop_spec:
  assumes "linked E bs"
  shows "\<forall>i < length bs. recorded E d fs (Suc i) (bs ! i) \<Longrightarrow> m \<le> n \<Longrightarrow> n \<le> length bs \<Longrightarrow>
    \<forall>b \<in> set (drop (n - m) (take n bs)). undoable E d fs b \<or> undo_lost E d b \<Longrightarrow>
    (0 < n \<longrightarrow> prev = hash_block E (bs ! (n - 1))) \<Longrightarrow>
    \<exists>d'. undo_queue_loop E fs m prev acc d = Inr (acc @ map (undo_found E d fs) (rev (drop (n - m) (take n bs))), d') \<and>
      record_of (runtime_of E) d' = record_of (runtime_of E) d"
proof (induction m arbitrary: n prev acc d)
  case (Suc m)
  then obtain i where n: "n = Suc i" "i < length bs" "prev = hash_block E (bs ! i)" by (cases n) auto
  have split: "drop (n - Suc m) (take n bs) = drop (i - m) (take i bs) @ [bs ! i]"
    using n(1,2) by (simp add: take_Suc_conv_app_nth)
  obtain r d1 where r: "get_block_record (runtime_of E) prev d = Inr (r, d1)"
    "\<forall>i < length bs. recorded E d1 fs (Suc i) (bs ! i)" "record_of (runtime_of E) d1 = record_of (runtime_of E) d"
    "0 < i \<longrightarrow> previous_block_hash (BlockRecord_block_header r) = hash_block E (bs ! (i - 1))"
    using walk_back [OF assms Suc.prems(1) n(2)] unfolding n(3) .
  note same = undoable_same [OF r(3)] undo_lost_same [OF r(3)]
  have "record_of (runtime_of E) d (hash_block E (bs ! i)) = Inr r"
    using r(1) unfolding n(3) by (cases "record_of (runtime_of E) d (hash_block E (bs ! i))") (auto simp: get_block_record_eq)
  moreover have "undoable E d fs (bs ! i) \<or> undo_lost E d (bs ! i)" using Suc.prems(4) unfolding split by simp
  ultimately obtain s where s: "read_undo_block (undo_location r) fs = Inr s"
    "UndoBlock_deserialize (runtime_of E) s = Inr (undo_found E d fs (bs ! i))"
    using undo_found_read by blast
  have "\<forall>b \<in> set (drop (i - m) (take i bs)). undoable E d1 fs b \<or> undo_lost E d1 b"
    using Suc.prems(4) unfolding split same by simp
  moreover have "undo_found E d1 fs = undo_found E d fs" by (simp add: fun_eq_iff undo_found_def same)
  ultimately obtain d2 where
    d2: "undo_queue_loop E fs m (previous_block_hash (BlockRecord_block_header r)) (acc @ [undo_found E d fs (bs ! i)]) d1
      = Inr (acc @ undo_found E d fs (bs ! i) # map (undo_found E d fs) (rev (drop (i - m) (take i bs))), d2)"
    "record_of (runtime_of E) d2 = record_of (runtime_of E) d1"
    using Suc.IH [OF r(2) _ _ _ r(4), of "acc @ [undo_found E d fs (bs ! i)]"] Suc.prems(2) n(1,2) by auto
  then show ?case using r(1,3) s split by (simp add: undo_location_def)
qed simp

lemma same_records_refl: "same_records E ch ch"
  by (auto simp: same_records_def intro: exI [of _ "block_info_database ch"])

lemma undo_queue_found:
  assumes "protobuf_runtime (runtime_of E)" "chain_reads E k bs (ch, fs)"
    and "\<forall>b \<in> set (tl bs). undoable E (block_info_database ch) fs b \<or> undo_lost E (block_info_database ch) b"
  shows "\<exists>ch'. get_undo_blocks_queue E n fs ch =
      Inr (if n = 0 then [] else map (undo_found E (block_info_database ch) fs) (rev (drop (unat n) bs)), ch') \<and> same_records E ch ch'"
proof -
  note h = chain_reads_parts [OF assms(2)]
  have len: "length bs < 2 ^ 31" using h(2) by simp
  have n32: "unat (of_nat (length bs) :: uint32) = length bs" using len by (simp add: unat_of_nat take_bit_nat_eq_self)
  have last: "get_last_block_hash E ch = Inr (hash_block E (last bs))" by (rule chain_last_hash [OF assms(1,2)])
  show ?thesis
  proof (cases "n = 0 \<or> active_chain_length ch < n")
    case True
    then have "n \<noteq> 0 \<Longrightarrow> length bs \<le> unat n" using h(3) n32 by (auto simp: word_less_nat_alt)
    with True last show ?thesis by (auto simp: get_undo_blocks_queue_def same_records_refl)
  next
    case False
    then have n: "n \<noteq> 0" "unat n \<le> length bs" using h(3) n32 by (auto simp: word_less_nat_alt)
    have m: "unat (active_chain_length ch - n) = length bs - unat n"
      using n(2) n32 by (simp add: h(3) unat_sub_if')
    have start: "0 < length bs \<longrightarrow> hash_block E (last bs) = hash_block E (bs ! (length bs - 1))"
      using h(1) by (simp add: last_conv_nth)
    have "0 < unat n" using n(1) by (simp add: unat_gt_0)
    then obtain n' where "unat n = Suc n'" by (cases "unat n") auto
    then have "set (drop (unat n) bs) \<subseteq> set (tl bs)" by (simp add: drop_Suc set_drop_subset)
    then have "\<forall>b \<in> set (drop (length bs - (length bs - unat n)) (take (length bs) bs)).
        undoable E (block_info_database ch) fs b \<or> undo_lost E (block_info_database ch) b"
      using assms(3) n(2) by auto
    from undo_queue_loop_spec [OF h(6,7) diff_le_self [of _ "unat n"] order_refl this start, where acc = "[]"]
    obtain d where "undo_queue_loop E fs (length bs - unat n) (hash_block E (last bs)) [] (block_info_database ch)
        = Inr (map (undo_found E (block_info_database ch) fs) (rev (drop (unat n) bs)), d)"
      "record_of (runtime_of E) d = record_of (runtime_of E) (block_info_database ch)"
      using n(2) by auto
    with last m n(1) False show ?thesis by (auto simp: get_undo_blocks_queue_def same_records_def)
  qed
qed

lemma undo_queue_at:
  assumes "protobuf_runtime (runtime_of E)" "chain_holds E k bs (ch, fs)"
  shows "\<exists>ch'. get_undo_blocks_queue E n fs ch =
      Inr (if n = 0 then [] else map (undo_of E) (rev (drop (unat n) bs)), ch') \<and> same_records E ch ch'"
proof -
  note h = chain_holds_parts [OF assms(2)]
  have found: "\<forall>b \<in> set (tl bs). undoable E (block_info_database ch) fs b \<or> undo_lost E (block_info_database ch) b"
    using h(3) list.set_sel(2) chain_reads_parts(1) [OF h(1)] by metis
  have all: "map (undo_found E (block_info_database ch) fs) (rev (drop (unat n) bs)) = map (undo_of E) (rev (drop (unat n) bs))"
    using h(3) set_drop_subset [of "unat n" bs] by (auto simp: undo_found_def)
  from undo_queue_found [OF assms(1) h(1) found, of n] show ?thesis unfolding all .
qed

text \<open>
  Undoing the coins of such a queue does nothing as long as every block has a transaction and an undo block; otherwise the
  first empty one is read out of range.
\<close>

lemma undo_coins_all:
  "undo_coins E us c = (if list_all (\<lambda>u. transaction_hashes u \<noteq> []) us then Inr c else Inl UB_index_out_of_range)"
proof (induction us)
  case (Cons u us)
  show ?case
  proof (cases "transaction_hashes u = []")
    case False
    then have "undo_coins E (u # us) c = undo_coins E us c"
      by (simp add: undo_coins_def for_equal_other)
    with False Cons show ?thesis by simp
  qed (simp add: undo_coins_empty)
qed (simp add: undo_coins_def)

definition reversible_block :: "'u env \<Rightarrow> BlockInfoDatabase \<Rightarrow> file_system \<Rightarrow> Block \<Rightarrow> bool" where
  "reversible_block E d fs b \<longleftrightarrow> undoable E d fs b \<and> transactions b \<noteq> []"

lemma undo_found_empty: "transaction_hashes (undo_found E d fs b) \<noteq> [] \<longleftrightarrow> reversible_block E d fs b"
  by (simp add: undo_found_def reversible_block_def undo_of_nonempty) (simp add: UndoBlock_new_def)

lemma undo_coins_found:
  "undo_coins E (map (undo_found E d fs) (rev bs)) c =
    (if list_all (reversible_block E d fs) bs then Inr c else Inl UB_index_out_of_range)"
  by (simp add: undo_coins_all list.pred_map comp_def undo_found_empty list_all_iff)

lemma take_over_spec:
  assumes "protobuf_runtime (runtime_of E)" "chain_reads E k bs (ch, fs)" "forked E (block_info_database ch) bs j hs"
    and "\<forall>b \<in> set (tl bs). undoable E (block_info_database ch) fs b \<or> undo_lost E (block_info_database ch) b"
  shows "\<exists>ch'. same_records E ch ch' \<and> take_over E b (last hs) (ch, fs) =
    (if list_all (reversible_block E (block_info_database ch) fs) (tl bs)
     then res_bind (CoinDatabase_store_block E (get_transactions (bs ! (j - 1))) (chain_coin_database ch)) (\<lambda>c.
       Inr (ch'\<lparr>chain_coin_database := c, active_chain_length := active_chain_length ch + 1, active_chain_last_block := b\<rparr>, fs))
     else Inl UB_index_out_of_range)"
proof -
  let ?found = "map (undo_found E (block_info_database ch) fs) (rev (tl bs))"
  obtain ch1 where ch1: "get_forked_blocks_stack E (last hs) fs ch = Inr ([Some (bs ! (j - 1))], ch1)" "same_records E ch ch1"
    using fork_stack [OF assms(1-3)] by blast
  then obtain d1 where d1: "ch1 = ch\<lparr>block_info_database := d1\<rparr>"
    "record_of (runtime_of E) d1 = record_of (runtime_of E) (block_info_database ch)" by (auto simp: same_records_def)
  note same = undoable_same [OF d1(2)] undo_lost_same [OF d1(2)]
  have reads: "chain_reads E k bs (ch1, fs)" using assms(2) chain_reads_same [OF ch1(2)] by simp
  have "\<forall>b \<in> set (tl bs). undoable E (block_info_database ch1) fs b \<or> undo_lost E (block_info_database ch1) b"
    using assms(4) by (simp add: d1(1) same)
  from undo_queue_found [OF assms(1) reads this, of 1]
  obtain ch2 where ch2: "get_undo_blocks_queue E 1 fs ch1 = Inr (map (undo_found E d1 fs) (rev (tl bs)), ch2)" "same_records E ch1 ch2"
    by (auto simp: d1(1) drop_Suc)
  have found: "undo_found E d1 fs = undo_found E (block_info_database ch) fs" by (simp add: fun_eq_iff undo_found_def same)
  have "same_records E ch ch2" using ch1(2) ch2(2) by (auto simp: same_records_def)
  then obtain d where d: "ch2 = ch\<lparr>block_info_database := d\<rparr>" by (auto simp: same_records_def)
  have "take_over E b (last hs) (ch, fs) =
      res_bind (undo_coins E ?found (chain_coin_database ch)) (\<lambda>c.
      res_bind (CoinDatabase_store_block E (get_transactions (bs ! (j - 1))) c) (\<lambda>c.
      Inr (ch2\<lparr>chain_coin_database := c, active_chain_length := active_chain_length ch + 1, active_chain_last_block := b\<rparr>, fs)))"
    using ch1(1) ch2(1) by (simp add: take_over_def d found res_bind_assoc)
  with \<open>same_records E ch ch2\<close> show ?thesis unfolding undo_coins_found by (intro exI [of _ ch2]) simp
qed

section \<open>A branch that becomes the chain\<close>

text \<open>A branch shares its first blocks with the chain; the two part at \<open>fork_point\<close>.\<close>

definition fork_point :: "'u env \<Rightarrow> Block list \<Rightarrow> Block list \<Rightarrow> nat" where
  "fork_point E xs ys = length (longest_common_prefix (map (hash_block E) xs) (map (hash_block E) ys))"

lemma longest_common_prefix_parts:
  "n = length (longest_common_prefix xs ys) \<Longrightarrow> n \<le> length xs \<and> n \<le> length ys \<and> take n xs = take n ys \<and>
   (n < length xs \<longrightarrow> n < length ys \<longrightarrow> xs ! n \<noteq> ys ! n)"
  by (induction xs ys arbitrary: n rule: longest_common_prefix.induct) auto

lemma fork_point_parts:
  assumes "j = fork_point E xs ys"
  shows "j \<le> length xs" "j \<le> length ys" "i < j \<Longrightarrow> hash_block E (xs ! i) = hash_block E (ys ! i)"
    "j < length xs \<Longrightarrow> j < length ys \<Longrightarrow> hash_block E (xs ! j) \<noteq> hash_block E (ys ! j)"
proof -
  note p = longest_common_prefix_parts [OF assms [unfolded fork_point_def]]
  show "j \<le> length xs" "j \<le> length ys" using p by simp_all
  show "j < length xs \<Longrightarrow> j < length ys \<Longrightarrow> hash_block E (xs ! j) \<noteq> hash_block E (ys ! j)" using p by simp
  assume i: "i < j"
  have "map (hash_block E) xs ! i = map (hash_block E) ys ! i" using p i by (metis nth_take)
  then show "hash_block E (xs ! i) = hash_block E (ys ! i)" using i p by simp
qed

lemma longest_common_prefix_append:
  "length (longest_common_prefix xs ys) < length xs \<Longrightarrow> length (longest_common_prefix xs ys) < length ys \<Longrightarrow>
   longest_common_prefix xs (ys @ zs) = longest_common_prefix xs ys"
  by (induction xs ys rule: longest_common_prefix.induct) auto

lemma fork_point_append:
  "fork_point E xs ys < length xs \<Longrightarrow> fork_point E xs ys < length ys \<Longrightarrow> fork_point E xs (ys @ zs) = fork_point E xs ys"
  by (simp add: fork_point_def longest_common_prefix_append)

lemma fork_point_less:
  assumes "length ys = length xs" "xs \<noteq> []" "hash_block E (last ys) \<noteq> hash_block E (last xs)"
  shows "fork_point E xs ys < length xs"
proof (rule ccontr)
  assume "\<not> fork_point E xs ys < length xs"
  then have "fork_point E xs ys = length xs" using fork_point_parts(1) [OF refl, of E xs ys] by simp
  then have "hash_block E (xs ! (length xs - 1)) = hash_block E (ys ! (length xs - 1))"
    using fork_point_parts(3) [OF refl, of "length xs - 1" E xs ys] assms(2) by simp
  moreover have "ys \<noteq> []" using assms(1,2) by auto
  ultimately show False using assms by (simp add: last_conv_nth)
qed

lemma branch_forked:
  assumes "branch E d fs ys" "j = fork_point E bs ys" "1 \<le> j" "j < length bs" "j < length ys" "length ys < 2 ^ 31"
  shows "forked E d bs j (map (hash_block E) (drop j ys))"
proof -
  note p = fork_point_parts [OF assms(2)]
  have b: "linked E ys" "\<And>i. i < length ys \<Longrightarrow> recorded E d fs (Suc i) (ys ! i)"
    using assms(1) by (simp_all add: branch_def)
  let ?hs = "map (hash_block E) (drop j ys)"
  have "\<exists>r. record_of (runtime_of E) d (?hs ! m) = Inr r \<and> height r = of_nat (j + Suc m) \<and>
      previous_block_hash (BlockRecord_block_header r) = (if m = 0 then hash_block E (bs ! (j - 1)) else ?hs ! (m - 1))"
    if m: "m < length ?hs" for m
  proof -
    have im: "j + m < length ys" using m by simp
    then have at: "?hs ! m = hash_block E (ys ! (j + m))" by simp
    obtain r where r: "record_of (runtime_of E) d (hash_block E (ys ! (j + m))) = Inr r" "height r = of_nat (j + Suc m)"
      "BlockRecord_block_header r = Block_block_header (ys ! (j + m))"
      using b(2) [OF im] by (auto simp: recorded_def split: sum.splits)
    obtain i where i: "j + m = Suc i" using assms(3) by (cases "j + m") auto
    then have "previous_block_hash (Block_block_header (ys ! (j + m))) = hash_block E (ys ! i)"
      using b(1) im by (simp add: linked_def)
    also have "\<dots> = (if m = 0 then hash_block E (bs ! (j - 1)) else ?hs ! (m - 1))"
    proof (cases m)
      case 0
      then show ?thesis using p(3) [of i] i by simp
    next
      case (Suc m')
      then have "?hs ! m' = hash_block E (ys ! (j + m'))" "i = j + m'" using im i by simp_all
      then show ?thesis using Suc by simp
    qed
    finally show ?thesis unfolding at using r by auto
  qed
  moreover have "?hs \<noteq> []" "hd ?hs = hash_block E (ys ! j)" using assms(5) by (simp_all add: hd_map hd_drop_conv_nth)
  moreover have "hash_block E (ys ! j) \<noteq> hash_block E (bs ! j)" using p(4) [OF assms(4,5)] by simp
  ultimately show ?thesis using assms(3,4,5,6) by (simp add: forked_def)
qed

text \<open>A stored record of another hash changes nothing about undoing a block.\<close>

lemma undo_kept:
  assumes "stores E h r (d, fs) (d', fs')" "h \<notin> hash_block E ` set bs" "\<forall>x \<in> set bs. undoable E d fs x \<or> undo_lost E d x"
  shows "\<forall>x \<in> set bs. undoable E d' fs' x \<or> undo_lost E d' x"
    "list_all (reversible_block E d' fs') bs = list_all (reversible_block E d fs) bs"
proof -
  have *: "undoable E d' fs' x = undoable E d fs x \<and> undo_lost E d' x = undo_lost E d x" if "x \<in> set bs" for x
  proof -
    have h: "hash_block E x \<noteq> h" using assms(2) that by auto
    show ?thesis
      using undoable_stores [OF assms(1) h] undo_lost_stores [OF assms(1) h] not_both_undo assms(3) that by blast
  qed
  then show "\<forall>x \<in> set bs. undoable E d' fs' x \<or> undo_lost E d' x" using assms(3) by simp
  show "list_all (reversible_block E d' fs') bs = list_all (reversible_block E d fs) bs"
    using * by (simp add: list_all_iff reversible_block_def)
qed

text \<open>A block on top of a branch as long as the chain is stored, which makes the branch longer, and \<open>take_over\<close> follows.\<close>

lemma handle_block_higher:
  assumes "protobuf_runtime (runtime_of E)" "coin_inv E (chain_coin_database ch)" "chain_reads E (Suc k) bs (ch, fs)"
    and "branch E (block_info_database ch) fs ys" "length ys = length bs"
    and "Block_weight b < 1000" "previous_block_hash (Block_block_header b) = hash_block E (last ys)"
    and "hash_block E (last ys) \<noteq> hash_block E (last bs)" "hash_block E b \<notin> hash_block E ` (set bs \<union> set ys)"
  shows "\<exists>ch1 fs1 r. handle_block E b (ch, fs) = take_over E b (hash_block E b) (ch1, fs1) \<and>
    validated E b (chain_coin_database ch) (chain_coin_database ch1) \<and> chain_reads E k bs (ch1, fs1) \<and>
    branch E (block_info_database ch1) fs1 (ys @ [b]) \<and>
    stores E (hash_block E b) r (block_info_database ch, fs) (block_info_database ch1, fs1) \<and> undo_lost E (block_info_database ch1) b"
proof -
  note h = chain_reads_parts [OF assms(3)]
  obtain p where p: "record_of (runtime_of E) (block_info_database ch) (previous_block_hash (Block_block_header b)) = Inr p"
    "height p = of_nat (length bs)"
    using branch_last [OF assms(4)] unfolding assms(5,7) .
  have high: "active_chain_length ch < height p + 1"
    using of_nat_less_32 [of "length bs" "Suc (length bs)"] h(2,3) p(2) by (simp add: add.commute)
  have "previous_block_hash (Block_block_header b) \<noteq> hash_block E (last bs)" using assms(7,8) by simp
  from handle_block_off_tip [OF assms(1-3,6) p(1) this] obtain c w fs1 d r where
    s: "handle_block E b (ch, fs) = take_over E b (hash_block E b) (ch\<lparr>chain_coin_database := c, chain_writer := w, block_info_database := d\<rparr>, fs1)"
    "validated E b (chain_coin_database ch) c" "writer_ok k (w, fs1)" "stores E (hash_block E b) r (block_info_database ch, fs) (d, fs1)"
    "height r = of_nat (Suc (length ys))" "BlockRecord_block_header r = Block_block_header b"
    "located (block_location r) (Block_serialize (runtime_of E) b) fs1" "undo_location r = FileInfo_new '''' 0 0"
    using high p(2) assms(5) by (auto simp: Let_def)
  let ?ch = "ch\<lparr>chain_coin_database := c, chain_writer := w, block_info_database := d\<rparr>"
  have fresh: "hash_block E b \<notin> hash_block E ` set bs" "hash_block E b \<notin> hash_block E ` set ys" using assms(9) by auto
  have "chain_reads E k bs (?ch, fs1)" using chain_reads_beside [OF assms(3) fresh(1) s(3,4)] by (simp add: chain_reads_def)
  moreover have "Block_weight b \<le> MAX_SIZE" using assms(6) by (simp add: MAX_SIZE_def INT_MAX_def)
  from branch_append [OF branch_stores [OF s(4) fresh(2) assms(4)] recorded_stored [OF s(4-7)] assms(7) this]
  have "branch E d fs1 (ys @ [b])" .
  ultimately show ?thesis using s(1,2,4) undo_lost_stored [OF s(4,8)]
    by (intro exI [of _ ?ch] exI [of _ fs1] exI [of _ r]) simp
qed

text \<open>
  A block on a branch as long as the chain: the branch, with the block on top, is the chain afterwards. Before that the
  coins of the old chain are undone, which does nothing or is undefined, and the block both share last is applied \<^emph>\<open>once more\<close>.
\<close>

lemma handle_block_takes_over:
  assumes "protobuf_runtime (runtime_of E)" "coin_inv E (chain_coin_database ch)" "chain_reads E (Suc k) bs (ch, fs)"
    and "branch E (block_info_database ch) fs ys" "length ys = length bs" "1 \<le> fork_point E bs ys"
    and "Block_weight b < 1000" "previous_block_hash (Block_block_header b) = hash_block E (last ys)"
    and "hash_block E (last ys) \<noteq> hash_block E (last bs)" "hash_block E b \<notin> hash_block E ` (set bs \<union> set ys)"
    and "\<forall>x \<in> set (tl bs). undoable E (block_info_database ch) fs x \<or> undo_lost E (block_info_database ch) x"
  shows "\<exists>c ch1 fs1 r. validated E b (chain_coin_database ch) c \<and> chain_reads E k (ys @ [b]) (ch1, fs1) \<and>
    stores E (hash_block E b) r (block_info_database ch, fs) (block_info_database ch1, fs1) \<and>
    undo_lost E (block_info_database ch1) b \<and>
    handle_block E b (ch, fs) =
      (if list_all (reversible_block E (block_info_database ch) fs) (tl bs)
       then res_bind (CoinDatabase_store_block E (get_transactions (bs ! (fork_point E bs ys - 1))) c) (\<lambda>c'.
         Inr (ch1\<lparr>chain_coin_database := c'\<rparr>, fs1))
       else Inl UB_index_out_of_range)"
proof -
  let ?j = "fork_point E bs ys" and ?d0 = "block_info_database ch"
  note h = chain_reads_parts [OF assms(3)]
  have j: "?j < length bs" using fork_point_less [OF assms(5) h(1) assms(9)] .
  obtain ch0 fs1 r where s: "handle_block E b (ch, fs) = take_over E b (hash_block E b) (ch0, fs1)"
    "validated E b (chain_coin_database ch) (chain_coin_database ch0)" "chain_reads E k bs (ch0, fs1)"
    "branch E (block_info_database ch0) fs1 (ys @ [b])"
    "stores E (hash_block E b) r (?d0, fs) (block_info_database ch0, fs1)" "undo_lost E (block_info_database ch0) b"
    using handle_block_higher [OF assms(1-5,7-10)] by blast
  let ?hs = "map (hash_block E) (drop ?j (ys @ [b]))"
  have "hash_block E b \<notin> hash_block E ` set (tl bs)" using assms(10) list.set_sel(2) [OF h(1)] by auto
  note undo = undo_kept [OF s(5) this assms(11)]
  have "forked E (block_info_database ch0) bs ?j ?hs"
    using branch_forked [OF s(4), of ?j bs] fork_point_append [of E bs ys "[b]"] assms(5,6) j h(2) by simp
  moreover have "last ?hs = hash_block E b" using j assms(5) by (simp add: last_map)
  moreover have len: "active_chain_length ch0 = active_chain_length ch" using h(3) chain_reads_parts(3) [OF s(3)] by simp
  ultimately obtain ch' where t: "same_records E ch0 ch'" "handle_block E b (ch, fs) =
    (if list_all (reversible_block E ?d0 fs) (tl bs)
     then res_bind (CoinDatabase_store_block E (get_transactions (bs ! (?j - 1))) (chain_coin_database ch0)) (\<lambda>c.
       Inr (ch'\<lparr>chain_coin_database := c, active_chain_length := active_chain_length ch + 1, active_chain_last_block := b\<rparr>, fs1))
     else Inl UB_index_out_of_range)"
    using take_over_spec [OF assms(1) s(3), of ?j ?hs b] undo s(1) by auto
  then obtain d' where d': "ch' = ch0\<lparr>block_info_database := d'\<rparr>" "record_of (runtime_of E) d' = record_of (runtime_of E) (block_info_database ch0)"
    by (auto simp: same_records_def)
  let ?ch1 = "ch'\<lparr>active_chain_length := active_chain_length ch + 1, active_chain_last_block := b\<rparr>"
  have order: "ch'\<lparr>chain_coin_database := c', active_chain_length := active_chain_length ch + 1, active_chain_last_block := b\<rparr>
      = ?ch1\<lparr>chain_coin_database := c'\<rparr>" for c' by (rule Chain.equality) simp_all
  have "chain_reads E k (ys @ [b]) (?ch1, fs1)"
    using s(4) chain_reads_parts(8) [OF s(3)] h(2,3) assms(5) branch_same [OF d'(2)] by (simp add: chain_reads_def d'(1))
  moreover have "stores E (hash_block E b) r (?d0, fs) (block_info_database ?ch1, fs1)"
    using s(5) d' by (simp add: stores_def)
  moreover have "undo_lost E (block_info_database ?ch1) b" using s(6) undo_lost_same [OF d'(2)] by (simp add: d'(1))
  ultimately show ?thesis using s(2) t(2) [unfolded order] by (intro exI [of _ "chain_coin_database ch0"] exI [of _ ?ch1] exI [of _ fs1] exI [of _ r] conjI)
qed

text \<open>
  When the transactions of the shared block have no inputs, as those of the genesis block, what happens to the coins can be
  said in full: the outputs of the shared block that were spent on the active chain are there again, and everything that
  was unspent before still is.
\<close>

lemma handle_block_resurrects:
  assumes "protobuf_runtime (runtime_of E)" "coin_inv E (chain_coin_database ch)" "chain_reads E (Suc k) bs (ch, fs)"
    and "branch E (block_info_database ch) fs ys" "length ys = length bs" "1 \<le> fork_point E bs ys"
    and "Block_weight b < 1000" "previous_block_hash (Block_block_header b) = hash_block E (last ys)"
    and "hash_block E (last ys) \<noteq> hash_block E (last bs)" "hash_block E b \<notin> hash_block E ` (set bs \<union> set ys)"
    and "list_all (reversible_block E (block_info_database ch) fs) (tl bs)" "txs = get_transactions (bs ! (fork_point E bs ys - 1))"
    and "list_all (\<lambda>tx. transaction_inputs tx = []) txs" "list_all (not_in_store E (chain_coin_database ch)) txs"
    and "unat (main_cache_size (chain_coin_database ch)) + outputs_of txs \<le> 70"
  shows "\<exists>ch' fs' r c. handle_block E b (ch, fs) = Inr (ch', fs') \<and> chain_reads E k (ys @ [b]) (ch', fs') \<and>
    coin_inv E (chain_coin_database ch') \<and>
    coins E (chain_coin_database ch') = utxo_again E txs (coins E (chain_coin_database ch)) \<and>
    only_reads E (chain_coin_database ch) c \<and> coin_database (chain_coin_database ch') = coin_database c \<and>
    unat (main_cache_size (chain_coin_database ch')) = unat (main_cache_size (chain_coin_database ch)) + outputs_of txs \<and>
    stores E (hash_block E b) r (block_info_database ch, fs) (block_info_database ch', fs') \<and>
    undo_lost E (block_info_database ch') b"
proof -
  have "\<forall>x \<in> set (tl bs). undoable E (block_info_database ch) fs x \<or> undo_lost E (block_info_database ch) x"
    using assms(11) by (auto simp: list_all_iff reversible_block_def)
  from handle_block_takes_over [OF assms(1-10) this] obtain c ch1 fs1 r where
    t: "validated E b (chain_coin_database ch) c" "chain_reads E k (ys @ [b]) (ch1, fs1)"
    "stores E (hash_block E b) r (block_info_database ch, fs) (block_info_database ch1, fs1)" "undo_lost E (block_info_database ch1) b"
    "handle_block E b (ch, fs) = res_bind (CoinDatabase_store_block E txs c) (\<lambda>c'. Inr (ch1\<lparr>chain_coin_database := c'\<rparr>, fs1))"
    using assms(11,12) by auto
  note reads = validated_reads [OF t(1)]
  note same = only_reads_same [OF reads] not_in_store_reads [OF reads]
  obtain c' where c': "CoinDatabase_store_block E txs c = Inr c'" "coin_inv E c'" "coins E c' = utxo_again E txs (coins E c)"
    "coin_database c' = coin_database c" "unat (main_cache_size c') = unat (main_cache_size c) + outputs_of txs"
    using store_block_again [of E c txs] same assms(2,13-15) unfolding outputs_of_def by auto
  then show ?thesis using t reads same
    by (intro exI [of _ "ch1\<lparr>chain_coin_database := c'\<rparr>"] exI [of _ fs1] exI [of _ r] exI [of _ c]) (simp add: chain_reads_coins)
qed

text \<open>Undoing is undefined as soon as one block above the first of the chain has no transactions or no undo block.\<close>

lemma handle_block_irreversible:
  assumes "protobuf_runtime (runtime_of E)" "coin_inv E (chain_coin_database ch)" "chain_reads E (Suc k) bs (ch, fs)"
    and "branch E (block_info_database ch) fs ys" "length ys = length bs" "1 \<le> fork_point E bs ys"
    and "Block_weight b < 1000" "previous_block_hash (Block_block_header b) = hash_block E (last ys)"
    and "hash_block E (last ys) \<noteq> hash_block E (last bs)" "hash_block E b \<notin> hash_block E ` (set bs \<union> set ys)"
    and "\<forall>x \<in> set (tl bs). undoable E (block_info_database ch) fs x \<or> undo_lost E (block_info_database ch) x"
    and "\<not> list_all (reversible_block E (block_info_database ch) fs) (tl bs)"
  shows "handle_block E b (ch, fs) = Inl UB_index_out_of_range"
  using handle_block_takes_over [OF assms(1-11)] assms(12) by (auto simp only: if_False)

end
