(* ===== verification/Replay.thy ===== *)
theory Replay
  imports Double_Spend Simulation
begin

text \<open>
  Storing \<^emph>\<open>any\<close> list of transactions before the first flush of the cache, whether or not their inputs are unspent: the
  description \<open>replay\<close> says for each input and each output what becomes of the coins, and where the program fails. This needs
  to know which transaction hashes validation has looked up in the store, since a lookup leaves an empty record.
\<close>

section \<open>The description\<close>

type_synonym utxo = "uint32 \<times> uint8 \<rightharpoonup> TransactionOutput"

text \<open>
  An input that is unspent is spent. One that is not is passed over, unless its hash has been looked up: then the program finds
  the empty record and erases at its end.
\<close>

definition replay_input :: "uint32 set \<Rightarrow> TransactionInput \<Rightarrow> utxo \<Rightarrow> utxo result" where
  "replay_input P i m =
     (if coin_key i \<in> dom m then Inr (m(coin_key i := None))
      else if reference_transaction_hash i \<in> P then Inl UB_erase_at_end
      else Inr m)"

text \<open>Outputs that exist already stay as they are.\<close>

definition new_outputs :: "uint32 \<Rightarrow> TransactionOutput list \<Rightarrow> utxo" where
  "new_outputs h outs = (\<lambda>(h', i). if h' = h \<and> unat i < length outs then Some (outs ! unat i) else None)"

definition replay_transaction :: "'u env \<Rightarrow> uint32 set \<Rightarrow> Transaction \<Rightarrow> utxo \<Rightarrow> utxo result" where
  "replay_transaction E P tx m =
     res_bind (res_fold (replay_input P) (transaction_inputs tx) m) (\<lambda>m.
     Inr (new_outputs (hash_transaction E tx) (transaction_outputs tx) ++ m))"

definition replay :: "'u env \<Rightarrow> uint32 set \<Rightarrow> Transaction list \<Rightarrow> utxo \<Rightarrow> utxo result" where
  "replay E P txs m = res_fold (replay_transaction E P) txs m"

text \<open>What validating inputs looks up: the hash of the first one that is not unspent.\<close>

fun lookups :: "utxo \<Rightarrow> TransactionInput list \<Rightarrow> uint32 set" where
  "lookups m [] = {}"
| "lookups m (i # is) = (if coin_key i \<in> dom m then lookups m is else {reference_transaction_hash i})"

definition block_inputs :: "Transaction list \<Rightarrow> TransactionInput list" where
  "block_inputs txs = concat (map transaction_inputs txs)"

lemma block_inputs_simps [simp]: "block_inputs [] = []" "block_inputs (tx # txs) = transaction_inputs tx @ block_inputs txs"
  by (simp_all add: block_inputs_def)

section \<open>Transactions that can be applied\<close>

text \<open>On transactions that are applicable one after the other, \<open>replay\<close> is \<open>utxo_steps\<close>.\<close>

lemma replay_inputs_applicable:
  "distinct (map coin_key is) \<Longrightarrow> list_all (\<lambda>i. coin_key i \<in> dom m) is \<Longrightarrow>
   res_fold (replay_input P) is m = Inr (\<lambda>k. if k \<in> coin_key ` set is then None else m k)"
proof (induction "is" arbitrary: m)
  case (Cons i "is")
  have "coin_key j \<noteq> coin_key i" if "j \<in> set is" for j using Cons.prems(1) imageI [OF that, of coin_key] by auto
  then have "list_all (\<lambda>j. coin_key j \<in> dom (m(coin_key i := None))) is" using Cons.prems(2) by (auto simp: list_all_iff)
  moreover have "distinct (map coin_key is)" using Cons.prems(1) by simp
  ultimately have "res_fold (replay_input P) is (m(coin_key i := None)) =
      Inr (\<lambda>k. if k \<in> coin_key ` set is then None else (m(coin_key i := None)) k)" by (rule Cons.IH [rotated])
  moreover have "(\<lambda>k. if k \<in> coin_key ` set is then None else (m(coin_key i := None)) k) =
      (\<lambda>k. if k \<in> coin_key ` set (i # is) then None else m k)" by auto
  moreover have "replay_input P i m = Inr (m(coin_key i := None))" using Cons.prems(2) by (simp add: replay_input_def)
  ultimately show ?case by simp
qed simp

lemma replay_transaction_applicable:
  assumes "tx_applicable (hash_transaction E tx) tx m"
  shows "replay_transaction E P tx m = Inr (utxo_step (hash_transaction E tx) tx m)"
proof -
  have "res_fold (replay_input P) (transaction_inputs tx) m = Inr (\<lambda>k. if k \<in> coin_key ` set (transaction_inputs tx) then None else m k)"
    using assms by (intro replay_inputs_applicable) (simp_all add: tx_applicable_def)
  moreover have "m (hash_transaction E tx, i) = None" for i using assms by (auto simp: tx_applicable_def domIff)
  ultimately show ?thesis
    by (auto simp: replay_transaction_def new_outputs_def utxo_step_def map_add_def fun_eq_iff split: option.splits)
qed

lemma replay_applicable: "txs_applicable E txs m \<Longrightarrow> replay E P txs m = Inr (utxo_steps E txs m)"
  by (induction txs arbitrary: m) (simp_all add: replay_def replay_transaction_applicable)

text \<open>Transactions without inputs only create what is not there.\<close>

lemma replay_no_inputs:
  assumes "list_all (\<lambda>tx. transaction_inputs tx = []) txs"
  shows "replay E P txs m = Inr (utxo_again E txs m)"
proof -
  have "replay_transaction E P tx m = Inr (utxo_step (hash_transaction E tx) tx Map.empty ++ m)" if "transaction_inputs tx = []" for tx m
  proof -
    have "new_outputs (hash_transaction E tx) (transaction_outputs tx) = utxo_step (hash_transaction E tx) tx Map.empty"
      using that by (auto simp: new_outputs_def utxo_step_def fun_eq_iff)
    then show ?thesis using that by (simp add: replay_transaction_def)
  qed
  then show ?thesis
    using assms by (induction txs arbitrary: m) (simp_all add: replay_def utxo_again_def)
qed

text \<open>An input that is not unspent and was looked up ends it all, whatever comes before it in the transaction.\<close>

lemma replay_inputs_fails:
  "i \<in> set is \<Longrightarrow> coin_key i \<notin> dom m \<Longrightarrow> reference_transaction_hash i \<in> P \<Longrightarrow> res_fold (replay_input P) is m = Inl UB_erase_at_end"
proof (induction "is" arbitrary: m)
  case (Cons j "is")
  show ?case
  proof (cases "replay_input P j m")
    case (Inl e)
    then show ?thesis by (simp add: replay_input_def split: if_splits)
  next
    case (Inr m')
    then have "j \<noteq> i" "coin_key i \<notin> dom m'" using Cons.prems by (auto simp: replay_input_def split: if_splits)
    then show ?thesis using Inr Cons by simp
  qed
qed simp

lemma replay_fails:
  "i \<in> set (transaction_inputs tx) \<Longrightarrow> coin_key i \<notin> dom m \<Longrightarrow> reference_transaction_hash i \<in> P \<Longrightarrow>
   replay E P (tx # txs) m = Inl UB_erase_at_end"
  by (simp add: replay_def replay_transaction_def replay_inputs_fails)

section \<open>The coin database before the first flush\<close>

text \<open>The coins are \<open>m\<close>, all in the cache, \<open>n\<close> outputs were created, and the store has empty records for the hashes \<open>P\<close>.\<close>

definition looked_up :: "CoinDatabase \<Rightarrow> uint32 set" where
  "looked_up c = {h. Database_has (to_string (unat h)) (coin_database c)}"

definition caches :: "'u env \<Rightarrow> nat \<Rightarrow> uint32 set \<Rightarrow> utxo \<Rightarrow> CoinDatabase \<Rightarrow> bool" where
  "caches E n P m c \<longleftrightarrow> coin_inv E c \<and> coins E c = m \<and> unflushed E n c \<and> looked_up c = P"

lemma spend_replay: "caches E n P m c \<Longrightarrow> agree (caches E n P) (replay_input P i m) (spend_input E i c)"
proof -
  assume c: "caches E n P m c"
  then have inv: "coin_inv E c" "coins E c = m" "unflushed E n c" "looked_up c = P" by (simp_all add: caches_def)
  show ?thesis
  proof (cases "coin_key i \<in> dom m")
    case True
    then have "coin_key i \<in> dom (cache_coins (main_cache c))" using inv(2,3) by (auto simp: coins_def unflushed_def)
    then obtain coin where "map_of (main_cache c) (serialize_from_construct (reference_transaction_hash i) (utxo_index i)) = Some coin"
      by (auto simp: cache_coins_def coin_key_def)
    from spend_cached [OF inv(1) this] obtain c' where "spend_input E i c = Inr c'" "coin_inv E c'" "coins E c' = m(coin_key i := None)"
      "coin_database c' = coin_database c" "unat (main_cache_size c') \<le> unat (main_cache_size c)" unfolding inv(2) by blast
    then show ?thesis using True inv by (simp add: replay_input_def caches_def unflushed_def looked_up_def)
  next
    case False
    then show ?thesis using spend_input_absent [of E c i] inv c by (auto simp: replay_input_def looked_up_def)
  qed
qed

lemma store_transaction_replay:
  assumes "caches E n P m c" "n + length (transaction_outputs tx) \<le> 70"
  shows "agree (caches E (n + length (transaction_outputs tx)) P) (replay_transaction E P tx m) (store_transaction_coins E tx c)"
  unfolding replay_transaction_def store_transaction_coins_def Let_def
proof (rule agree_bind)
  show "agree (caches E n P) (res_fold (replay_input P) (transaction_inputs tx) m) (res_fold (spend_input E) (transaction_inputs tx) c)"
    using assms(1) by (intro agree_fold [where R = "caches E n P"] spend_replay)
next
  fix m1 c1 assume c1: "caches E n P m1 c1"
  let ?h = "hash_transaction E tx" and ?outs = "transaction_outputs tx"
  have inv: "coin_inv E c1" "coins E c1 = m1" "unflushed E n c1" "looked_up c1 = P" using c1 by (simp_all add: caches_def)
  have room: "unat (main_cache_size c1) + length ?outs \<le> 70" using inv(3) assms(2) by (simp add: unflushed_def)
  obtain c2 where c2: "create_outputs E (sint ?h) (int 0) ?outs c1 = Inr c2" "coin_inv E c2"
    "coins E c2 = (\<lambda>(h', i). if h' = ?h \<and> 0 \<le> unat i \<and> unat i < 0 + length ?outs then Some (?outs ! (unat i - 0)) else None) ++ coins E c1"
    "coin_database c2 = coin_database c1" "unat (main_cache_size c2) = unat (main_cache_size c1) + length ?outs"
    using create_outputs_again [OF inv(1) _ room, of 0 ?h] inv(3) room by (auto simp: unflushed_def)
  have "coins E c2 = new_outputs ?h ?outs ++ m1" unfolding c2(3) inv(2) new_outputs_def by (simp cong: if_cong)
  then have "caches E (n + length ?outs) P (new_outputs ?h ?outs ++ m1) c2"
    using inv c2 by (simp add: caches_def unflushed_def looked_up_def)
  then show "agree (caches E (n + length ?outs) P) (Inr (new_outputs ?h ?outs ++ m1)) (create_outputs E (sint ?h) 0 ?outs c1)"
    using c2(1) by simp
qed

lemma store_transactions_replay:
  "caches E n P m c \<Longrightarrow> n + outputs_of txs \<le> 70 \<Longrightarrow>
   agree (caches E (n + outputs_of txs) P) (replay E P txs m) (store_transactions_to_main_cache E txs c)"
  unfolding replay_def store_transactions_to_main_cache_def
proof (induction txs arbitrary: n m c)
  case (Cons tx txs)
  have "agree (caches E (n + length (transaction_outputs tx)) P) (replay_transaction E P tx m) (store_transaction_coins E tx c)"
    using store_transaction_replay [OF Cons.prems(1)] Cons.prems(2) by simp
  then show ?case
    unfolding res_fold.simps by (rule agree_bind) (use Cons.IH [of "n + length (transaction_outputs tx)"] Cons.prems(2) in \<open>simp add: add.assoc\<close>)
qed simp

lemma store_block_replay:
  assumes "caches E n P m c" "n + outputs_of txs \<le> 70"
  shows "agree (caches E (n + outputs_of txs) P) (replay E P txs m) (CoinDatabase_store_block E txs c)"
proof -
  have "caches E n P m (remove_transactions_from_mempool E txs c)"
    using assms(1) by (simp add: caches_def remove_transactions_same unflushed_def looked_up_def remove_transactions_mempool)
  then show ?thesis unfolding CoinDatabase_store_block_def by (rule store_transactions_replay [OF _ assms(2)])
qed

section \<open>Validation\<close>

lemma lookups_subset: "list_all (\<lambda>i. coin_key i \<in> dom m) is \<Longrightarrow> lookups m is = {}"
  by (induction "is") auto

lemma lookups_append:
  "lookups m (is @ js) = (if list_all (\<lambda>i. coin_key i \<in> dom m) is then lookups m js else lookups m is)"
  by (induction "is") auto

lemma caches_reads:
  assumes "caches E n P m c" "only_reads E c c'" "looked_up c' = P'"
  shows "caches E n P' m c'"
  using assms only_reads_same [OF assms(2)] unflushed_reads [OF assms(2)] by (simp add: caches_def)

lemma validate_input_looks:
  assumes "caches E n P m c"
  shows "\<exists>c'. validate_input E i c = Inr (coin_key i \<in> dom m, c') \<and> only_reads E c c' \<and> caches E n (P \<union> lookups m [i]) m c'"
proof -
  have inv: "coin_inv E c" "coins E c = m" "unflushed E n c" "looked_up c = P" using assms by (simp_all add: caches_def)
  obtain c' where c': "validate_input E i c = Inr (coin_key i \<in> dom m, c')" "only_reads E c c'"
    using validate_input_spec [OF inv(1)] inv(2) by auto
  have "looked_up c' = P \<union> lookups m [i]"
  proof (cases "map_of (main_cache c) (serialize_from_construct (reference_transaction_hash i) (utxo_index i))")
    case (Some coin)
    then have "c' = c" "coin_key i \<in> dom m"
      using c'(1) inv(2,3) by (auto simp: validate_input_def coins_def unflushed_def cache_coins_def coin_key_def)
    then show ?thesis using inv(4) by simp
  next
    case None
    then have "coin_key i \<notin> dom m" using inv(2,3) by (auto simp: coins_def unflushed_def cache_coins_def coin_key_def)
    moreover have "coin_database c' = snd (get_safely (to_string (unat (reference_transaction_hash i))) (coin_database c))"
      using c'(1) None by (auto simp: validate_input_def case_prod_unfold Let_def)
    ultimately show ?thesis using inv(4) by (auto simp: looked_up_def db_simps)
  qed
  then show ?thesis using c' caches_reads [OF assms c'(2)] by blast
qed

lemma validate_inputs_looks:
  "caches E n P m c \<Longrightarrow>
   \<exists>c'. validate_inputs E is c = Inr (list_all (\<lambda>i. coin_key i \<in> dom m) is, c') \<and> only_reads E c c' \<and> caches E n (P \<union> lookups m is) m c'"
proof (induction "is" arbitrary: P c)
  case (Cons i "is")
  obtain c1 where c1: "validate_input E i c = Inr (coin_key i \<in> dom m, c1)" "only_reads E c c1" "caches E n (P \<union> lookups m [i]) m c1"
    using validate_input_looks [OF Cons.prems] by blast
  show ?case
  proof (cases "coin_key i \<in> dom m")
    case True
    then show ?thesis using Cons.IH [OF c1(3)] c1(1,2) by (auto intro: only_reads_trans)
  next
    case False
    then show ?thesis using c1 by simp
  qed
qed simp

lemma validate_block_looks:
  "caches E n P m c \<Longrightarrow>
   \<exists>c'. validate_block E txs c = Inr (list_all (\<lambda>i. coin_key i \<in> dom m) (block_inputs txs), c') \<and> only_reads E c c' \<and>
     caches E n (P \<union> lookups m (block_inputs txs)) m c'"
proof (induction txs arbitrary: P c)
  case (Cons tx txs)
  let ?all = "list_all (\<lambda>i. coin_key i \<in> dom m) (transaction_inputs tx)"
  obtain c1 where c1: "validate_inputs E (transaction_inputs tx) c = Inr (?all, c1)" "only_reads E c c1"
    "caches E n (P \<union> lookups m (transaction_inputs tx)) m c1"
    using validate_inputs_looks [OF Cons.prems] by blast
  show ?case
  proof (cases ?all)
    case True
    then show ?thesis
      using Cons.IH [OF c1(3)] c1(1,2) lookups_subset [OF True]
      by (auto simp: validate_transaction_def block_inputs_def lookups_append intro: only_reads_trans)
  next
    case False
    then show ?thesis using c1 by (simp add: validate_transaction_def block_inputs_def lookups_append)
  qed
qed (simp add: block_inputs_def)

section \<open>Before and after the first flush\<close>

text \<open>The coins are \<open>m\<close>, and as long as not more than 70 outputs were created nothing was flushed.\<close>

definition coins_hold :: "'u env \<Rightarrow> nat \<Rightarrow> uint32 set \<Rightarrow> utxo \<Rightarrow> CoinDatabase \<Rightarrow> bool" where
  "coins_hold E n P m c \<longleftrightarrow> coin_inv E c \<and> coins E c = m \<and> (n \<le> 70 \<longrightarrow> caches E n P m c)"

lemma coins_hold_new: "coins_hold E 0 {} Map.empty CoinDatabase_new"
  by (simp add: coins_hold_def caches_def coin_inv_new unflushed_new looked_up_def)
    (simp add: CoinDatabase_new_def Database_new_def Database_has_def)

text \<open>Any transactions before the first flush, later those that can be applied.\<close>

definition storable :: "'u env \<Rightarrow> nat \<Rightarrow> Transaction list \<Rightarrow> utxo \<Rightarrow> bool" where
  "storable E n txs m \<longleftrightarrow> n + outputs_of txs \<le> 70 \<or> txs_applicable E txs m"

lemma coins_hold_store:
  assumes "protobuf_runtime (runtime_of E)" "order_ok E" "coins_hold E n P m c" "storable E n txs m"
  shows "agree (coins_hold E (n + outputs_of txs) P) (replay E P txs m) (CoinDatabase_store_block E txs c)"
proof (cases "n + outputs_of txs \<le> 70")
  case True
  then have "caches E n P m c" using assms(3) by (simp add: coins_hold_def)
  from store_block_replay [OF this True] show ?thesis
    by (rule agree_mono) (simp add: coins_hold_def caches_def)
next
  case False
  then have app: "txs_applicable E txs m" using assms(4) by (simp add: storable_def)
  with store_block_spec [OF assms(1,2), of c txs] assms(3)
  obtain c' where "CoinDatabase_store_block E txs c = Inr c'" "coin_inv E c'" "coins E c' = utxo_steps E txs m"
    by (auto simp: coins_hold_def)
  then show ?thesis using False by (simp add: replay_applicable [OF app] coins_hold_def)
qed

lemma coins_hold_validate:
  assumes "coins_hold E n P m c" "validate_block E txs c = Inr (v, c')" "only_reads E c c'"
  shows "coins_hold E n (P \<union> lookups m (block_inputs txs)) m c'"
  using assms(1,2) validate_block_looks [of E n P m c txs] only_reads_same [OF assms(3)] by (auto simp: coins_hold_def)

lemma coins_hold_validate_inputs:
  assumes "coins_hold E n P m c" "validate_inputs E is c = Inr (v, c')" "only_reads E c c'"
  shows "coins_hold E n (P \<union> lookups m is) m c'"
  using assms(1,2) validate_inputs_looks [of E n P m c "is"] only_reads_same [OF assms(3)] by (auto simp: coins_hold_def)

end
