(* ===== verification/Ledger.thy ===== *)
theory Ledger
  imports Reorganisation Replay
begin

text \<open>
  What the whole node promises, without files, caches, records or encodings: a \<open>ledger\<close> has the blocks of
  the active chain, the unspent outputs and every block that was ever stored, and it is driven by the two
  kinds of messages. \<open>ledger_holds\<close> is the coupling with the state of the program; every message keeps it,
  forks that take over included, or is one on which both fail.
\<close>

section \<open>The abstract node\<close>

text \<open>
  Beside the chain and the unspent outputs: the height of every block by its hash, zero for unknown ones, the blocks
  themselves, the hashes of those whose undo block is on file, the number of outputs created so far, and the
  transaction hashes that were looked up without being found.
\<close>

record ledger =
  main_chain :: "Block list"
  unspent :: utxo
  heights :: "uint32 \<Rightarrow> nat"
  known :: "uint32 \<rightharpoonup> Block"
  undo_kept :: "uint32 set"
  created :: nat
  probed :: "uint32 set"

datatype message = NewBlock Block | NewTransaction Transaction

definition spendable :: "utxo \<Rightarrow> Block \<Rightarrow> bool" where
  "spendable m b \<longleftrightarrow> list_all (\<lambda>tx. list_all (\<lambda>i. coin_key i \<in> dom m) (transaction_inputs tx)) (transactions b)"

abbreviation parent :: "Block \<Rightarrow> uint32" where
  "parent b \<equiv> previous_block_hash (Block_block_header b)"

text \<open>The \<open>n\<close> blocks that end in the one of hash \<open>h\<close>, oldest first, as far as they are known.\<close>

fun ancestry :: "(uint32 \<rightharpoonup> Block) \<Rightarrow> nat \<Rightarrow> uint32 \<Rightarrow> Block list" where
  "ancestry kn 0 h = []"
| "ancestry kn (Suc n) h = (case kn h of None \<Rightarrow> [] | Some b \<Rightarrow> ancestry kn n (parent b) @ [b])"

text \<open>Validation looks inputs up.\<close>

definition look :: "TransactionInput list \<Rightarrow> ledger \<Rightarrow> ledger" where
  "look is L = L\<lparr>probed := probed L \<union> lookups (unspent L) is\<rparr>"

text \<open>A block on top of the chain, after which the unspent outputs are \<open>m\<close>.\<close>

definition append_block :: "'u env \<Rightarrow> Block \<Rightarrow> utxo \<Rightarrow> ledger \<Rightarrow> ledger" where
  "append_block E b m L =
     L\<lparr>main_chain := main_chain L @ [b], unspent := m,
       heights := (heights L)(hash_block E b := Suc (length (main_chain L))), known := (known L)(hash_block E b \<mapsto> b),
       undo_kept := insert (hash_block E b) (undo_kept L), created := created L + outputs_of (get_transactions b)\<rparr>"

definition remember_block :: "'u env \<Rightarrow> Block \<Rightarrow> ledger \<Rightarrow> ledger" where
  "remember_block E b L =
     L\<lparr>heights := (heights L)(hash_block E b := Suc (heights L (parent b))), known := (known L)(hash_block E b \<mapsto> b),
       undo_kept := undo_kept L - {hash_block E b}\<rparr>"

text \<open>The branch below a block that comes higher than the chain, and the block it shares with the chain last.\<close>

definition rival :: "Block \<Rightarrow> ledger \<Rightarrow> Block list" where
  "rival b L = ancestry (known L) (length (main_chain L)) (parent b)"

definition shared_block :: "'u env \<Rightarrow> Block \<Rightarrow> ledger \<Rightarrow> Block" where
  "shared_block E b L = main_chain L ! (fork_point E (main_chain L) (rival b L) - 1)"

definition switch_chain :: "'u env \<Rightarrow> Block \<Rightarrow> utxo \<Rightarrow> ledger \<Rightarrow> ledger" where
  "switch_chain E b m L =
     (remember_block E b L)\<lparr>main_chain := rival b L @ [b], unspent := m,
       created := created L + outputs_of (get_transactions (shared_block E b L))\<rparr>"

definition undo_possible :: "'u env \<Rightarrow> ledger \<Rightarrow> bool" where
  "undo_possible E L \<longleftrightarrow> list_all (\<lambda>b. hash_block E b \<in> undo_kept L \<and> transactions b \<noteq> []) (tl (main_chain L))"

text \<open>
  A block on the last block extends the chain when its inputs are unspent and is dropped otherwise. Any other
  block is remembered, one above the block it names, or at height one when that is unknown. If that is
  higher than the chain, its branch becomes the chain, and the block both share last is applied again, provided that the
  blocks of the old chain can be undone; otherwise the program has no defined behaviour.
\<close>

fun ledger_message :: "'u env \<Rightarrow> message \<Rightarrow> ledger \<Rightarrow> ledger result" where
  "ledger_message E (NewBlock b) L =
     (let L = look (block_inputs (transactions b)) L
      in if parent b = hash_block E (last (main_chain L)) then
           (if spendable (unspent L) b
            then res_bind (replay E (probed L) (get_transactions b) (unspent L)) (\<lambda>m. Inr (append_block E b m L))
            else Inr L)
         else if Suc (heights L (parent b)) \<le> length (main_chain L) then Inr (remember_block E b L)
         else if undo_possible E L
           then res_bind (replay E (probed L) (get_transactions (shared_block E b L)) (unspent L)) (\<lambda>m. Inr (switch_chain E b m L))
         else Inl UB_index_out_of_range)"
| "ledger_message E (NewTransaction tx) L = Inr (look (transaction_inputs tx) L)"

text \<open>
  The messages the promise is for. A block that will be appended must fit a file, as must its undo block; no block may
  have the hash of another block of the chain. A branch that takes over must share the first block with the chain and be of
  consecutive heights. What is applied to the coins must leave the cache unflushed; a block that is appended later must have
  transactions that are applicable one after the other.
\<close>

fun deliverable :: "'u env \<Rightarrow> message \<Rightarrow> ledger \<Rightarrow> bool" where
  "deliverable E (NewBlock b) L \<longleftrightarrow>
     (let bs = main_chain L; fresh = hash_block E b \<notin> hash_block E ` set bs; ys = rival b L
      in if parent b = hash_block E (last bs) then spendable (unspent L) b \<longrightarrow> block_ok E b \<and> fresh \<and> storable E (created L) (get_transactions b) (unspent L)
         else if Suc (heights L (parent b)) \<le> length bs
         then Block_weight b < 1000 \<and> (fresh \<or> b \<in> set bs \<and> heights L (hash_block E b) = Suc (heights L (parent b)))
         else Block_weight b < 1000 \<and> fresh \<and> hash_block E b \<notin> hash_block E ` set ys \<and>
           length ys = length bs \<and> 1 \<le> fork_point E bs ys \<and> (\<forall>i < length ys. heights L (hash_block E (ys ! i)) = Suc i) \<and>
           (undo_possible E L \<longrightarrow> created L + outputs_of (get_transactions (shared_block E b L)) \<le> 70))"
| "deliverable E (NewTransaction tx) L \<longleftrightarrow> True"

abbreviation deliverables :: "'u env \<Rightarrow> message list \<Rightarrow> ledger \<Rightarrow> bool" where
  "deliverables E \<equiv> covered_run (ledger_message E) (deliverable E)"

abbreviation ledger_messages :: "'u env \<Rightarrow> message list \<Rightarrow> ledger \<Rightarrow> ledger result" where
  "ledger_messages E \<equiv> res_fold (ledger_message E)"

definition genesis_ledger :: "'u env \<Rightarrow> ledger" where
  "genesis_ledger E = append_block E construct_genesis_block (utxo_steps E (get_transactions construct_genesis_block) Map.empty)
     \<lparr>main_chain = [], unspent = Map.empty, heights = (\<lambda>_. 0), known = Map.empty, undo_kept = {}, created = 0, probed = {}\<rparr>"

section \<open>The program as a node\<close>

fun handle_message :: "'u env \<Rightarrow> message \<Rightarrow> Chain \<times> file_system \<Rightarrow> (Chain \<times> file_system) result" where
  "handle_message E (NewBlock b) st = handle_block E b st"
| "handle_message E (NewTransaction tx) (ch, fs) = res_bind (handle_transaction E tx ch) (\<lambda>ch. Inr (ch, fs))"

text \<open>The heights the records give, zero for a hash that was never stored.\<close>

definition heights_hold :: "'u env \<Rightarrow> BlockInfoDatabase \<Rightarrow> (uint32 \<Rightarrow> nat) \<Rightarrow> nat \<Rightarrow> bool" where
  "heights_hold E d hts n \<longleftrightarrow>
     (\<forall>h. hts h \<le> n \<and> (\<exists>r. record_of (runtime_of E) d h = Inr r \<and> height r = of_nat (hts h)))"

text \<open>The known blocks are recorded with their heights, and their undo blocks are on file or have the dummy location.\<close>

definition known_holds :: "'u env \<Rightarrow> BlockInfoDatabase \<Rightarrow> file_system \<Rightarrow> (uint32 \<Rightarrow> nat) \<Rightarrow> (uint32 \<rightharpoonup> Block) \<Rightarrow> uint32 set \<Rightarrow> bool" where
  "known_holds E d fs hts kn U \<longleftrightarrow>
     (\<forall>h b. kn h = Some b \<longrightarrow> hash_block E b = h \<and> Block_weight b \<le> MAX_SIZE \<and> recorded E d fs (hts h) b \<and>
        (if h \<in> U then undoable E d fs b else undo_lost E d b))"

definition chain_known :: "'u env \<Rightarrow> (uint32 \<Rightarrow> nat) \<Rightarrow> (uint32 \<rightharpoonup> Block) \<Rightarrow> Block list \<Rightarrow> bool" where
  "chain_known E hts kn bs \<longleftrightarrow> (\<forall>i < length bs. kn (hash_block E (bs ! i)) = Some (bs ! i) \<and> hts (hash_block E (bs ! i)) = Suc i)"

definition blocks_hold :: "'u env \<Rightarrow> nat \<Rightarrow> ledger \<Rightarrow> Chain \<times> file_system \<Rightarrow> bool" where
  "blocks_hold E k L = (\<lambda>(ch, fs). chain_reads E k (main_chain L) (ch, fs) \<and>
     heights_hold E (block_info_database ch) (heights L) (length (main_chain L)) \<and>
     known_holds E (block_info_database ch) fs (heights L) (known L) (undo_kept L) \<and>
     chain_known E (heights L) (known L) (main_chain L) \<and> hd (main_chain L) = construct_genesis_block)"

definition ledger_holds :: "'u env \<Rightarrow> nat \<Rightarrow> ledger \<Rightarrow> Chain \<times> file_system \<Rightarrow> bool" where
  "ledger_holds E k L = (\<lambda>(ch, fs). blocks_hold E k L (ch, fs) \<and> coins_hold E (created L) (probed L) (unspent L) (chain_coin_database ch))"

lemma ledger_holds_parts:
  assumes "ledger_holds E k L (ch, fs)"
  shows "chain_reads E k (main_chain L) (ch, fs)" "coin_inv E (chain_coin_database ch)" "coins E (chain_coin_database ch) = unspent L"
    "coins_hold E (created L) (probed L) (unspent L) (chain_coin_database ch)"
    "heights_hold E (block_info_database ch) (heights L) (length (main_chain L))"
    "known_holds E (block_info_database ch) fs (heights L) (known L) (undo_kept L)"
    "chain_known E (heights L) (known L) (main_chain L)" "hd (main_chain L) = construct_genesis_block"
  using assms by (simp_all add: ledger_holds_def blocks_hold_def coins_hold_def)

lemma blocks_hold_coins: "blocks_hold E k L (ch\<lparr>chain_coin_database := c\<rparr>, fs) = blocks_hold E k L (ch, fs)"
  by (simp add: blocks_hold_def chain_reads_coins)

lemma look_same [simp]:
  "main_chain (look is L) = main_chain L" "unspent (look is L) = unspent L" "heights (look is L) = heights L" "known (look is L) = known L"
  "undo_kept (look is L) = undo_kept L" "created (look is L) = created L"
  "probed (look is L) = probed L \<union> lookups (unspent L) is"
  by (simp_all add: look_def)

lemma look_rest [simp]: "rival b (look is L) = rival b L" "undo_possible E (look is L) = undo_possible E L"
  "shared_block E b (look is L) = shared_block E b L" "blocks_hold E k (look is L) = blocks_hold E k L"
  by (simp_all add: fun_eq_iff rival_def undo_possible_def shared_block_def blocks_hold_def)

lemma ledger_coins [simp]:
  "unspent (append_block E b m L) = m" "created (append_block E b m L) = created L + outputs_of (get_transactions b)"
  "probed (append_block E b m L) = probed L" "unspent (remember_block E b L) = unspent L" "created (remember_block E b L) = created L"
  "probed (remember_block E b L) = probed L" "unspent (switch_chain E b m L) = m" "probed (switch_chain E b m L) = probed L"
  "created (switch_chain E b m L) = created L + outputs_of (get_transactions (shared_block E b L))"
  by (simp_all add: append_block_def remember_block_def switch_chain_def)

lemma block_inputs_get: "block_inputs (get_transactions b) = block_inputs (transactions b)"
  by (simp add: block_inputs_def get_transactions_eq comp_def Transaction_new_def)

lemma look_Nil [simp]: "look [] L = L"
  by (simp add: look_def)

lemma deliverable_look [simp]: "deliverable E msg (look is L) = deliverable E msg L"
  by (cases msg) (simp_all add: Let_def)

text \<open>The coins after a block was validated.\<close>

lemma coins_hold_validated:
  assumes "ledger_holds E k L (ch, fs)" "validated E b (chain_coin_database ch) c" "L' = look (block_inputs (transactions b)) L"
  shows "coins_hold E (created L') (probed L') (unspent L') c"
proof -
  obtain v where v: "validate_block E (get_transactions b) (chain_coin_database ch) = Inr (v, c)"
    using assms(2) by (auto simp: validated_def)
  from coins_hold_validate [OF ledger_holds_parts(4) [OF assms(1)] v validated_reads [OF assms(2)]]
  show ?thesis by (simp add: assms(3) block_inputs_get)
qed

lemma chain_reads_fewer: "chain_reads E (Suc k) bs st \<Longrightarrow> chain_reads E k bs st"
  by (auto simp: chain_reads_def writer_ok_def block_log_ok_def)

lemma blocks_hold_fewer: "blocks_hold E (Suc k) L st \<Longrightarrow> blocks_hold E k L st"
  by (auto simp: blocks_hold_def chain_reads_fewer)

lemma heights_hold_store:
  assumes "heights_hold E d hts n" "stores E h r (d, fs) (d', fs')" "height r = of_nat m" "m \<le> n'" "n \<le> n'"
  shows "heights_hold E d' (hts(h := m)) n'"
  unfolding heights_hold_def
proof
  fix h'
  have "hts h' \<le> n" "\<exists>r. record_of (runtime_of E) d h' = Inr r \<and> height r = of_nat (hts h')"
    using assms(1) by (simp_all add: heights_hold_def)
  then show "(hts(h := m)) h' \<le> n' \<and> (\<exists>r. record_of (runtime_of E) d' h' = Inr r \<and> height r = of_nat ((hts(h := m)) h'))"
    using assms(2-5) by (auto simp: stores_def)
qed

lemma known_holds_store:
  assumes "known_holds E d fs hts kn U" "stores E (hash_block E b) r (d, fs) (d', fs')" "Block_weight b \<le> MAX_SIZE"
    and "recorded E d' fs' m b" "if hash_block E b \<in> U' then undoable E d' fs' b else undo_lost E d' b"
    and "U' - {hash_block E b} = U - {hash_block E b}"
  shows "known_holds E d' fs' (hts(hash_block E b := m)) (kn(hash_block E b \<mapsto> b)) U'"
  unfolding known_holds_def
proof (intro allI impI)
  fix h x assume x: "(kn(hash_block E b \<mapsto> b)) h = Some x"
  show "hash_block E x = h \<and> Block_weight x \<le> MAX_SIZE \<and> recorded E d' fs' ((hts(hash_block E b := m)) h) x \<and>
      (if h \<in> U' then undoable E d' fs' x else undo_lost E d' x)"
  proof (cases "h = hash_block E b")
    case True
    then show ?thesis using x assms(3-5) by (auto split: if_splits)
  next
    case False
    then have k: "hash_block E x = h" "Block_weight x \<le> MAX_SIZE" "recorded E d fs (hts h) x"
      "if h \<in> U then undoable E d fs x else undo_lost E d x"
      using x assms(1) by (simp_all add: known_holds_def)
    have "h \<in> U' \<longleftrightarrow> h \<in> U" using assms(6) False by blast
    then show ?thesis
      using k False recorded_stores [OF assms(2)] undoable_stores [OF assms(2)] undo_lost_stores [OF assms(2)] by auto
  qed
qed

lemma known_branch:
  assumes "known_holds E d fs hts kn U" "chain_known E hts kn bs" "bs \<noteq> []" "linked E bs"
  shows "branch E d fs bs"
proof -
  have "Block_weight (bs ! i) \<le> MAX_SIZE \<and> recorded E d fs (Suc i) (bs ! i)" if "i < length bs" for i
    using assms(1,2) that unfolding known_holds_def chain_known_def by metis
  then show ?thesis using assms(3,4) by (simp add: branch_def list_all_length)
qed

text \<open>An ancestry is linked, ends in the block it started from, and all its blocks are known.\<close>

lemma linked_append: "linked E bs \<Longrightarrow> (bs \<noteq> [] \<Longrightarrow> parent b = hash_block E (last bs)) \<Longrightarrow> linked E (bs @ [b])"
  by (cases bs rule: rev_cases) (auto simp: linked_def nth_append less_Suc_eq)

lemma ancestry_parts:
  assumes "known_holds E d fs hts kn U"
  shows "linked E (ancestry kn n h) \<and> (ancestry kn n h \<noteq> [] \<longrightarrow> hash_block E (last (ancestry kn n h)) = h) \<and>
    (\<forall>b \<in> set (ancestry kn n h). kn (hash_block E b) = Some b)"
proof (induction n arbitrary: h)
  case (Suc n)
  show ?case
  proof (cases "kn h")
    case (Some b)
    then have "hash_block E b = h" using assms by (simp add: known_holds_def)
    then show ?thesis using Some Suc.IH [of "parent b"] linked_append [of E "ancestry kn n (parent b)" b] by auto
  qed (simp add: linked_def)
qed (simp add: linked_def)

lemma rival_branch:
  assumes "known_holds E d fs (heights L) (known L) U" "rival b L \<noteq> []" "\<forall>i < length (rival b L). heights L (hash_block E (rival b L ! i)) = Suc i"
  shows "branch E d fs (rival b L)" "hash_block E (last (rival b L)) = parent b" "chain_known E (heights L) (known L) (rival b L)"
proof -
  note p = ancestry_parts [OF assms(1), of "length (main_chain L)" "parent b", folded rival_def]
  show known: "chain_known E (heights L) (known L) (rival b L)"
    using p assms(3) by (simp add: chain_known_def)
  show "branch E d fs (rival b L)" using known_branch [OF assms(1) known assms(2)] p by simp
  show "hash_block E (last (rival b L)) = parent b" using p assms(2) by simp
qed

lemma chain_known_store:
  assumes "chain_known E hts kn bs" "hash_block E b \<notin> hash_block E ` set bs"
  shows "chain_known E (hts(hash_block E b := m)) (kn(hash_block E b \<mapsto> b)) bs"
proof -
  have "hash_block E (bs ! i) \<noteq> hash_block E b" if "i < length bs" for i
    using assms(2) that by (metis image_eqI nth_mem)
  then show ?thesis using assms(1) by (simp add: chain_known_def)
qed

lemma chain_known_append:
  assumes "chain_known E hts kn bs" "kn (hash_block E b) = Some b" "hts (hash_block E b) = Suc (length bs)"
  shows "chain_known E hts kn (bs @ [b])"
  using assms by (auto simp: chain_known_def nth_append less_Suc_eq)

lemma chain_known_again:
  assumes "chain_known E hts kn bs" "b \<in> set bs" "hts (hash_block E b) = m"
  shows "chain_known E (hts(hash_block E b := m)) (kn(hash_block E b \<mapsto> b)) bs"
proof -
  obtain i where "i < length bs" "b = bs ! i" using assms(2) by (auto simp: in_set_conv_nth)
  then have "kn (hash_block E b) = Some b" using assms(1) by (simp add: chain_known_def)
  then have "kn(hash_block E b \<mapsto> b) = kn" "hts(hash_block E b := m) = hts" using assms(3) by (auto simp: fun_eq_iff)
  with assms(1) show ?thesis by simp
qed

lemma undo_possible_reversible:
  assumes "known_holds E d fs hts (known L) (undo_kept L)" "chain_known E hts (known L) (main_chain L)"
  shows "list_all (reversible_block E d fs) (tl (main_chain L)) = undo_possible E L"
    "\<forall>x \<in> set (main_chain L). undoable E d fs x \<or> undo_lost E d x"
proof -
  have status: "undoable E d fs x \<longleftrightarrow> hash_block E x \<in> undo_kept L" "undoable E d fs x \<or> undo_lost E d x"
    if "x \<in> set (main_chain L)" for x
  proof -
    have "known L (hash_block E x) = Some x" using assms(2) that by (auto simp: chain_known_def in_set_conv_nth)
    then have "if hash_block E x \<in> undo_kept L then undoable E d fs x else undo_lost E d x"
      using assms(1) unfolding known_holds_def by blast
    then show "undoable E d fs x \<longleftrightarrow> hash_block E x \<in> undo_kept L" "undoable E d fs x \<or> undo_lost E d x"
      using not_both_undo [of E d x fs] by (auto split: if_splits)
  qed
  then show "\<forall>x \<in> set (main_chain L). undoable E d fs x \<or> undo_lost E d x" by blast
  have "x \<in> set (main_chain L)" if "x \<in> set (tl (main_chain L))" for x using that by (cases "main_chain L") auto
  then show "list_all (reversible_block E d fs) (tl (main_chain L)) = undo_possible E L"
    using status(1) by (auto simp: list_all_iff reversible_block_def undo_possible_def)
qed

section \<open>One message\<close>

lemma ledger_append:
  assumes "protobuf_runtime (runtime_of E)" "order_ok E" "ledger_holds E (Suc k) L (ch, fs)"
    and "parent b = hash_block E (last (main_chain L))" "spendable (unspent L) b" "deliverable E (NewBlock b) L"
  shows "agree (ledger_holds E k) (ledger_message E (NewBlock b) L) (handle_block E b (ch, fs))"
proof -
  let ?bs = "main_chain L" and ?d = "block_info_database ch" and ?txs = "get_transactions b" and ?L = "look (block_inputs (transactions b)) L"
  note L = ledger_holds_parts [OF assms(3)]
  have ok: "block_ok E b" "hash_block E b \<notin> hash_block E ` set ?bs" "block_valid E ch b" "storable E (created L) ?txs (unspent L)"
    using assms(4-6) L(3) by (simp_all add: Let_def block_valid_def spendable_def)
  obtain ch' fs' r c where h: "handle_block E b (ch, fs) = res_bind (CoinDatabase_store_block E ?txs c) (\<lambda>c. Inr (ch'\<lparr>chain_coin_database := c\<rparr>, fs'))"
    "validated E b (chain_coin_database ch) c" "chain_reads E k (?bs @ [b]) (ch', fs')"
    "stores E (hash_block E b) r (?d, fs) (block_info_database ch', fs')" "undoable E (block_info_database ch') fs' b"
    using handle_block_on_tip [OF assms(1) L(2,1) ok(1) assms(4) ok(2,3)] by blast
  have here: "recorded E (block_info_database ch') fs' (Suc (length ?bs)) b"
    using spec [OF chain_reads_parts(7) [OF h(3)], of "length ?bs"] by (simp add: nth_append)
  then have r: "height r = of_nat (Suc (length ?bs))" using h(4) by (simp add: recorded_def stores_def)
  have "heights_hold E (block_info_database ch') ((heights L)(hash_block E b := Suc (length ?bs))) (Suc (length ?bs))"
    by (rule heights_hold_store [OF L(5) h(4) r]) simp_all
  moreover have "known_holds E (block_info_database ch') fs' ((heights L)(hash_block E b := Suc (length ?bs)))
      ((known L)(hash_block E b \<mapsto> b)) (insert (hash_block E b) (undo_kept L))"
    by (rule known_holds_store [OF L(6) h(4) _ here]) (use block_ok_fits(2) [OF assms(1) ok(1)] h(5) in auto)
  moreover have "chain_known E ((heights L)(hash_block E b := Suc (length ?bs))) ((known L)(hash_block E b \<mapsto> b)) (?bs @ [b])"
    using chain_known_append [OF chain_known_store [OF L(7) ok(2)]] by simp
  moreover have "hd (?bs @ [b]) = construct_genesis_block" using L(8) chain_reads_parts(1) [OF L(1)] by simp
  ultimately have blocks: "blocks_hold E k (append_block E b m ?L) (ch', fs')" for m
    using h(3) by (simp add: blocks_hold_def append_block_def)
  have "agree (coins_hold E (created L + outputs_of ?txs) (probed ?L)) (replay E (probed ?L) ?txs (unspent L)) (CoinDatabase_store_block E ?txs c)"
    using coins_hold_store [OF assms(1,2) coins_hold_validated [OF assms(3) h(2) refl]] ok(4) by simp
  then have "agree (ledger_holds E k) (res_bind (replay E (probed ?L) ?txs (unspent L)) (\<lambda>m. Inr (append_block E b m ?L))) (handle_block E b (ch, fs))"
    unfolding h(1) by (rule agree_bind) (simp add: ledger_holds_def blocks_hold_coins blocks)
  then show ?thesis using assms(4,5) by (simp add: Let_def)
qed

lemma ledger_refuse:
  assumes "protobuf_runtime (runtime_of E)" "ledger_holds E (Suc k) L (ch, fs)"
    and "parent b = hash_block E (last (main_chain L))" "\<not> spendable (unspent L) b"
  shows "agree (ledger_holds E k) (ledger_message E (NewBlock b) L) (handle_block E b (ch, fs))"
proof -
  note L = ledger_holds_parts [OF assms(2)]
  have "\<not> block_valid E ch b" using assms(4) L(3) by (simp add: block_valid_def spendable_def)
  from handle_block_refused [OF assms(1) L(2,1) assms(3) this] obtain c where
    c: "handle_block E b (ch, fs) = Inr (ch\<lparr>chain_coin_database := c\<rparr>, fs)" "validated E b (chain_coin_database ch) c" by blast
  have "blocks_hold E k L (ch, fs)" using assms(2) by (simp add: ledger_holds_def blocks_hold_fewer)
  then show ?thesis
    using c(1) coins_hold_validated [OF assms(2) c(2) refl] assms(3,4) by (simp add: ledger_holds_def blocks_hold_coins Let_def)
qed

lemma ledger_remember:
  assumes "protobuf_runtime (runtime_of E)" "ledger_holds E (Suc k) L (ch, fs)"
    and "parent b \<noteq> hash_block E (last (main_chain L))" "Suc (heights L (parent b)) \<le> length (main_chain L)"
    and "deliverable E (NewBlock b) L"
  shows "agree (ledger_holds E k) (ledger_message E (NewBlock b) L) (handle_block E b (ch, fs))"
proof -
  let ?bs = "main_chain L" and ?m = "Suc (heights L (parent b))"
  note L = ledger_holds_parts [OF assms(2)]
  note h = chain_reads_parts [OF L(1)]
  have ok: "Block_weight b < 1000" "hash_block E b \<notin> hash_block E ` set ?bs \<or> b \<in> set ?bs \<and> heights L (hash_block E b) = ?m"
    using assms(3-5) by (auto simp: Let_def)
  obtain p where p: "record_of (runtime_of E) (block_info_database ch) (parent b) = Inr p" "height p = of_nat (heights L (parent b))"
    using L(5) by (auto simp: heights_hold_def)
  then have hp: "height p + 1 = of_nat ?m" by simp
  then have "height p + 1 \<le> active_chain_length ch"
    using of_nat_le_32 [of ?m "length ?bs"] h(2,3) assms(4) by (simp del: of_nat_Suc)
  from handle_block_not_higher [OF assms(1) L(2,1) ok(1) p(1) assms(3) this] obtain c w fs1 d r where
    s: "handle_block E b (ch, fs) = Inr (ch\<lparr>chain_coin_database := c, chain_writer := w, block_info_database := d\<rparr>, fs1)"
    "validated E b (chain_coin_database ch) c" "writer_ok k (w, fs1)"
    "stores E (hash_block E b) r (block_info_database ch, fs) (d, fs1)"
    "height r = of_nat ?m" "BlockRecord_block_header r = Block_block_header b"
    "located (block_location r) (Block_serialize (runtime_of E) b) fs1" "undo_location r = FileInfo_new '''' 0 0"
    unfolding hp by blast
  have w: "Block_weight b \<le> MAX_SIZE" using ok(1) by (simp add: MAX_SIZE_def INT_MAX_def)
  have kn: "known_holds E d fs1 ((heights L)(hash_block E b := ?m)) ((known L)(hash_block E b \<mapsto> b)) (undo_kept L - {hash_block E b})"
    by (rule known_holds_store [OF L(6) s(4) w recorded_stored [OF s(4-7)]]) (use undo_lost_stored [OF s(4,8)] in auto)
  have main: "chain_known E ((heights L)(hash_block E b := ?m)) ((known L)(hash_block E b \<mapsto> b)) ?bs"
    using ok(2) chain_known_store [OF L(7)] chain_known_again [OF L(7)] by blast
  have "chain_reads E k ?bs (ch\<lparr>chain_coin_database := c, chain_writer := w, block_info_database := d\<rparr>, fs1)"
    using known_branch [OF kn main h(1,6)] h(2-4) s(3) by (simp add: chain_reads_def)
  moreover have "heights_hold E d ((heights L)(hash_block E b := ?m)) (length ?bs)"
    by (rule heights_hold_store [OF L(5) s(4,5) assms(4)]) simp
  ultimately have "blocks_hold E k (remember_block E b (look (block_inputs (transactions b)) L))
      (ch\<lparr>chain_coin_database := c, chain_writer := w, block_info_database := d\<rparr>, fs1)"
    using L(8) kn main by (simp add: blocks_hold_def remember_block_def)
  then show ?thesis
    using s(1) assms(3,4) coins_hold_validated [OF assms(2) s(2) refl] by (simp add: ledger_holds_def Let_def)
qed

text \<open>A block that comes higher than the chain.\<close>

lemma ledger_higher:
  assumes "ledger_holds E (Suc k) L (ch, fs)" "parent b \<noteq> hash_block E (last (main_chain L))"
    and "\<not> Suc (heights L (parent b)) \<le> length (main_chain L)" "deliverable E (NewBlock b) L"
  defines "ys \<equiv> rival b L"
  shows "Block_weight b < 1000" "hash_block E b \<notin> hash_block E ` (set (main_chain L) \<union> set ys)"
    "length ys = length (main_chain L)" "1 \<le> fork_point E (main_chain L) ys" "heights L (parent b) = length ys"
    "branch E (block_info_database ch) fs ys" "parent b = hash_block E (last ys)" "chain_known E (heights L) (known L) ys"
    "hd ys = hd (main_chain L)"
proof -
  note L = ledger_holds_parts [OF assms(1)]
  have ok: "Block_weight b < 1000" "hash_block E b \<notin> hash_block E ` set (main_chain L)" "hash_block E b \<notin> hash_block E ` set ys"
    "length ys = length (main_chain L)" "1 \<le> fork_point E (main_chain L) ys" "\<forall>i < length ys. heights L (hash_block E (ys ! i)) = Suc i"
    using assms(2-4) by (simp_all add: ys_def Let_def)
  have "ys \<noteq> []" using ok(4) chain_reads_parts(1) [OF L(1)] by auto
  note b = rival_branch [OF L(6), of b, folded ys_def, OF this ok(6)]
  show "Block_weight b < 1000" "hash_block E b \<notin> hash_block E ` (set (main_chain L) \<union> set ys)"
    "length ys = length (main_chain L)" "1 \<le> fork_point E (main_chain L) ys"
    "branch E (block_info_database ch) fs ys" "parent b = hash_block E (last ys)" "chain_known E (heights L) (known L) ys"
    using ok b by auto
  have "heights L (hash_block E (ys ! (length ys - 1))) = length ys" using ok(6) \<open>ys \<noteq> []\<close> by simp
  then show "heights L (parent b) = length ys" using b(2) \<open>ys \<noteq> []\<close> by (simp add: last_conv_nth)
  have ne: "main_chain L \<noteq> []" using chain_reads_parts(1) [OF L(1)] .
  have "hash_block E (main_chain L ! 0) = hash_block E (ys ! 0)"
    using fork_point_parts(3) [OF refl, of 0 E "main_chain L" ys] ok(5) by simp
  moreover have "known L (hash_block E (ys ! 0)) = Some (ys ! 0)" "known L (hash_block E (main_chain L ! 0)) = Some (main_chain L ! 0)"
    using b(3) L(7) ne \<open>ys \<noteq> []\<close> by (simp_all add: chain_known_def)
  ultimately show "hd ys = hd (main_chain L)" using ne \<open>ys \<noteq> []\<close> by (simp add: hd_conv_nth)
qed

lemma ledger_takes_over:
  assumes "protobuf_runtime (runtime_of E)" "order_ok E" "ledger_holds E (Suc k) L (ch, fs)"
    and "parent b \<noteq> hash_block E (last (main_chain L))" "\<not> Suc (heights L (parent b)) \<le> length (main_chain L)"
    and "deliverable E (NewBlock b) L"
  shows "agree (ledger_holds E k) (ledger_message E (NewBlock b) L) (handle_block E b (ch, fs))"
proof -
  let ?bs = "main_chain L" and ?ys = "rival b L" and ?d = "block_info_database ch" and ?txs = "get_transactions (shared_block E b L)"
    and ?L = "look (block_inputs (transactions b)) L"
  let ?m = "Suc (length ?ys)"
  note L = ledger_holds_parts [OF assms(3)]
  note ok = ledger_higher [OF assms(3-6)]
  note status = undo_possible_reversible [OF L(6,7)]
  have "?bs \<noteq> []" by (rule chain_reads_parts(1) [OF L(1)])
  then have "\<forall>x \<in> set (tl ?bs). undoable E ?d fs x \<or> undo_lost E ?d x" using status(2) list.set_sel(2) by metis
  moreover have "hash_block E (last ?ys) \<noteq> hash_block E (last ?bs)" using assms(4) ok(7) by simp
  ultimately obtain c ch1 fs1 r where h: "validated E b (chain_coin_database ch) c" "chain_reads E k (?ys @ [b]) (ch1, fs1)"
    "stores E (hash_block E b) r (?d, fs) (block_info_database ch1, fs1)" "undo_lost E (block_info_database ch1) b"
    "handle_block E b (ch, fs) = (if undo_possible E L
       then res_bind (CoinDatabase_store_block E ?txs c) (\<lambda>c'. Inr (ch1\<lparr>chain_coin_database := c'\<rparr>, fs1)) else Inl UB_index_out_of_range)"
    using handle_block_takes_over [OF assms(1) L(2,1) ok(6,3,4,1,7) _ ok(2)] status(1) unfolding shared_block_def by auto
  have here: "recorded E (block_info_database ch1) fs1 ?m b"
    using spec [OF chain_reads_parts(7) [OF h(2)], of "length ?ys"] by (simp add: nth_append)
  then have r: "height r = of_nat ?m" using h(3) by (simp add: recorded_def stores_def)
  have "heights_hold E (block_info_database ch1) ((heights L)(hash_block E b := ?m)) ?m"
    by (rule heights_hold_store [OF L(5) h(3) r]) (simp_all add: ok(3))
  moreover have "known_holds E (block_info_database ch1) fs1 ((heights L)(hash_block E b := ?m))
      ((known L)(hash_block E b \<mapsto> b)) (undo_kept L - {hash_block E b})"
    by (rule known_holds_store [OF L(6) h(3) _ here]) (use ok(1) h(4) in \<open>auto simp: MAX_SIZE_def INT_MAX_def\<close>)
  moreover have "hash_block E b \<notin> hash_block E ` set ?ys" using ok(2) by auto
  then have "chain_known E ((heights L)(hash_block E b := ?m)) ((known L)(hash_block E b \<mapsto> b)) (?ys @ [b])"
    using chain_known_append [OF chain_known_store [OF ok(8)]] by simp
  moreover have "hd (?ys @ [b]) = construct_genesis_block"
    using ok(3,9) L(8) \<open>?bs \<noteq> []\<close> by (cases ?ys) simp_all
  ultimately have blocks: "blocks_hold E k (switch_chain E b m ?L) (ch1, fs1)" for m
    using h(2) ok(5) by (simp add: blocks_hold_def switch_chain_def remember_block_def)
  show ?thesis
  proof (cases "undo_possible E L")
    case True
    then have "storable E (created L) ?txs (unspent L)" using assms(4-6) by (simp add: Let_def storable_def)
    then have "agree (coins_hold E (created L + outputs_of ?txs) (probed ?L)) (replay E (probed ?L) ?txs (unspent L)) (CoinDatabase_store_block E ?txs c)"
      using coins_hold_store [OF assms(1,2) coins_hold_validated [OF assms(3) h(1) refl]] by simp
    then have "agree (ledger_holds E k) (res_bind (replay E (probed ?L) ?txs (unspent L)) (\<lambda>m. Inr (switch_chain E b m ?L))) (handle_block E b (ch, fs))"
      unfolding h(5) if_P [OF True]
      by (rule agree_bind) (simp add: ledger_holds_def blocks_hold_coins blocks)
    then show ?thesis using assms(4,5) True by (simp add: Let_def)
  next
    case False
    then show ?thesis using assms(4,5) h(5) by (simp add: Let_def)
  qed
qed

lemma ledger_stuck:
  assumes "protobuf_runtime (runtime_of E)" "ledger_holds E (Suc k) L (ch, fs)"
    and "parent b \<noteq> hash_block E (last (main_chain L))" "\<not> Suc (heights L (parent b)) \<le> length (main_chain L)"
    and "deliverable E (NewBlock b) L" "\<not> undo_possible E L"
  shows "handle_block E b (ch, fs) = Inl UB_index_out_of_range"
proof -
  note L = ledger_holds_parts [OF assms(2)]
  note ok = ledger_higher [OF assms(2-5)]
  note status = undo_possible_reversible [OF L(6,7)]
  have "\<forall>x \<in> set (tl (main_chain L)). undoable E (block_info_database ch) fs x \<or> undo_lost E (block_info_database ch) x"
    using status(2) list.set_sel(2) [OF chain_reads_parts(1) [OF L(1)]] by metis
  moreover have "hash_block E (last (rival b L)) \<noteq> hash_block E (last (main_chain L))" using assms(3) ok(7) by simp
  ultimately show ?thesis
    using handle_block_irreversible [OF assms(1) L(2,1) ok(6,3,4,1,7) _ ok(2)] status(1) assms(6) by simp
qed

lemma coins_store_transaction: "coins_hold E n P m (store_transaction E tx c) = coins_hold E n P m c"
  by (simp add: store_transaction_def store_transaction_in_mempool_def Let_def coins_hold_def caches_def looked_up_def coins_def coin_inv_def
      cache_inv_def unflushed_def)

lemma ledger_transaction:
  assumes "ledger_holds E (Suc k) L (ch, fs)"
  shows "agree (ledger_holds E k) (ledger_message E (NewTransaction tx) L) (handle_message E (NewTransaction tx) (ch, fs))"
proof -
  note L = ledger_holds_parts [OF assms]
  let ?tx = "Transaction_new (transaction_inputs tx) (transaction_outputs tx) 0 0" and ?L = "look (transaction_inputs tx) L"
  obtain v c where c: "validate_inputs E (transaction_inputs tx) (chain_coin_database ch) = Inr (v, c)" "only_reads E (chain_coin_database ch) c"
    using validate_inputs_spec [OF L(2)] by blast
  let ?c = "if v then store_transaction E ?tx c else c"
  have "handle_transaction E tx ch = Inr (ch\<lparr>chain_coin_database := ?c\<rparr>)"
    using c(1) by (simp add: handle_transaction_def validate_and_store_transaction_def validate_transaction_def Transaction_new_def)
  moreover have "coins_hold E (created ?L) (probed ?L) (unspent ?L) ?c"
    using coins_hold_validate_inputs [OF L(4) c] by (simp add: coins_store_transaction)
  moreover have "blocks_hold E k L (ch, fs)" using assms by (simp add: ledger_holds_def blocks_hold_fewer)
  ultimately show ?thesis by (simp add: ledger_holds_def blocks_hold_coins)
qed

section \<open>Any sequence of messages\<close>

text \<open>Either both go on, and the coupling is kept, or the program has no defined behaviour and the ledger says so.\<close>

lemma ledger_step:
  assumes "protobuf_runtime (runtime_of E)" "order_ok E" "ledger_holds E (Suc k) L st" "deliverable E msg L"
  shows "agree (ledger_holds E k) (ledger_message E msg L) (handle_message E msg st)"
proof -
  obtain ch fs where st: "st = (ch, fs)" by (cases st)
  note holds = assms(3) [unfolded st]
  show ?thesis
  proof (cases msg)
    case (NewBlock b)
    note ok = assms(4) [unfolded NewBlock]
    show ?thesis
      unfolding NewBlock st handle_message.simps
      using ledger_append [OF assms(1,2) holds _ _ ok] ledger_refuse [OF assms(1) holds] ledger_remember [OF assms(1) holds _ _ ok]
        ledger_takes_over [OF assms(1,2) holds _ _ ok] by blast
  next
    case (NewTransaction tx)
    then show ?thesis using ledger_transaction [OF holds] by (simp only: st)
  qed
qed

text \<open>
  A transaction that is sent again after its block was stored is not kept, but its inputs are looked up. From then on the block
  it is in cannot be applied again.
\<close>

lemma ledger_rebroadcast:
  assumes "protobuf_runtime (runtime_of E)" "order_ok E" "ledger_holds E (Suc (Suc k)) L (ch, fs)" "deliverable E (NewBlock b) L"
    and "parent b \<noteq> hash_block E (last (main_chain L))" "length (main_chain L) < Suc (heights L (parent b))" "undo_possible E L"
    and "transactions (shared_block E b L) = tx # txs" "transaction_inputs tx = i # is" "coin_key i \<notin> dom (unspent L)"
  shows "\<exists>ch'. handle_transaction E tx ch = Inr ch' \<and> handle_block E b (ch', fs) = Inl UB_erase_at_end"
proof -
  let ?L = "look (transaction_inputs tx) L"
  have "agree (ledger_holds E (Suc k)) (Inr ?L) (handle_message E (NewTransaction tx) (ch, fs))"
    using ledger_transaction [OF assms(3)] by simp
  then obtain ch' where t: "handle_transaction E tx ch = Inr ch'" "ledger_holds E (Suc k) ?L (ch', fs)"
    by (cases "handle_transaction E tx ch") auto
  let ?tx = "Transaction_new (transaction_inputs tx) (transaction_outputs tx) 0 0"
  obtain txs' where get: "get_transactions (shared_block E b L) = ?tx # txs'" by (simp add: get_transactions_eq assms(8))
  have "i \<in> set (transaction_inputs ?tx)" by (simp add: Transaction_new_def assms(9))
  then have "replay E P (get_transactions (shared_block E b L)) (unspent L) = Inl UB_erase_at_end" if "reference_transaction_hash i \<in> P" for P
    unfolding get using assms(10) that by (rule replay_fails)
  moreover have "reference_transaction_hash i \<in> probed ?L" using assms(9,10) by simp
  ultimately have "ledger_message E (NewBlock b) ?L = Inl UB_erase_at_end"
    using assms(5-7) by (simp add: Let_def)
  moreover have "deliverable E (NewBlock b) ?L" using assms(4) by (simp del: deliverable.simps)
  ultimately show ?thesis using t ledger_step [OF assms(1,2) t(2)] by (metis agree_Inl handle_message.simps(1))
qed

definition node_holds :: "'u env \<Rightarrow> nat \<Rightarrow> ledger \<Rightarrow> Chain \<times> file_system \<Rightarrow> bool" where
  "node_holds E k L st \<longleftrightarrow> protobuf_runtime (runtime_of E) \<and> order_ok E \<and> ledger_holds E k L st"

interpretation node: simulation "handle_message E" "ledger_message E" "deliverable E" "node_holds E"
  for E :: "'u env"
proof (unfold_locales, goal_cases)
  case (1 k L st msg)
  have holds: "protobuf_runtime (runtime_of E)" "order_ok E" "ledger_holds E (Suc k) L st" using 1(1) by (simp_all add: node_holds_def)
  from ledger_step [OF holds 1(2)] show ?case by (rule agree_mono) (simp add: node_holds_def holds)
qed

lemma genesis_ledger_parts:
  "main_chain (genesis_ledger E) = [construct_genesis_block]"
  "unspent (genesis_ledger E) = utxo_steps E (get_transactions construct_genesis_block) Map.empty"
  "heights (genesis_ledger E) = (\<lambda>_. 0)(hash_block E construct_genesis_block := 1)"
  "known (genesis_ledger E) = [hash_block E construct_genesis_block \<mapsto> construct_genesis_block]"
  "undo_kept (genesis_ledger E) = {hash_block E construct_genesis_block}" "created (genesis_ledger E) = 3" "probed (genesis_ledger E) = {}"
  by (simp_all add: genesis_ledger_def append_block_def genesis_simps) (simp add: Transaction_new_def)

lemma genesis_ledger_holds:
  assumes "protobuf_runtime (runtime_of E)" "order_ok E" "Chain_new E fs = Inr (ch, fs')"
    and "chain_holds E k [construct_genesis_block] (ch, fs')"
    and "coins E (chain_coin_database ch) = utxo_steps E (get_transactions construct_genesis_block) Map.empty"
  shows "ledger_holds E k (genesis_ledger E) (ch, fs')"
proof -
  let ?g = construct_genesis_block and ?d = "block_info_database ch"
  note h = chain_holds_parts [OF assms(4)]
  have new: "recorded E ?d fs' 1 ?g" "Block_weight ?g \<le> MAX_SIZE" "undoable E ?d fs' ?g"
    using chain_reads_parts [OF h(1)] h(3) by simp_all
  obtain r where r: "?d = store_block_record (runtime_of E) (hash_block E ?g) r BlockInfoDatabase_new"
    "CoinDatabase_store_block E (get_transactions ?g) CoinDatabase_new = Inr (chain_coin_database ch)"
    using assms(3) by (auto simp: Chain_new_def Let_def)
  have "txs_applicable E (get_transactions ?g) (coins E CoinDatabase_new)"
    by (simp add: genesis_simps tx_applicable_def Transaction_new_def coin_inv_new)
  then have app: "txs_applicable E (get_transactions ?g) Map.empty" by (simp only: coin_inv_new(2))
  moreover have "outputs_of (get_transactions ?g) = 3" by (simp add: genesis_simps Transaction_new_def)
  ultimately have coins: "coins_hold E 3 {} (utxo_steps E (get_transactions ?g) Map.empty) (chain_coin_database ch)"
    using coins_hold_store [OF assms(1,2) coins_hold_new, of "get_transactions ?g"] r(2) by (simp add: storable_def replay_applicable [OF app])
  obtain r' where r': "record_of (runtime_of E) ?d (hash_block E ?g) = Inr r'" "height r' = of_nat 1"
    using new(1) by (auto simp: recorded_def split: sum.splits)
  then have "stores E (hash_block E ?g) r' (BlockInfoDatabase_new, fs') (?d, fs')"
    by (auto simp: stores_def fun_eq_iff r(1) record_of_store)
  from heights_hold_store [OF _ this r'(2), of "\<lambda>_. 0" 0 1]
  have "heights_hold E ?d ((\<lambda>_. 0)(hash_block E ?g := 1)) 1"
    by (simp add: heights_hold_def record_of_new default_record_def BlockRecord_new_def)
  with coins show ?thesis
    using h(1) new by (simp add: ledger_holds_def blocks_hold_def genesis_ledger_parts known_holds_def chain_known_def)
qed

lemma node_run:
  assumes "protobuf_runtime (runtime_of E)" "order_ok E" "fresh_fs fs" "length msgs + k < 65535" "deliverables E msgs (genesis_ledger E)"
  shows "\<exists>ch fs0. Chain_new E fs = Inr (ch, fs0) \<and>
    (case ledger_messages E msgs (genesis_ledger E) of
       Inl e \<Rightarrow> res_fold (handle_message E) msgs (ch, fs0) = Inl e
     | Inr L \<Rightarrow> \<exists>st. res_fold (handle_message E) msgs (ch, fs0) = Inr st \<and> ledger_holds E k L st)"
proof -
  obtain ch fs0 where "Chain_new E fs = Inr (ch, fs0)" "chain_holds E (length msgs + k) [construct_genesis_block] (ch, fs0)"
    "coins E (chain_coin_database ch) = utxo_steps E (get_transactions construct_genesis_block) Map.empty"
    using Chain_new_spec [OF assms(1-4)] by blast
  moreover from this have "node_holds E (length msgs + k) (genesis_ledger E) (ch, fs0)"
    using genesis_ledger_holds [OF assms(1,2)] assms(1,2) by (simp add: node_holds_def)
  ultimately show ?thesis using node.sim_run [OF _ assms(5)] by (auto simp: node_holds_def agree_Inr split: sum.splits)
qed

text \<open>The chain never gets shorter, and its first block stays.\<close>

lemma ledger_message_length:
  assumes "deliverable E msg L" "ledger_message E msg L = Inr L'"
  shows "length (main_chain L) \<le> length (main_chain L')"
proof (cases msg)
  case (NewBlock b)
  then show ?thesis
    using assms by (auto simp: append_block_def remember_block_def switch_chain_def Let_def split: if_splits)
qed (use assms in auto)

section \<open>Queries\<close>

text \<open>Reading may fetch records, which changes nothing the ledger speaks of.\<close>

lemma ledger_holds_same:
  assumes "same_records E ch ch'" "ledger_holds E k L (ch, fs)"
  shows "ledger_holds E k L (ch', fs)"
proof -
  note L = ledger_holds_parts [OF assms(2)]
  obtain d where d: "ch' = ch\<lparr>block_info_database := d\<rparr>" "record_of (runtime_of E) d = record_of (runtime_of E) (block_info_database ch)"
    using assms(1) by (auto simp: same_records_def)
  have "heights_hold E d (heights L) (length (main_chain L))" using L(5) by (simp add: heights_hold_def d(2))
  moreover have "known_holds E d fs (heights L) (known L) (undo_kept L)"
    using L(6) by (simp add: known_holds_def recorded_same [OF d(2)] undoable_same [OF d(2)] undo_lost_same [OF d(2)])
  ultimately show ?thesis using L chain_reads_same [OF assms(1)] by (simp add: ledger_holds_def blocks_hold_def d(1))
qed

lemma ledger_get_block:
  assumes "protobuf_runtime (runtime_of E)" "ledger_holds E k L (ch, fs)" "known L h = Some b"
  shows "\<exists>ch'. get_block E h fs ch = Inr (Some b, ch') \<and> ledger_holds E k L (ch', fs)"
proof -
  have "hash_block E b = h" "recorded E (block_info_database ch) fs (heights L h) b" "Block_weight b \<le> MAX_SIZE"
    using ledger_holds_parts(6) [OF assms(2)] assms(3) unfolding known_holds_def by blast+
  then obtain d where "load_block E h fs (block_info_database ch) = Inr (Some b, d)"
    "record_of (runtime_of E) d = record_of (runtime_of E) (block_info_database ch)"
    using recorded_load [OF assms(1)] by metis
  then have "get_block E h fs ch = Inr (Some b, ch\<lparr>block_info_database := d\<rparr>)" "same_records E ch (ch\<lparr>block_info_database := d\<rparr>)"
    by (auto simp: get_block_def same_records_def)
  then show ?thesis using ledger_holds_same assms(2) by blast
qed

text \<open>A stored block stays known under its hash until another block of that hash comes.\<close>

lemma ledger_message_known:
  assumes "ledger_message E msg L = Inr L'" "known L h = Some b" "\<forall>b'. msg = NewBlock b' \<and> hash_block E b' = h \<longrightarrow> b' = b"
  shows "known L' h = Some b"
proof (cases msg)
  case (NewBlock b')
  then show ?thesis
    using assms by (auto simp: append_block_def remember_block_def switch_chain_def Let_def split: if_splits)
qed (use assms in auto)

lemma ledger_messages_known:
  assumes "ledger_messages E msgs L = Inr L'" "known L h = Some b" "\<forall>b'. NewBlock b' \<in> set msgs \<and> hash_block E b' = h \<longrightarrow> b' = b"
  shows "known L' h = Some b"
  by (rule res_fold_invariant [where P = "\<lambda>L. known L h = Some b", OF _ assms(2,1)]) (use assms(3) ledger_message_known in blast)

lemma ledger_message_stored:
  assumes "ledger_message E (NewBlock b) L = Inr L'" "parent b = hash_block E (last (main_chain L)) \<longrightarrow> spendable (unspent L) b"
  shows "known L' (hash_block E b) = Some b"
  using assms by (auto simp: append_block_def remember_block_def switch_chain_def Let_def split: if_splits)

lemma ledger_stored_block:
  assumes "protobuf_runtime (runtime_of E)" "order_ok E" "ledger_holds E (length (NewBlock b # later) + k) L (ch, fs)"
    and "deliverables E (NewBlock b # later) L" "res_fold (handle_message E) (NewBlock b # later) (ch, fs) = Inr (ch', fs')"
    and "parent b = hash_block E (last (main_chain L)) \<longrightarrow> spendable (unspent L) b"
    and "\<forall>b'. NewBlock b' \<in> set later \<and> hash_block E b' = hash_block E b \<longrightarrow> b' = b"
  shows "\<exists>L' ch''. ledger_messages E (NewBlock b # later) L = Inr L' \<and>
    get_block E (hash_block E b) fs' ch' = Inr (Some b, ch'') \<and> ledger_holds E k L' (ch'', fs')"
proof -
  have "node_holds E (length (NewBlock b # later) + k) L (ch, fs)" using assms(1-3) by (simp add: node_holds_def)
  from node.sim_run_returns [OF this assms(4,5)] obtain L' where L': "ledger_messages E (NewBlock b # later) L = Inr L'" "ledger_holds E k L' (ch', fs')"
    by (auto simp: node_holds_def)
  then obtain L1 where L1: "ledger_message E (NewBlock b) L = Inr L1" "ledger_messages E later L1 = Inr L'"
    by (auto simp: res_bind_Inr_iff)
  from ledger_messages_known [OF L1(2) ledger_message_stored [OF L1(1) assms(6)] assms(7)]
  have "known L' (hash_block E b) = Some b" .
  from ledger_get_block [OF assms(1) L'(2) this] L'(1) show ?thesis by blast
qed

lemma ledger_get_chain_length:
  assumes "ledger_holds E k L (ch, fs)"
  shows "\<exists>ch'. get_chain_length E h ch = Inr (of_nat (heights L h), ch') \<and> ledger_holds E k L (ch', fs)"
proof -
  obtain r where r: "record_of (runtime_of E) (block_info_database ch) h = Inr r" "height r = of_nat (heights L h)"
    using ledger_holds_parts(5) [OF assms] unfolding heights_hold_def by blast
  then obtain d where d: "get_block_record (runtime_of E) h (block_info_database ch) = Inr (r, d)"
    by (simp add: get_block_record_eq)
  then have "get_chain_length E h ch = Inr (of_nat (heights L h), ch\<lparr>block_info_database := d\<rparr>)"
    "same_records E ch (ch\<lparr>block_info_database := d\<rparr>)"
    using get_block_record_same [OF d] r(2) by (auto simp: get_chain_length_def same_records_def)
  then show ?thesis using ledger_holds_same assms by blast
qed

lemma ledger_active_chain:
  assumes "protobuf_runtime (runtime_of E)" "ledger_holds E k L (ch, fs)" "unat start < 2 ^ 31"
  shows "\<exists>ch'. get_active_chain E start stop fs ch = Inr (map Some (chain_slice start stop (main_chain L)), ch') \<and> ledger_holds E k L (ch', fs)"
    "\<exists>ch'. get_active_chain_hashes E start stop ch = Inr (map (hash_block E) (chain_slice start stop (main_chain L)), ch') \<and>
       ledger_holds E k L (ch', fs)"
  using active_chain_spec [OF assms(1) ledger_holds_parts(1) [OF assms(2)] assms(3)]
    active_chain_hashes_spec [OF assms(1) ledger_holds_parts(1) [OF assms(2)] assms(3)] ledger_holds_same assms(2) by blast+

lemma ledger_first_block:
  assumes "protobuf_runtime (runtime_of E)" "ledger_holds E k L (ch, fs)"
  shows "\<exists>ch'. get_active_chain E 1 1 fs ch = Inr ([Some construct_genesis_block], ch')"
proof -
  note L = ledger_holds_parts [OF assms(2)]
  have "chain_slice (1 :: uint32) 1 (main_chain L) = [construct_genesis_block]"
    using L(8) chain_reads_parts(1) [OF L(1)] by (cases "main_chain L") (simp_all add: chain_slice_def)
  then show ?thesis using ledger_active_chain(1) [OF assms, of 1 1] by auto
qed

lemma ledger_run_grows:
  assumes "protobuf_runtime (runtime_of E)" "order_ok E" "ledger_holds E (length msgs + k) L (ch, fs)" "deliverables E msgs L"
    and "res_fold (handle_message E) msgs (ch, fs) = Inr (ch', fs')"
  shows "get_active_chain_length ch \<le> get_active_chain_length ch'"
    "\<exists>ch''. get_active_chain E 1 1 fs' ch' = Inr ([Some construct_genesis_block], ch'')"
proof -
  have "node_holds E (length msgs + k) L (ch, fs)" using assms(1-3) by (simp add: node_holds_def)
  from node.sim_run_returns [OF this assms(4,5)] obtain L' where L': "ledger_messages E msgs L = Inr L'" "ledger_holds E k L' (ch', fs')"
    by (auto simp: node_holds_def)
  show "\<exists>ch''. get_active_chain E 1 1 fs' ch' = Inr ([Some construct_genesis_block], ch'')"
    by (rule ledger_first_block [OF assms(1) L'(2)])
  have "length (main_chain L) \<le> length (main_chain L')"
    by (rule covered_run_le [where f = "\<lambda>L. length (main_chain L)", OF _ assms(4) L'(1)]) (rule ledger_message_length)
  then show "get_active_chain_length ch \<le> get_active_chain_length ch'"
    using chain_reads_parts(2,3) [OF ledger_holds_parts(1) [OF assms(3)]] chain_reads_parts(2,3) [OF ledger_holds_parts(1) [OF L'(2)]]
    by (simp add: get_active_chain_length_def of_nat_le_32)
qed

end
