(* ===== verification/Concrete.thy ===== *)
theory Concrete
  imports Hash_Eval Ledger Wire_Format
begin

text \<open>
  A concrete environment, the wire format of \<open>Wire_Format\<close> with cleared memory and the
  insertion order, and a concrete run of the chain: the genesis block, a transaction that spends its
  first output, and the block that carries it. Serialised bytes and hashes are evaluated, so that the theorems about
  the chain are applied to blocks whose hashes are known.
\<close>

section \<open>Evaluating what is serialised\<close>

lemma wire_runtime: "protobuf_runtime wire_format"
  by (rule wf.protobuf_runtime_axioms)

lemma wire_format_sel:
  "WriteUInt32ToArray wire_format = (\<lambda>f v. write_tag f 0 @ varint (unat v))"
  "InternalWriteMessage wire_format = write_delimited"
  "no_unknown_fields wire_format = []"
  "have_unknown_fields wire_format = (\<lambda>u. u \<noteq> [])"
  by (simp_all add: wire_format_def)

lemma of_char_int: "(of_char (char_of n) :: int) = int (n mod 256)" for n :: nat
proof -
  have "(of_char (char_of n) :: int) = int (of_char (char_of n))" by (simp only: of_nat_of_char)
  then show ?thesis by simp
qed

lemmas wire_eval =
  of_char_int
  protobuf_runtime.PBlock_wire_eq [OF wire_runtime] protobuf_runtime.PTransaction_wire_eq [OF wire_runtime]
  protobuf_runtime.PTransactionOutput_wire_eq [OF wire_runtime] protobuf_runtime.PTransactionInput_wire_eq [OF wire_runtime]
  protobuf_runtime.PBlockHeader_wire_eq [OF wire_runtime]
  proto_block_def fill_transaction_eq proto_output_def proto_input_def fill_header_def
  PTransaction_new_def PTransactionOutput_new_def PTransactionInput_new_def PBlockHeader_new_def PBlock_new_def
  Transaction_new_def TransactionOutput_new_def TransactionInput_new_def BlockHeader_new_def Block_new_def
  codec_simps unknown_bytes_def wire_format_sel varint.simps write_tag_def write_delimited_def

definition cleared :: garbage where
  "cleared = \<lparr>g_data = (\<lambda>_. 0), g_digest = (\<lambda>_. 0), g_hashd = 0\<rparr>"

definition wire_env :: "string env" where
  "wire_env = \<lparr>runtime_of = wire_format, garbage_of = cleared, order_of = (\<lambda>xs. xs)\<rparr>"

lemma wire_env_sel [simp]: "runtime_of wire_env = wire_format" "garbage_of wire_env = cleared" "order_of wire_env = (\<lambda>xs. xs)"
  by (simp_all add: wire_env_def)

lemma wire_env_runtime: "protobuf_runtime (runtime_of wire_env)"
  by (simp add: wire_runtime)

lemma wire_env_order: "order_ok wire_env"
  by (simp add: order_ok_def)

definition genesis_transaction :: Transaction where
  "genesis_transaction = Transaction_new [] [TransactionOutput_new 100 12345, TransactionOutput_new 200 67891, TransactionOutput_new 300 23456] 0 0"

text \<open>Its hash is 4164: the spending transaction names it.\<close>

definition spending_transaction :: Transaction where
  "spending_transaction = Transaction_new [TransactionInput_new 4164 0 77] [TransactionOutput_new 40 555] 0 0"

text \<open>The hash of the genesis block is 4539.\<close>

definition second_block :: Block where
  "second_block = Block_new (BlockHeader_new 1 4539 0 0 0 0) [spending_transaction]"

lemma genesis_block_eq: "construct_genesis_block = Block_new (BlockHeader_new 1 0 0 0 0 0) [genesis_transaction]"
  by (simp add: construct_genesis_block_def genesis_transaction_def Let_def)

lemma genesis_weight: "Block_weight construct_genesis_block \<le> MAX_SIZE"
  by (simp add: genesis_block_eq genesis_transaction_def Block_new_def Block_weight_def Transaction_weight_def Transaction_new_def
      MAX_SIZE_def INT_MAX_def)

lemma second_weight: "Block_weight second_block = 102"
  by (simp add: second_block_def spending_transaction_def Block_new_def Block_weight_def Transaction_weight_def Transaction_new_def)

lemma genesis_bytes: "map of_char (Block_serialize wire_format construct_genesis_block) =
    [10, 2, 8, 1, 18, 25, 26, 5, 8, 100, 16, 185, 96, 26, 7, 8, 200, 1, 16, 179, 146, 4, 26, 7, 8, 172, 2, 16, 160, 183, 1 :: int]"
  unfolding protobuf_runtime.Block_serialize_wire(1) [OF wire_runtime genesis_weight]
  by (simp add: genesis_block_eq genesis_transaction_def wire_eval)

lemma second_bytes: "map of_char (Block_serialize wire_format second_block) =
    [10, 5, 8, 1, 16, 187, 35, 18, 14, 18, 5, 8, 196, 32, 24, 77, 26, 5, 8, 40, 16, 171, 4 :: int]"
  by (subst protobuf_runtime.Block_serialize_wire(1) [OF wire_runtime])
    (simp_all add: second_weight MAX_SIZE_def INT_MAX_def, simp add: second_block_def spending_transaction_def wire_eval)

text \<open>The hashes.\<close>

lemma genesis_ihash:
  "ihash [10, 2, 8, 1, 18, 25, 26, 5, 8, 100, 16, 185, 96, 26, 7, 8, 200, 1, 16, 179, 146, 4, 26, 7, 8, 172, 2, 16, 160, 183, 1] = 4539"
  by (simp add: ihash_runs hash_eval iK8_eval iH0_eval ibytes_sum_def)

lemma second_ihash:
  "ihash [10, 5, 8, 1, 16, 187, 35, 18, 14, 18, 5, 8, 196, 32, 24, 77, 26, 5, 8, 40, 16, 171, 4] = 3969"
  by (simp add: ihash_runs hash_eval iK8_eval iH0_eval ibytes_sum_def)

lemma genesis_transaction_ihash:
  "ihash [26, 5, 8, 100, 16, 185, 96, 26, 7, 8, 200, 1, 16, 179, 146, 4, 26, 7, 8, 172, 2, 16, 160, 183, 1] = 4164"
  by (simp add: ihash_runs hash_eval iK8_eval iH0_eval ibytes_sum_def)

lemma spending_transaction_ihash: "ihash [18, 5, 8, 196, 32, 24, 77, 26, 5, 8, 40, 16, 171, 4] = 4027"
  by (simp add: ihash_runs hash_eval iK8_eval iH0_eval ibytes_sum_def)

lemma hash_string:
  assumes "map of_char message = bs" "ihash bs = n" "length bs < 56"
  shows "CryptCrypto_hash cleared message = of_int n"
  using assms hash_ihash [OF assms(1,3), of cleared] by (simp add: cleared_def)

lemma genesis_hash: "hash_block wire_env construct_genesis_block = 4539"
  by (simp add: hash_block_def hash_string [OF genesis_bytes genesis_ihash])

lemma second_hash: "hash_block wire_env second_block = 3969"
  by (simp add: hash_block_def hash_string [OF second_bytes second_ihash])

lemma Transaction_serialize_wire:
  assumes "Transaction_weight tx \<le> INT_MAX"
  shows "Transaction_serialize wire_format tx = PTransaction_wire wire_format (fill_transaction wire_format tx (PTransaction_new wire_format))"
  using protobuf_runtime.fill_transaction_wire(2) [OF wire_runtime assms] assms
  by (simp add: Transaction_serialize_def PTransaction_SerializeToString_def SerializeToString_def case_prod_unfold Let_def
      protobuf_runtime.PTransaction_size_length [OF wire_runtime] flip: PTransaction_wire_def)

lemma genesis_transaction_hash: "hash_transaction wire_env genesis_transaction = 4164"
proof -
  have "Transaction_weight genesis_transaction \<le> INT_MAX"
    by (simp add: genesis_transaction_def Transaction_weight_def Transaction_new_def INT_MAX_def)
  note ser = Transaction_serialize_wire [OF this]
  have "map of_char (Transaction_serialize wire_format genesis_transaction) =
      [26, 5, 8, 100, 16, 185, 96, 26, 7, 8, 200, 1, 16, 179, 146, 4, 26, 7, 8, 172, 2, 16, 160, 183, 1 :: int]"
    unfolding ser by (simp add: genesis_transaction_def wire_eval)
  from hash_string [OF this genesis_transaction_ihash] show ?thesis by (simp add: hash_transaction_def)
qed

lemma spending_transaction_hash: "hash_transaction wire_env spending_transaction = 4027"
proof -
  have "Transaction_weight spending_transaction \<le> INT_MAX"
    by (simp add: spending_transaction_def Transaction_weight_def Transaction_new_def INT_MAX_def)
  note ser = Transaction_serialize_wire [OF this]
  have "map of_char (Transaction_serialize wire_format spending_transaction) =
      [18, 5, 8, 196, 32, 24, 77, 26, 5, 8, 40, 16, 171, 4 :: int]"
    unfolding ser by (simp add: spending_transaction_def wire_eval)
  from hash_string [OF this spending_transaction_ihash] show ?thesis by (simp add: hash_transaction_def)
qed

text \<open>The same transaction with another version has another hash.\<close>

lemma sent_transaction_ihash: "ihash [8, 9, 18, 5, 8, 196, 32, 24, 77, 26, 5, 8, 40, 16, 171, 4] = 3823"
  by (simp add: ihash_runs hash_eval iK8_eval iH0_eval ibytes_sum_def)

lemma sent_transaction_hash: "hash_transaction wire_env (spending_transaction\<lparr>Transaction_version := 9\<rparr>) = 3823"
proof -
  have "Transaction_weight (spending_transaction\<lparr>Transaction_version := 9\<rparr>) \<le> INT_MAX"
    by (simp add: spending_transaction_def Transaction_weight_def Transaction_new_def INT_MAX_def)
  note ser = Transaction_serialize_wire [OF this]
  have "map of_char (Transaction_serialize wire_format (spending_transaction\<lparr>Transaction_version := 9\<rparr>)) =
      [8, 9, 18, 5, 8, 196, 32, 24, 77, 26, 5, 8, 40, 16, 171, 4 :: int]"
    unfolding ser by (simp add: spending_transaction_def wire_eval)
  from hash_string [OF this sent_transaction_ihash] show ?thesis by (simp add: hash_transaction_def)
qed

section \<open>A run of the chain\<close>

definition empty_fs :: file_system where
  "empty_fs = \<lparr>dirs = [], files = Map.empty, denied = []\<rparr>"

lemma empty_fs_fresh: "fresh_fs empty_fs"
  by (simp add: fresh_fs_def empty_fs_def)

lemma genesis_get: "get_transactions construct_genesis_block = [genesis_transaction]" "transactions construct_genesis_block = [genesis_transaction]"
  by (simp_all add: genesis_block_eq get_transactions_eq Block_new_def genesis_transaction_def Transaction_new_def)

lemma second_get: "get_transactions second_block = [spending_transaction]" "transactions second_block = [spending_transaction]"
  by (simp_all add: second_block_def get_transactions_eq Block_new_def spending_transaction_def Transaction_new_def)

definition genesis_coins :: "uint32 \<times> uint8 \<rightharpoonup> TransactionOutput" where
  "genesis_coins = utxo_steps wire_env (get_transactions construct_genesis_block) Map.empty"

lemma genesis_coins_eq: "genesis_coins = (\<lambda>(h, i). if h = 4164 \<and> unat i < 3
    then Some (transaction_outputs genesis_transaction ! unat i) else None)"
  by (simp add: genesis_coins_def genesis_get genesis_transaction_hash utxo_step_def fun_eq_iff)
    (simp add: genesis_transaction_def Transaction_new_def)

lemma spending_applicable: "tx_applicable (hash_transaction wire_env spending_transaction) spending_transaction genesis_coins"
  by (simp add: spending_transaction_hash tx_applicable_def genesis_coins_eq dom_def)
    (simp add: spending_transaction_def Transaction_new_def TransactionInput_new_def coin_key_def)

lemma second_ok: "block_ok wire_env second_block"
proof -
  let ?rec = "UndoBlock_weight (undo_block_trim (make_undo_block wire_format cleared second_block))"
  have "?rec < 1000"
    by (simp add: make_undo_block_def second_get make_undo_step_def Let_def undo_block_trim_def undo_trim_def UndoBlock_new_def UndoCoinRecord_new_def
      UndoBlock_weight_def UndoCoinRecord_weight_def spending_transaction_def Transaction_new_def TransactionInput_new_def TransactionOutput_new_def)
  then show ?thesis
    by (simp add: block_ok_def second_weight) (simp add: second_get inputs_upto_def outputs_upto_def spending_transaction_def Transaction_new_def)
qed

lemma second_extends: "extends_chain wire_env [construct_genesis_block] [second_block] genesis_coins"
proof -
  have "previous_block_hash (Block_block_header second_block) = 4539"
    by (simp add: second_block_def Block_new_def BlockHeader_new_def)
  moreover have "list_all (\<lambda>i. coin_key i \<in> dom genesis_coins) (transaction_inputs spending_transaction)"
    using spending_applicable by (simp add: tx_applicable_def)
  ultimately show ?thesis
    using second_ok spending_applicable by (simp add: extends_with_def extended_by_def second_get genesis_hash second_hash)
qed

lemma genesis_state:
  obtains ch fs where "Chain_new wire_env empty_fs = Inr (ch, fs)" "chain_holds wire_env 9 [construct_genesis_block] (ch, fs)"
    "coins wire_env (chain_coin_database ch) = genesis_coins"
  using Chain_new_spec [OF wire_env_runtime wire_env_order empty_fs_fresh, of 9] that by (auto simp: genesis_coins_def)

lemma second_state:
  obtains ch fs ch' fs' where "Chain_new wire_env empty_fs = Inr (ch, fs)" "handle_block wire_env second_block (ch, fs) = Inr (ch', fs')"
    "chain_holds wire_env 8 [construct_genesis_block, second_block] (ch', fs')"
    "coins wire_env (chain_coin_database ch') = utxo_steps wire_env [spending_transaction] genesis_coins"
proof -
  obtain ch fs where g: "Chain_new wire_env empty_fs = Inr (ch, fs)" "chain_holds wire_env 9 [construct_genesis_block] (ch, fs)"
    "coins wire_env (chain_coin_database ch) = genesis_coins" by (rule genesis_state)
  have "chain_holds wire_env (length [second_block] + 8) [construct_genesis_block] (ch, fs)" using g(2) by simp
  then obtain ch' fs' where "handle_block wire_env second_block (ch, fs) = Inr (ch', fs')"
    "chain_holds wire_env 8 [construct_genesis_block, second_block] (ch', fs')"
    "coins wire_env (chain_coin_database ch') = utxo_steps wire_env [spending_transaction] genesis_coins"
    using handle_blocks_extend [OF wire_env_runtime wire_env_order, of "[second_block]" 8 "[construct_genesis_block]" ch fs]
      second_extends g(3) by (auto simp: utxo_of_blocks_def second_get)
  with g(1) that show ?thesis by blast
qed

section \<open>A fork\<close>

text \<open>
  Two blocks without transactions on top of the genesis block: when the second one arrives their chain is the longer one. A
  block on top of them then spends the output of the genesis block that \<open>second_block\<close> had spent before. The old chain
  grows, too: when it gets longer again, the blocks of the fork cannot be undone.
\<close>

definition fork_block :: Block where
  "fork_block = Block_new (BlockHeader_new 1 4539 0 0 0 7) []"

definition fork_tip :: Block where
  "fork_tip = Block_new (BlockHeader_new 1 4013 0 0 0 0) []"

definition rival_transaction :: Transaction where
  "rival_transaction = Transaction_new [TransactionInput_new 4164 0 99] [TransactionOutput_new 100 777] 0 0"

definition rival_block :: Block where
  "rival_block = Block_new (BlockHeader_new 1 4311 0 0 0 0) [rival_transaction]"

definition third_block :: Block where
  "third_block = Block_new (BlockHeader_new 1 3969 0 0 0 0) []"

definition fourth_block :: Block where
  "fourth_block = Block_new (BlockHeader_new 1 4459 0 0 0 0) []"

lemma fork_weight: "Block_weight fork_block = 42" "Block_weight fork_tip = 42" "Block_weight third_block = 42" "Block_weight fourth_block = 42"
  "Block_weight rival_block = 102"
  by (simp_all add: fork_block_def fork_tip_def third_block_def fourth_block_def rival_block_def rival_transaction_def
      Block_new_def Block_weight_def Transaction_weight_def Transaction_new_def)

lemma fork_previous: "previous_block_hash (Block_block_header fork_block) = 4539" "previous_block_hash (Block_block_header fork_tip) = 4013"
  "previous_block_hash (Block_block_header rival_block) = 4311" "previous_block_hash (Block_block_header third_block) = 3969"
  "previous_block_hash (Block_block_header fourth_block) = 4459" "previous_block_hash (Block_block_header construct_genesis_block) = 0"
  "previous_block_hash (Block_block_header second_block) = 4539"
  by (simp_all add: fork_block_def fork_tip_def third_block_def fourth_block_def rival_block_def genesis_block_eq second_block_def
      Block_new_def BlockHeader_new_def)

lemma fork_bytes:
  "map of_char (Block_serialize wire_format fork_block) = [10, 7, 8, 1, 16, 187, 35, 48, 7 :: int]"
  "map of_char (Block_serialize wire_format fork_tip) = [10, 5, 8, 1, 16, 173, 31 :: int]"
  "map of_char (Block_serialize wire_format third_block) = [10, 5, 8, 1, 16, 129, 31 :: int]"
  "map of_char (Block_serialize wire_format fourth_block) = [10, 5, 8, 1, 16, 235, 34 :: int]"
  by (subst protobuf_runtime.Block_serialize_wire(1) [OF wire_runtime], simp add: fork_weight MAX_SIZE_def INT_MAX_def,
      simp add: fork_block_def fork_tip_def third_block_def fourth_block_def wire_eval)+

lemma rival_bytes: "map of_char (Block_serialize wire_format rival_block) =
    [10, 5, 8, 1, 16, 215, 33, 18, 14, 18, 5, 8, 196, 32, 24, 99, 26, 5, 8, 100, 16, 137, 6 :: int]"
  by (subst protobuf_runtime.Block_serialize_wire(1) [OF wire_runtime])
    (simp_all add: fork_weight MAX_SIZE_def INT_MAX_def, simp add: rival_block_def rival_transaction_def wire_eval)

lemma fork_ihash: "ihash [10, 7, 8, 1, 16, 187, 35, 48, 7] = 4013"
  by (simp add: ihash_runs hash_eval iK8_eval iH0_eval ibytes_sum_def)

lemma fork_tip_ihash: "ihash [10, 5, 8, 1, 16, 173, 31] = 4311"
  by (simp add: ihash_runs hash_eval iK8_eval iH0_eval ibytes_sum_def)

lemma third_ihash: "ihash [10, 5, 8, 1, 16, 129, 31] = 4459"
  by (simp add: ihash_runs hash_eval iK8_eval iH0_eval ibytes_sum_def)

lemma fourth_ihash: "ihash [10, 5, 8, 1, 16, 235, 34] = 3470"
  by (simp add: ihash_runs hash_eval iK8_eval iH0_eval ibytes_sum_def)

lemma rival_ihash: "ihash [10, 5, 8, 1, 16, 215, 33, 18, 14, 18, 5, 8, 196, 32, 24, 99, 26, 5, 8, 100, 16, 137, 6] = 4713"
  by (simp add: ihash_runs hash_eval iK8_eval iH0_eval ibytes_sum_def)

lemma rival_transaction_ihash: "ihash [18, 5, 8, 196, 32, 24, 99, 26, 5, 8, 100, 16, 137, 6] = 3877"
  by (simp add: ihash_runs hash_eval iK8_eval iH0_eval ibytes_sum_def)

lemma fork_hash: "hash_block wire_env fork_block = 4013" "hash_block wire_env fork_tip = 4311" "hash_block wire_env third_block = 4459"
  "hash_block wire_env fourth_block = 3470" "hash_block wire_env rival_block = 4713"
  by (simp_all add: hash_block_def hash_string [OF fork_bytes(1) fork_ihash] hash_string [OF fork_bytes(2) fork_tip_ihash]
      hash_string [OF fork_bytes(3) third_ihash] hash_string [OF fork_bytes(4) fourth_ihash] hash_string [OF rival_bytes rival_ihash])

lemma rival_transaction_hash: "hash_transaction wire_env rival_transaction = 3877"
proof -
  have "Transaction_weight rival_transaction \<le> INT_MAX"
    by (simp add: rival_transaction_def Transaction_weight_def Transaction_new_def INT_MAX_def)
  note ser = Transaction_serialize_wire [OF this]
  have "map of_char (Transaction_serialize wire_format rival_transaction) =
      [18, 5, 8, 196, 32, 24, 99, 26, 5, 8, 100, 16, 137, 6 :: int]"
    unfolding ser by (simp add: rival_transaction_def wire_eval)
  from hash_string [OF this rival_transaction_ihash] show ?thesis by (simp add: hash_transaction_def)
qed

lemma fork_get: "transactions fork_block = []" "transactions fork_tip = []" "transactions third_block = []" "transactions fourth_block = []"
  "transactions rival_block = [rival_transaction]" "get_transactions rival_block = [rival_transaction]"
  by (simp_all add: fork_block_def fork_tip_def third_block_def fourth_block_def rival_block_def rival_transaction_def
      get_transactions_eq Block_new_def Transaction_new_def)

text \<open>A block that spends a coin that does not exist.\<close>

definition bad_block :: Block where
  "bad_block = Block_new (BlockHeader_new 1 4539 0 0 0 0) [Transaction_new [TransactionInput_new 1 0 77] [TransactionOutput_new 40 555] 0 0]"

lemma bad_previous: "previous_block_hash (Block_block_header bad_block) = 4539"
  by (simp add: bad_block_def Block_new_def BlockHeader_new_def)

section \<open>Runs of the node\<close>

lemma genesis_mempool:
  assumes "Chain_new wire_env empty_fs = Inr (ch, fs)"
  shows "mempool_cache (chain_coin_database ch) = Map.empty" "mempool_size (chain_coin_database ch) = 0"
    "mempool_capacity (chain_coin_database ch) = 70"
proof -
  have "CoinDatabase_store_block wire_env (get_transactions construct_genesis_block) CoinDatabase_new = Inr (chain_coin_database ch)"
    using assms by (auto simp: Chain_new_def Let_def)
  then have "keeps (remove_transactions_from_mempool wire_env (get_transactions construct_genesis_block) CoinDatabase_new) (chain_coin_database ch)"
    by (simp add: CoinDatabase_store_block_def keeps_store_transactions)
  then show "mempool_cache (chain_coin_database ch) = Map.empty" "mempool_size (chain_coin_database ch) = 0"
    "mempool_capacity (chain_coin_database ch) = 70"
    by (simp_all add: keeps_def same_mempool_def remove_transactions_mempool) (simp_all add: CoinDatabase_new_def)
qed

text \<open>Before the second block arrives, the predecessor of \<open>fork_tip\<close> is unknown.\<close>

lemma genesis_known:
  assumes "Chain_new wire_env empty_fs = Inr (ch, fs)"
  shows "Database_has (to_string n) (info_database (block_info_database ch)) \<longleftrightarrow> n = 4539"
  using assms genesis_hash
  by (auto simp: Chain_new_def Let_def store_block_record_def db_simps BlockInfoDatabase_new_def Database_new_def Database_has_def [of _ "\<lparr>store = Map.empty\<rparr>"])

text \<open>The unspent outputs after the second block, and after the fork has taken over.\<close>

definition second_coins :: utxo where
  "second_coins = utxo_steps wire_env [spending_transaction] genesis_coins"

definition forked_coins :: utxo where
  "forked_coins = utxo_again wire_env [genesis_transaction] second_coins"

lemma second_coins_at: "second_coins (4164, 0) = None" "second_coins (4164, 1) = Some (TransactionOutput_new 200 67891)"
  "second_coins (4027, 0) = Some (TransactionOutput_new 40 555)" "h \<noteq> 4164 \<Longrightarrow> h \<noteq> 4027 \<Longrightarrow> second_coins (h, i) = None"
  by (auto simp add: second_coins_def utxo_step_def spending_transaction_hash genesis_coins_eq)
    (simp_all add: spending_transaction_def genesis_transaction_def Transaction_new_def TransactionInput_new_def coin_key_def)

lemma forked_coins_at: "forked_coins (4164, 0) = Some (TransactionOutput_new 100 12345)"
  "forked_coins (4027, 0) = Some (TransactionOutput_new 40 555)" "h \<noteq> 4164 \<Longrightarrow> h \<noteq> 4027 \<Longrightarrow> forked_coins (h, i) = None"
  using second_coins_at by (auto simp add: forked_coins_def utxo_again_def utxo_step_def map_add_def genesis_transaction_hash)
    (simp_all add: genesis_transaction_def Transaction_new_def)

lemma bad_not_spendable: "\<not> spendable genesis_coins bad_block"
  by (simp add: spendable_def bad_block_def Block_new_def Transaction_new_def TransactionInput_new_def coin_key_def
      genesis_coins_eq dom_def)

lemma second_spendable: "spendable genesis_coins second_block"
  using spending_applicable by (simp add: spendable_def second_get tx_applicable_def)

lemma rival_applicable: "tx_applicable 3877 rival_transaction forked_coins"
  using forked_coins_at by (auto simp: tx_applicable_def rival_transaction_def Transaction_new_def TransactionInput_new_def coin_key_def)

lemma rival_spendable: "spendable forked_coins rival_block"
  using rival_applicable by (simp add: spendable_def fork_get tx_applicable_def)

lemma rival_ok: "block_ok wire_env rival_block"
proof -
  let ?rec = "UndoBlock_weight (undo_block_trim (make_undo_block wire_format cleared rival_block))"
  have "?rec < 1000"
    by (simp add: make_undo_block_def fork_get make_undo_step_def Let_def undo_block_trim_def undo_trim_def UndoBlock_new_def UndoCoinRecord_new_def
      UndoBlock_weight_def UndoCoinRecord_weight_def rival_transaction_def Transaction_new_def TransactionInput_new_def TransactionOutput_new_def)
  then show ?thesis
    by (simp add: block_ok_def fork_weight) (simp add: fork_get inputs_upto_def outputs_upto_def rival_transaction_def Transaction_new_def)
qed

lemma outputs_eval: "outputs_of [genesis_transaction] = 3" "outputs_of [spending_transaction] = 1" "outputs_of [rival_transaction] = 1"
  by (simp_all add: genesis_transaction_def spending_transaction_def rival_transaction_def Transaction_new_def)

lemma wire_genesis_ledger: "genesis_ledger wire_env =
    \<lparr>main_chain = [construct_genesis_block], unspent = genesis_coins, heights = (\<lambda>_. 0)(4539 := 1),
     known = [4539 \<mapsto> construct_genesis_block], undo_kept = {4539}, created = 3, probed = {}\<rparr>"
  by (rule ledger.equality) (simp_all add: genesis_ledger_parts genesis_hash genesis_coins_def)

lemmas ledger_eval = genesis_hash second_hash fork_hash bad_previous fork_previous genesis_get second_get fork_get
  bad_not_spendable second_spendable rival_spendable second_ok rival_ok fork_weight outputs_eval

text \<open>The first part of the story: a transaction, a refused block, the second block and one beside it.\<close>

definition delivery :: "message list" where
  "delivery = [NewTransaction spending_transaction, NewBlock bad_block, NewBlock second_block, NewBlock fork_block]"

definition fork_ledger :: ledger where
  "fork_ledger = \<lparr>main_chain = [construct_genesis_block, second_block], unspent = second_coins,
     heights = (\<lambda>_. 0)(4539 := 1, 3969 := Suc 1, 4013 := Suc 1),
     known = [4539 \<mapsto> construct_genesis_block, 3969 \<mapsto> second_block, 4013 \<mapsto> fork_block], undo_kept = {4539, 3969}, created = 4,
     probed = {1}\<rparr>"

lemma spending_lookups: "lookups genesis_coins (transaction_inputs spending_transaction) = {}"
  using spending_applicable by (intro lookups_subset) (simp add: tx_applicable_def)

lemma bad_lookups: "lookups genesis_coins (block_inputs (transactions bad_block)) = {1}"
  by (simp add: bad_block_def Block_new_def Transaction_new_def TransactionInput_new_def coin_key_def genesis_coins_eq dom_def)

lemma second_lookups: "lookups genesis_coins (block_inputs [spending_transaction]) = {}"
  by (simp add: spending_lookups)

lemma second_applicable: "txs_applicable wire_env [spending_transaction] genesis_coins"
  using spending_applicable by simp

lemma delivery_ledger: "deliverables wire_env delivery (genesis_ledger wire_env)"
  "ledger_messages wire_env delivery (genesis_ledger wire_env) = Inr fork_ledger"
  by (simp_all add: delivery_def wire_genesis_ledger fork_ledger_def append_block_def remember_block_def look_def Let_def ledger_eval
      replay_applicable [OF second_applicable] storable_def spending_lookups bad_lookups second_lookups
      insert_commute flip: second_coins_def del: utxo_steps.simps txs_applicable.simps outputs_of_simps)

text \<open>The fork takes over.\<close>

definition forked_ledger :: ledger where
  "forked_ledger = \<lparr>main_chain = [construct_genesis_block, fork_block, fork_tip], unspent = forked_coins,
     heights = (\<lambda>_. 0)(4539 := 1, 3969 := Suc 1, 4013 := Suc 1, 4311 := Suc (Suc 1)),
     known = [4539 \<mapsto> construct_genesis_block, 3969 \<mapsto> second_block, 4013 \<mapsto> fork_block, 4311 \<mapsto> fork_tip],
     undo_kept = {4539, 3969}, created = 7, probed = {1}\<rparr>"

lemma fork_rival: "rival fork_tip fork_ledger = [construct_genesis_block, fork_block]"
  by (simp add: rival_def fork_ledger_def fork_previous)

lemma fork_shared: "fork_point wire_env (main_chain fork_ledger) (rival fork_tip fork_ledger) = 1"
  "shared_block wire_env fork_tip fork_ledger = construct_genesis_block"
  unfolding shared_block_def fork_rival by (simp_all add: fork_point_def fork_ledger_def ledger_eval)

lemma fork_takes_over: "deliverable wire_env (NewBlock fork_tip) fork_ledger"
  "ledger_message wire_env (NewBlock fork_tip) fork_ledger = Inr forked_ledger"
proof -
  have "\<forall>i < length [construct_genesis_block, fork_block]. heights fork_ledger (hash_block wire_env ([construct_genesis_block, fork_block] ! i)) = Suc i"
    by (auto simp: fork_ledger_def less_Suc_eq ledger_eval)
  then show "deliverable wire_env (NewBlock fork_tip) fork_ledger"
    using fork_shared unfolding deliverable.simps Let_def fork_rival
    by (simp add: ledger_eval del: outputs_of_simps) (simp add: fork_ledger_def ledger_eval)
  have "undo_possible wire_env fork_ledger"
    by (simp add: undo_possible_def fork_ledger_def ledger_eval)
  moreover have "replay wire_env P [genesis_transaction] m = Inr (utxo_again wire_env [genesis_transaction] m)" for P m
    by (rule replay_no_inputs) (simp add: genesis_transaction_def Transaction_new_def)
  ultimately show "ledger_message wire_env (NewBlock fork_tip) fork_ledger = Inr forked_ledger"
    by (simp add: ledger_eval switch_chain_def remember_block_def fork_rival fork_shared Let_def del: outputs_of_simps)
      (simp add: fork_ledger_def forked_ledger_def forked_coins_def ledger_eval)
qed

text \<open>The output that \<open>second_block\<close> had spent is spent again.\<close>

definition rival_ledger :: ledger where
  "rival_ledger = append_block wire_env rival_block (utxo_steps wire_env [rival_transaction] forked_coins) forked_ledger"

lemma rival_appended: "deliverable wire_env (NewBlock rival_block) forked_ledger"
  "ledger_message wire_env (NewBlock rival_block) forked_ledger = Inr rival_ledger"
proof -
  have app: "txs_applicable wire_env [rival_transaction] forked_coins" by (simp add: rival_applicable rival_transaction_hash)
  have "lookups forked_coins (block_inputs [rival_transaction]) = {}"
    using rival_applicable by (simp add: lookups_subset tx_applicable_def)
  then have "look (block_inputs (transactions rival_block)) forked_ledger = forked_ledger"
    by (simp add: look_def forked_ledger_def ledger_eval)
  then show "ledger_message wire_env (NewBlock rival_block) forked_ledger = Inr rival_ledger"
    by (simp add: Let_def rival_ledger_def del: utxo_steps.simps) (simp add: forked_ledger_def ledger_eval replay_applicable [OF app] del: utxo_steps.simps)
qed (simp_all add: forked_ledger_def ledger_eval storable_def rival_applicable rival_transaction_hash)

text \<open>The blocks of the old chain get higher again.\<close>

definition stuck_ledger :: ledger where
  "stuck_ledger = remember_block wire_env third_block forked_ledger"

lemma third_remembered: "deliverable wire_env (NewBlock third_block) forked_ledger"
  "ledger_message wire_env (NewBlock third_block) forked_ledger = Inr stuck_ledger"
  by (simp_all add: forked_ledger_def stuck_ledger_def ledger_eval)

lemma fourth_rival: "rival fourth_block stuck_ledger = [construct_genesis_block, second_block, third_block]"
  by (simp add: rival_def stuck_ledger_def remember_block_def forked_ledger_def ledger_eval)

lemma stuck_parts: "main_chain stuck_ledger = [construct_genesis_block, fork_block, fork_tip]" "heights stuck_ledger 4459 = Suc (Suc (Suc 0))"
  by (simp_all add: stuck_ledger_def remember_block_def forked_ledger_def ledger_eval)

lemma stuck_irreversible: "\<not> undo_possible wire_env stuck_ledger"
  by (simp add: undo_possible_def stuck_ledger_def remember_block_def forked_ledger_def ledger_eval)

lemma fourth_higher: "parent fourth_block \<noteq> hash_block wire_env (last (main_chain stuck_ledger))"
  "\<not> Suc (heights stuck_ledger (parent fourth_block)) \<le> length (main_chain stuck_ledger)"
  by (simp_all add: stuck_parts ledger_eval)

lemma fourth_stuck: "deliverable wire_env (NewBlock fourth_block) stuck_ledger"
  "ledger_message wire_env (NewBlock fourth_block) stuck_ledger = Inl UB_index_out_of_range"
proof -
  have "\<forall>i < length [construct_genesis_block, second_block, third_block].
      heights stuck_ledger (hash_block wire_env ([construct_genesis_block, second_block, third_block] ! i)) = Suc i"
    by (auto simp: stuck_ledger_def remember_block_def forked_ledger_def less_Suc_eq ledger_eval)
  with stuck_irreversible show "deliverable wire_env (NewBlock fourth_block) stuck_ledger"
    "ledger_message wire_env (NewBlock fourth_block) stuck_ledger = Inl UB_index_out_of_range"
    unfolding deliverable.simps ledger_message.simps Let_def fourth_rival stuck_parts(1)
    by (simp_all add: ledger_eval fork_point_def stuck_parts fourth_rival)
qed

text \<open>The whole stories, and the states of the program after them.\<close>

definition reorganised_chain :: "message list" where
  "reorganised_chain = delivery @ [NewBlock fork_tip]"

definition reorganisation :: "message list" where
  "reorganisation = reorganised_chain @ [NewBlock rival_block]"

lemma reorganised_run: "deliverables wire_env reorganised_chain (genesis_ledger wire_env)"
  "ledger_messages wire_env reorganised_chain (genesis_ledger wire_env) = Inr forked_ledger"
  unfolding reorganised_chain_def res_fold_snoc covered_run_snoc
  by (simp_all add: delivery_ledger fork_takes_over del: deliverable.simps ledger_message.simps)

lemma reorganisation_ledger: "deliverables wire_env reorganisation (genesis_ledger wire_env)"
  "ledger_messages wire_env reorganisation (genesis_ledger wire_env) = Inr rival_ledger"
  unfolding reorganisation_def res_fold_snoc covered_run_snoc
  by (simp_all add: reorganised_run rival_appended del: deliverable.simps ledger_message.simps)

text \<open>The story from the second block on.\<close>

definition early_messages :: "message list" where
  "early_messages = [NewTransaction spending_transaction, NewBlock bad_block]"

definition early_ledger :: ledger where
  "early_ledger = genesis_ledger wire_env\<lparr>probed := {1}\<rparr>"

lemma early_run: "deliverables wire_env early_messages (genesis_ledger wire_env)"
  "ledger_messages wire_env early_messages (genesis_ledger wire_env) = Inr early_ledger"
  by (simp_all add: early_messages_def early_ledger_def wire_genesis_ledger look_def Let_def ledger_eval spending_lookups bad_lookups)

lemma late_run:
  "deliverables wire_env [NewBlock second_block, NewBlock fork_block, NewBlock fork_tip, NewBlock rival_block] early_ledger"
  "ledger_messages wire_env [NewBlock second_block, NewBlock fork_block, NewBlock fork_tip, NewBlock rival_block] early_ledger = Inr rival_ledger"
proof -
  let ?late = "[NewBlock second_block, NewBlock fork_block, NewBlock fork_tip, NewBlock rival_block]"
  have all: "reorganisation = early_messages @ ?late"
    by (simp add: reorganisation_def reorganised_chain_def delivery_def early_messages_def)
  show "deliverables wire_env ?late early_ledger"
    using reorganisation_ledger(1) unfolding all covered_run_append early_run(2) by simp
  show "ledger_messages wire_env ?late early_ledger = Inr rival_ledger"
    using reorganisation_ledger(2) unfolding all res_fold_append early_run(2) by simp
qed

lemma stuck_run: "deliverables wire_env (reorganised_chain @ [NewBlock third_block]) (genesis_ledger wire_env)"
  "ledger_messages wire_env (reorganised_chain @ [NewBlock third_block]) (genesis_ledger wire_env) = Inr stuck_ledger"
  unfolding res_fold_snoc covered_run_snoc
  by (simp_all add: reorganised_run third_remembered del: deliverable.simps ledger_message.simps)

lemma run_state:
  assumes "deliverables wire_env msgs (genesis_ledger wire_env)" "ledger_messages wire_env msgs (genesis_ledger wire_env) = Inr L"
    and "length msgs + k < 65535"
  obtains ch fs ch' fs' where "Chain_new wire_env empty_fs = Inr (ch, fs)"
    "res_fold (handle_message wire_env) msgs (ch, fs) = Inr (ch', fs')" "ledger_holds wire_env k L (ch', fs')"
  using node_run [OF wire_env_runtime wire_env_order empty_fs_fresh assms(3,1)] assms(2) by auto

text \<open>The state after the delivery, in which the branch of \<open>fork_block\<close> is as long as the chain.\<close>

lemma fork_state:
  obtains ch fs ch' fs' where "Chain_new wire_env empty_fs = Inr (ch, fs)"
    "res_fold (handle_message wire_env) delivery (ch, fs) = Inr (ch', fs')" "ledger_holds wire_env 9 fork_ledger (ch', fs')"
    "coin_inv wire_env (chain_coin_database ch')" "chain_reads wire_env (Suc 8) [construct_genesis_block, second_block] (ch', fs')"
    "branch wire_env (block_info_database ch') fs' [construct_genesis_block, fork_block]"
    "list_all (reversible_block wire_env (block_info_database ch') fs') [second_block]"
    "coins wire_env (chain_coin_database ch') = second_coins" "unflushed wire_env 4 (chain_coin_database ch')"
proof -
  have "length delivery + 9 < 65535" by (simp add: delivery_def)
  from run_state [OF delivery_ledger this] obtain ch fs ch' fs' where g: "Chain_new wire_env empty_fs = Inr (ch, fs)"
    "res_fold (handle_message wire_env) delivery (ch, fs) = Inr (ch', fs')" "ledger_holds wire_env 9 fork_ledger (ch', fs')" .
  note L = ledger_holds_parts [OF g(3)]
  have main: "main_chain fork_ledger = [construct_genesis_block, second_block]" by (simp add: fork_ledger_def)
  have "ledger_holds wire_env (Suc 8) fork_ledger (ch', fs')" using g(3) by simp
  from ledger_higher(6) [OF this _ _ fork_takes_over(1)]
  have "branch wire_env (block_info_database ch') fs' [construct_genesis_block, fork_block]"
    unfolding fork_rival by (simp add: fork_ledger_def ledger_eval)
  moreover have "undo_possible wire_env fork_ledger" by (simp add: undo_possible_def fork_ledger_def ledger_eval)
  then have "list_all (reversible_block wire_env (block_info_database ch') fs') [second_block]"
    using undo_possible_reversible(1) [OF L(6,7)] by (simp add: main)
  moreover have "chain_reads wire_env (Suc 8) [construct_genesis_block, second_block] (ch', fs')" using L(1) by (simp add: main)
  ultimately show ?thesis using that g L(2-4) by (simp add: fork_ledger_def coins_hold_def caches_def)
qed

lemma fork_point_eval: "fork_point wire_env [construct_genesis_block, second_block] [construct_genesis_block, fork_block] = 1"
  by (simp add: fork_point_def ledger_eval)

end
