(* ===== verification/Codec_Properties.thy ===== *)
theory Codec_Properties
  imports Concrete
begin

text \<open>
  The properties of the encodings: the generated messages, the classes serialised with them, the
  coin locators, and the hash. Each is stated over the code's definitions and derived from the lemmas of the theory
  that models the code; the witnesses apply it on the wire format of \<open>Wire_Format\<close> or on the
  concrete chain.
\<close>

section \<open>Round trips\<close>

text \<open>C28. A block that was serialised is read back as it was, header and transactions, whatever the
  runtime, as long as it stays within the size the runtime parses.\<close>

theorem block_roundtrip:
  assumes "protobuf_runtime rt" "Block_weight b \<le> MAX_SIZE"
  shows "Block_deserialize rt (Block_serialize rt b) = Inr (Some b)"
  by (rule protobuf_runtime.Block_deserialize_serialize [OF assms])

theorem block_roundtrip_witness:
  "Block_deserialize wire_format (Block_serialize wire_format second_block) = Inr (Some second_block)"
  using block_roundtrip [OF wire_runtime, of second_block] by (simp add: second_weight MAX_SIZE_def INT_MAX_def)

text \<open>C29. A coin record whose three vectors are equally long is read back as it was; when the first
  vector is the longest, the loop reads out of range.\<close>

theorem coin_record_roundtrip:
  assumes "protobuf_runtime rt" "24 + 15 * length (utxo r) \<le> MAX_SIZE"
  shows "res_bind (CoinRecord_serialize rt r) (CoinRecord_deserialize rt) =
    (if length (utxo r) \<le> length (amounts r) \<and> length (utxo r) \<le> length (public_keys r)
     then Inr (r\<lparr>amounts := take (length (utxo r)) (amounts r), public_keys := take (length (utxo r)) (public_keys r)\<rparr>)
     else Inl UB_index_out_of_range)"
  using protobuf_runtime.CoinRecord_deserialize_serialize [OF assms(1), of r] assms(2) CoinRecord_serialize_short [of r rt]
  by (auto simp: not_le)

theorem coin_record_roundtrip_witness:
  "res_bind (CoinRecord_serialize wire_format (CoinRecord_new 1 [0, 2] [100, 300] [12345, 23456]))
     (CoinRecord_deserialize wire_format) = Inr (CoinRecord_new 1 [0, 2] [100, 300] [12345, 23456])"
  using coin_record_roundtrip [OF wire_runtime, of "CoinRecord_new 1 [0, 2] [100, 300] [12345, 23456]"]
  by (simp add: CoinRecord_new_def MAX_SIZE_def INT_MAX_def)

text \<open>C30. An undo block is read back as it was, when it has one record per transaction hash and
  the vectors of each record are equally long.\<close>

theorem undo_block_roundtrip:
  assumes "protobuf_runtime rt" "UndoBlock_ok b" "UndoBlock_weight b \<le> MAX_SIZE"
  shows "res_bind (UndoBlock_serialize rt b) (UndoBlock_deserialize rt) = Inr b"
  by (rule protobuf_runtime.UndoBlock_deserialize_serialize [OF assms])

theorem undo_block_roundtrip_witness:
  "res_bind (UndoBlock_serialize wire_format (UndoBlock_new [4027] [UndoCoinRecord_new 0 [0] [40] [555]]))
     (UndoBlock_deserialize wire_format) = Inr (UndoBlock_new [4027] [UndoCoinRecord_new 0 [0] [40] [555]])"
  by (rule undo_block_roundtrip [OF wire_runtime])
    (simp_all add: UndoBlock_ok_def UndoCoinRecord_ok_def UndoBlock_weight_def UndoCoinRecord_weight_def
      UndoBlock_new_def UndoCoinRecord_new_def MAX_SIZE_def INT_MAX_def)

section \<open>The generated messages\<close>

text \<open>C31. Parsing what \<open>SerializeToString\<close> wrote gives a copy of the block message, nested header and
  transactions included, whatever the message held before.\<close>

theorem pblock_parse_serialize:
  assumes "protobuf_runtime rt" "PBlock_plain rt m" "length (PBlock_wire rt m) \<le> MAX_SIZE"
  shows "PBlock_ParseFromString rt (PBlock_SerializeToString rt m) m' = Inr (PBlock_MergeFrom rt m (PBlock_Clear rt m'))"
  by (rule protobuf_runtime.PBlock_roundtrip [OF assms])

theorem pblock_parse_serialize_witness:
  "PBlock_ParseFromString wire_format (PBlock_SerializeToString wire_format (proto_block wire_format second_block)) (PBlock_new wire_format)
     = Inr (PBlock_MergeFrom wire_format (proto_block wire_format second_block) (PBlock_Clear wire_format (PBlock_new wire_format)))"
proof -
  have w: "Block_weight second_block \<le> MAX_SIZE" by (simp add: second_weight MAX_SIZE_def INT_MAX_def)
  note wire = protobuf_runtime.proto_block_wire [OF wire_runtime w]
  show ?thesis by (rule pblock_parse_serialize [OF wire_runtime wire(1)]) (use wire(2) w in linarith)
qed

text \<open>C32. \<open>ByteSizeLong\<close> computes exactly the number of bytes that \<open>InternalSerialize\<close> then writes.\<close>

theorem pblock_size_is_length:
  assumes "protobuf_runtime rt"
  shows "fst (PBlock_ByteSizeLong rt m) = length (PBlock_InternalSerialize rt (snd (PBlock_ByteSizeLong rt m)))"
  using protobuf_runtime.PBlock_size_length [OF assms] by (simp add: PBlock_wire_def)

theorem pblock_size_is_length_witness:
  "fst (PBlock_ByteSizeLong wire_format (proto_block wire_format second_block)) =
     length (PBlock_InternalSerialize wire_format (snd (PBlock_ByteSizeLong wire_format (proto_block wire_format second_block))))"
  by (rule pblock_size_is_length [OF wire_runtime])

text \<open>C33. The parse loop of the block message, and those of the messages nested in it, return on every
  input, malformed or not.\<close>

theorem pblock_parser_returns:
  assumes "protobuf_runtime rt"
  shows "\<exists>m'. PBlock_ParseFromString rt s m = Inr m'"
  using protobuf_runtime.PBlock_parse_total [OF assms, of s "PBlock_Clear rt m"]
  by (auto simp: PBlock_ParseFromString_def ParseFromString_def)

theorem pblock_parser_returns_witness: "\<exists>m'. PBlock_ParseFromString wire_format ''abc'' (PBlock_new wire_format) = Inr m'"
  by (rule pblock_parser_returns [OF wire_runtime])

section \<open>The hash\<close>

text \<open>C12. The hash is the 32-bit sum of the bytes of the SHA-256 digest of the message (FIPS 180-4, the constants being the fractional parts
  of roots of primes), on top of whatever the uninitialised accumulator held. The block buffer and the digest buffer, also
  uninitialised, do not matter.\<close>

theorem hash_is_sha256_digest_sum:
  assumes "8 * length message < 2 ^ 64"
  shows "CryptCrypto_hash g message = g_hashd g + (\<Sum>b\<leftarrow>sha256 (message_bytes message). ucast b)"
  by (rule CryptCrypto_hash_eq [OF assms])

theorem hash_is_sha256_digest_sum_witness:
  "CryptCrypto_hash cleared ''abc'' = (\<Sum>b\<leftarrow>sha256 (message_bytes ''abc''). ucast b)"
  using hash_is_sha256_digest_sum [of "''abc''" cleared] by (simp add: cleared_def)

text \<open>C40. Only 8161 of the \<open>2 ^ 32\<close> hash values occur: among any 8162 messages, of any length,
  two have the same hash.\<close>

theorem hash_collides:
  assumes "8161 < card S"
  shows "\<exists>x \<in> S. \<exists>y \<in> S. x \<noteq> y \<and> CryptCrypto_hash g x = CryptCrypto_hash g y"
proof -
  have "finite S" using assms by (simp add: card_gt_0_iff [THEN iffD1, THEN conjunct2])
  have "(\<lambda>x. unat (digest_sum g x)) ` S \<subseteq> {..8160}" using digest_sum_bound by auto
  then have "card ((\<lambda>x. unat (digest_sum g x)) ` S) \<le> card {..8160 :: nat}" by (intro card_mono) auto
  then have "\<not> inj_on (\<lambda>x. unat (digest_sum g x)) S" using assms card_image by fastforce
  then show ?thesis by (auto simp: inj_on_def hash_digest_sum)
qed

theorem hash_collides_witness:
  "\<exists>x \<in> (\<lambda>n. replicate n CHR ''a'') ` {..<8162}. \<exists>y \<in> (\<lambda>n. replicate n CHR ''a'') ` {..<8162}.
     x \<noteq> y \<and> CryptCrypto_hash cleared x = CryptCrypto_hash cleared y"
proof (rule hash_collides)
  have "inj_on (\<lambda>n. replicate n CHR ''a'') {..<8162}" by (rule inj_onI) simp
  then show "8161 < card ((\<lambda>n. replicate n CHR ''a'') ` {..<8162})" by (simp add: card_image)
qed

end
