(* ===== verification/Coin_Properties.thy ===== *)
theory Coin_Properties
  imports Concrete
begin

text \<open>
  The properties of the coin database: what it promises is a map from transaction hash and output
  index to an unspent output, the same whether a coin is in the cache or in the store. The operations refine the
  operations on that map; the last theorems say where the code leaves that contract.
\<close>

section \<open>The concrete database after the genesis block\<close>

lemma mempool_new: "mempool_cache CoinDatabase_new = Map.empty"
  by (simp add: CoinDatabase_new_def)

lemma genesis_database:
  obtains c where "CoinDatabase_store_block wire_env [genesis_transaction] CoinDatabase_new = Inr c"
    "coin_inv wire_env c" "coins wire_env c = genesis_coins" "mempool_cache c = Map.empty"
proof -
  have "txs_applicable wire_env [genesis_transaction] (coins wire_env CoinDatabase_new)"
    by (simp add: coin_inv_new tx_applicable_def genesis_transaction_def Transaction_new_def)
  from store_block_spec [OF wire_env_runtime wire_env_order coin_inv_new(1) this] that show ?thesis
    unfolding coin_inv_new(2) by (auto simp: genesis_coins_def genesis_get mempool_new)
qed

lemma genesis_spendable: "list_all (\<lambda>i. coin_key i \<in> dom genesis_coins) (transaction_inputs spending_transaction)"
  using spending_applicable by (simp add: tx_applicable_def)

lemma genesis_cached:
  obtains c where "CoinDatabase_store_block wire_env [genesis_transaction] CoinDatabase_new = Inr c" "coin_inv wire_env c"
    "coins wire_env c = genesis_coins" "coin_database c = Database_new" "unat (main_cache_size c) \<le> 3"
proof -
  obtain c where c: "CoinDatabase_store_block wire_env [genesis_transaction] CoinDatabase_new = Inr c"
    "coin_inv wire_env c" "coins wire_env c = genesis_coins" by (rule genesis_database)
  let ?c = "remove_transactions_from_mempool wire_env [genesis_transaction] CoinDatabase_new"
  have new: "coin_inv wire_env ?c" "coins wire_env ?c = Map.empty" "coin_database ?c = Database_new" "unat (main_cache_size ?c) = 0"
    by (simp_all add: remove_transactions_same remove_transactions_mempool coin_inv_new) (simp_all add: CoinDatabase_new_def)
  have "length (transaction_outputs genesis_transaction) = 3" "unrecorded (coin_database ?c) genesis_transaction"
    by (simp_all add: genesis_transaction_def Transaction_new_def unrecorded_def)
  then obtain c' where "store_transaction_coins wire_env genesis_transaction ?c = Inr c'" "coin_database c' = Database_new"
    "unat (main_cache_size c') \<le> 3"
    using store_unrecorded [OF wire_env_runtime wire_env_order new(1), of genesis_transaction] new(2-4) by auto
  with c that show ?thesis by (simp add: CoinDatabase_store_block_def store_transactions_to_main_cache_def)
qed

section \<open>Refinement of the map of unspent outputs\<close>

text \<open>C5. Storing a block of applicable transactions succeeds and does to the coins, wherever they are kept,
  what the transactions say: inputs go, outputs come under the transaction's hash; the block's
  transactions leave the mempool, and the invariant is kept, through every flush of the cache.\<close>

theorem store_block_refines:
  assumes "protobuf_runtime (runtime_of E)" "order_ok E" "coin_inv E c" "txs_applicable E txs (coins E c)"
  shows "\<exists>c'. CoinDatabase_store_block E txs c = Inr c' \<and> coin_inv E c' \<and> coins E c' = utxo_steps E txs (coins E c) \<and>
    mempool_cache c' = (mempool_cache c) |` (- (hash_transaction E ` set txs))"
  by (rule store_block_spec [OF assms])

theorem store_block_refines_witness:
  "\<exists>c c'. CoinDatabase_store_block wire_env [genesis_transaction] CoinDatabase_new = Inr c \<and>
     CoinDatabase_store_block wire_env [spending_transaction] c = Inr c' \<and>
     coins wire_env c' (4164, 0) = None \<and> coins wire_env c' (4164, 1) = Some (TransactionOutput_new 200 67891) \<and>
     coins wire_env c' (4027, 0) = Some (TransactionOutput_new 40 555)"
proof -
  obtain c where c: "CoinDatabase_store_block wire_env [genesis_transaction] CoinDatabase_new = Inr c"
    "coin_inv wire_env c" "coins wire_env c = genesis_coins" by (rule genesis_database)
  have "txs_applicable wire_env [spending_transaction] (coins wire_env c)"
    using spending_applicable c(3) by simp
  then obtain c' where "CoinDatabase_store_block wire_env [spending_transaction] c = Inr c'"
    "coins wire_env c' = utxo_steps wire_env [spending_transaction] genesis_coins"
    using store_block_refines [OF wire_env_runtime wire_env_order c(2)] c(3) by metis
  with c(1) show ?thesis
    by (auto simp: utxo_step_def spending_transaction_hash genesis_coins_eq)
      (simp_all add: spending_transaction_def genesis_transaction_def Transaction_new_def TransactionInput_new_def coin_key_def)
qed

text \<open>C6. A block is valid exactly when every input of every transaction names an unspent output, in the
  cache or in the store; validating changes no coin and nothing in the cache or the mempool.\<close>

theorem validate_block_iff:
  assumes "coin_inv E c"
  shows "\<exists>c'. validate_block E txs c =
      Inr (list_all (\<lambda>tx. list_all (\<lambda>i. coin_key i \<in> dom (coins E c)) (transaction_inputs tx)) txs, c') \<and>
    coins E c' = coins E c \<and> coin_inv E c' \<and> main_cache c' = main_cache c \<and> mempool_cache c' = mempool_cache c"
  using validate_block_spec [OF assms, of txs] only_reads_same [of E c] assms by metis

theorem validate_block_iff_witness:
  "\<exists>c c1 c2. CoinDatabase_store_block wire_env [genesis_transaction] CoinDatabase_new = Inr c \<and>
     validate_block wire_env [spending_transaction] c = Inr (True, c1) \<and>
     validate_block wire_env [spending_transaction] CoinDatabase_new = Inr (False, c2)"
proof -
  obtain c where c: "CoinDatabase_store_block wire_env [genesis_transaction] CoinDatabase_new = Inr c"
    "coin_inv wire_env c" "coins wire_env c = genesis_coins" by (rule genesis_database)
  have "transaction_inputs spending_transaction \<noteq> []" by (simp add: spending_transaction_def Transaction_new_def)
  with c genesis_spendable show ?thesis
    using validate_block_iff [OF c(2), of "[spending_transaction]"]
      validate_block_iff [OF coin_inv_new(1) [of wire_env], of "[spending_transaction]"]
    by (auto simp: coin_inv_new(2) list_all_iff neq_Nil_conv)
qed

text \<open>C7. Flushing moves the cache into the store: the coins stay the same, whatever the order in which the
  cache is walked, and the cache is empty afterwards.\<close>

theorem flush_preserves_coins:
  assumes "protobuf_runtime (runtime_of E)" "order_ok E" "coin_inv E c"
  shows "\<exists>c'. flush_main_cache E c = Inr c' \<and> coin_inv E c' \<and> coins E c' = coins E c \<and>
    main_cache c' = [] \<and> main_cache_size c' = 0 \<and> mempool_cache c' = mempool_cache c"
  by (rule flush_spec [OF assms])

theorem flush_preserves_coins_witness:
  "\<exists>c c'. CoinDatabase_store_block wire_env [genesis_transaction] CoinDatabase_new = Inr c \<and>
     flush_main_cache wire_env c = Inr c' \<and> main_cache c' = [] \<and>
     coins wire_env c' (4164, 2) = Some (TransactionOutput_new 300 23456)"
proof -
  obtain c where c: "CoinDatabase_store_block wire_env [genesis_transaction] CoinDatabase_new = Inr c"
    "coin_inv wire_env c" "coins wire_env c = genesis_coins" by (rule genesis_database)
  have "genesis_coins (4164, 2) = Some (TransactionOutput_new 300 23456)"
    by (simp add: genesis_coins_eq genesis_transaction_def Transaction_new_def)
  then show ?thesis using c(1,3) flush_preserves_coins [OF wire_env_runtime wire_env_order c(2)] by auto
qed

section \<open>Invariants of every run\<close>

text \<open>C8. In every state that the public operations can reach, whatever the runtime, the hash and the
  blocks: the mempool holds no more transactions than its counter says, the cache no more coins than its own, and neither counter exceeds 70.\<close>

theorem coin_reachable_bounds:
  assumes "coin_reachable E c"
  shows "card (dom (mempool_cache c)) \<le> unat (mempool_size c) \<and> unat (mempool_size c) \<le> 70 \<and>
    length (main_cache c) \<le> unat (main_cache_size c) \<and> unat (main_cache_size c) \<le> 70"
  using reachable_inv [OF assms] by (simp add: mempool_inv_def cache_inv_def)

theorem coin_reachable_bounds_witness:
  "unat (mempool_size (store_transaction wire_env genesis_transaction CoinDatabase_new)) \<le> 70"
  using coin_reachable_bounds [OF reach_step [OF reach_new step_store_transaction [OF refl]]] by blast

text \<open>C9. In the same states the cache is well formed: it has each key once, every key is that of a coin and parses back as the transaction hash and the
  output index it was made from, and no coin of it is spent.\<close>

theorem coin_cache_typed:
  assumes "coin_reachable E c"
  shows "distinct (map fst (main_cache c)) \<and>
    (\<forall>(k, coin) \<in> set (main_cache c). \<not> is_spent coin \<and>
       (\<exists>h i. k = serialize_from_construct h i \<and> CoinLocator_deserialize k = Inr (CoinLocator_new h i)))"
proof -
  have "cache_inv c" using reachable_inv [OF assms] by simp
  then show ?thesis using CoinLocator_roundtrip by (fastforce simp: cache_inv_def list_all_iff coin_entry_def)
qed

theorem coin_cache_typed_witness:
  "\<exists>c. CoinDatabase_store_block wire_env [genesis_transaction] CoinDatabase_new = Inr c \<and> distinct (map fst (main_cache c))"
proof -
  obtain c where c: "CoinDatabase_store_block wire_env [genesis_transaction] CoinDatabase_new = Inr c" by (rule genesis_database)
  from coin_cache_typed [OF reach_step [OF reach_new step_store_block [OF c]]] c show ?thesis by blast
qed

text \<open>C35. The counter of the mempool is never decremented: once it has reached its capacity, no sequence of
  operations, blocks that empty the mempool included, lets another transaction in.\<close>

theorem mempool_stays_full:
  assumes "coin_reachable E c" "mempool_size c = 70" "(coin_step E)\<^sup>*\<^sup>* c c'"
  shows "mempool_size c' = 70 \<and> dom (mempool_cache c') \<subseteq> dom (mempool_cache c)"
proof -
  have "mempool_size c' = 70 \<and> dom (mempool_cache c') \<subseteq> dom (mempool_cache c) \<and> coin_reachable E c'"
    using assms(3)
  proof (induction rule: rtranclp_induct)
    case (step c1 c2)
    then have "mempool_inv c1" using reachable_inv by blast
    with step show ?case using coin_step_full [OF step(2)] reach_step by blast
  qed (use assms(1,2) in auto)
  then show ?thesis by simp
qed

lemma store_transaction_count:
  assumes "mempool_size c = of_nat n" "n < 70" "mempool_capacity c = 70" "dom (mempool_cache c) \<subseteq> {hash_transaction E tx}"
  shows "mempool_size (store_transaction E tx c) = of_nat (Suc n)" "mempool_capacity (store_transaction E tx c) = 70"
    and "dom (mempool_cache (store_transaction E tx c)) \<subseteq> {hash_transaction E tx}"
proof -
  have "unat (of_nat n :: uint16) = n" using assms(2) by (simp add: unat_of_nat take_bit_nat_eq_self)
  moreover have "unat (70 :: uint16) = 70" by simp
  ultimately have "(70 :: uint16) \<noteq> of_nat n" using assms(2) by force
  with assms show "mempool_size (store_transaction E tx c) = of_nat (Suc n)" "mempool_capacity (store_transaction E tx c) = 70"
    "dom (mempool_cache (store_transaction E tx c)) \<subseteq> {hash_transaction E tx}"
    by (auto simp: store_transaction_def store_transaction_in_mempool_def Let_def add.commute)
qed

lemma store_transaction_repeat:
  "n \<le> 70 \<Longrightarrow> \<exists>c. (store_transaction E tx ^^ n) CoinDatabase_new = c \<and> coin_reachable E c \<and> mempool_size c = of_nat n \<and>
     mempool_capacity c = 70 \<and> dom (mempool_cache c) \<subseteq> {hash_transaction E tx}"
proof (induction n)
  case (Suc n)
  then obtain c where c: "(store_transaction E tx ^^ n) CoinDatabase_new = c" "coin_reachable E c" "mempool_size c = of_nat n"
    "mempool_capacity c = 70" "dom (mempool_cache c) \<subseteq> {hash_transaction E tx}" by auto
  have "n < 70" using Suc.prems by simp
  from store_transaction_count [OF c(3) this c(4,5)] show ?case
    using c(1) reach_step [OF c(2) step_store_transaction [OF refl]] by simp
qed (use reach_new in \<open>auto simp: CoinDatabase_new_def\<close>)

theorem mempool_stays_full_witness:
  "let c = (store_transaction wire_env genesis_transaction ^^ 70) CoinDatabase_new
   in hash_transaction wire_env spending_transaction \<notin> dom (mempool_cache (store_transaction wire_env spending_transaction c))"
proof -
  let ?c = "(store_transaction wire_env genesis_transaction ^^ 70) CoinDatabase_new"
  have full: "coin_reachable wire_env ?c" "mempool_size ?c = 70" "dom (mempool_cache ?c) \<subseteq> {4164}"
    using store_transaction_repeat [of 70 wire_env genesis_transaction] by (simp_all only: genesis_transaction_hash) simp_all
  have "coin_step wire_env ?c (store_transaction wire_env spending_transaction ?c)" by (rule step_store_transaction) (rule refl)
  then have "(coin_step wire_env)\<^sup>*\<^sup>* ?c (store_transaction wire_env spending_transaction ?c)" by simp
  then have "dom (mempool_cache (store_transaction wire_env spending_transaction ?c)) \<subseteq> dom (mempool_cache ?c)"
    using full mempool_stays_full [of wire_env ?c] by simp
  with full have "hash_transaction wire_env spending_transaction \<notin> dom (mempool_cache (store_transaction wire_env spending_transaction ?c))"
    unfolding spending_transaction_hash by fastforce
  then show ?thesis by (simp only: Let_def) simp
qed

section \<open>Where the contract ends\<close>

text \<open>C34. Spending an output that is not there after it was looked for is undefined: the lookup of the validation leaves an
  empty record under the hash, the spend finds the record, does not find the index, and erases at the end of a
  vector.\<close>

theorem spend_after_failed_validation:
  assumes "coin_inv E c" "coin_key i \<notin> dom (coins E c)"
  shows "\<exists>c'. validate_input E i c = Inr (False, c') \<and> spend_input E i c' = Inl UB_erase_at_end"
proof -
  obtain c' where c': "validate_input E i c = Inr (False, c')" "only_reads E c c'"
    using validate_input_spec [OF assms(1), of i] assms(2) by auto
  have "map_of (main_cache c) (serialize_from_construct (reference_transaction_hash i) (utxo_index i)) = None"
    using assms(2) by (auto simp: coins_def coin_key_def cache_coins_def map_add_def domIff split: option.splits)
  then have "Database_has (to_string (unat (reference_transaction_hash i))) (coin_database c')"
    using c'(1) by (auto simp: validate_input_def case_prod_unfold db_simps res_bind_Inr_iff)
  then show ?thesis
    using c'(1) spend_input_absent [of E c' i] only_reads_same [OF c'(2)] assms by auto
qed

theorem spend_after_failed_validation_witness:
  "\<exists>c. validate_input wire_env (TransactionInput_new 4164 0 77) CoinDatabase_new = Inr (False, c) \<and>
     spend_input wire_env (TransactionInput_new 4164 0 77) c = Inl UB_erase_at_end"
  by (rule spend_after_failed_validation [OF coin_inv_new(1)]) (simp add: coin_inv_new(2))

text \<open>C27. A block is accepted whose transactions spend the same coins: while the coins are in the cache and the store has no record for
  their hashes, every transaction is validated in the same state, the first one spends the coin, the others pass over it, and
  each of them gets its outputs.\<close>

theorem double_spend_creates_coins:
  assumes "protobuf_runtime (runtime_of E)" "order_ok E" "coin_inv E c" "list_all (unrecorded (coin_database c)) txs"
    and "list_all (\<lambda>tx. list_all (\<lambda>i. coin_key i \<in> dom (coins E c)) (transaction_inputs tx)) txs"
    and "unat (main_cache_size c) + sum_list (map (\<lambda>tx. length (transaction_outputs tx)) txs) \<le> 70" "fresh_outputs E txs (coins E c)"
  shows "\<exists>c'. validate_and_store_block E txs c = Inr (True, c') \<and> coin_inv E c' \<and> coins E c' = utxo_steps E txs (coins E c)"
  by (rule double_spend_stores [OF assms])

theorem double_spend_creates_coins_witness:
  "\<exists>c c'. CoinDatabase_store_block wire_env [genesis_transaction] CoinDatabase_new = Inr c \<and>
     validate_and_store_block wire_env [spending_transaction, rival_transaction] c = Inr (True, c') \<and>
     map coin_key (transaction_inputs spending_transaction) = map coin_key (transaction_inputs rival_transaction) \<and>
     coins wire_env c' (4027, 0) = Some (TransactionOutput_new 40 555) \<and> coins wire_env c' (3877, 0) = Some (TransactionOutput_new 100 777)"
proof -
  obtain c where c: "CoinDatabase_store_block wire_env [genesis_transaction] CoinDatabase_new = Inr c"
    "coin_inv wire_env c" "coins wire_env c = genesis_coins" "coin_database c = Database_new" "unat (main_cache_size c) \<le> 3"
    by (rule genesis_cached)
  let ?txs = "[spending_transaction, rival_transaction]"
  have keys: "map coin_key (transaction_inputs spending_transaction) = [(4164, 0)]" "map coin_key (transaction_inputs rival_transaction) = [(4164, 0)]"
    "transaction_outputs spending_transaction = [TransactionOutput_new 40 555]" "transaction_outputs rival_transaction = [TransactionOutput_new 100 777]"
    by (simp_all add: spending_transaction_def rival_transaction_def Transaction_new_def TransactionInput_new_def coin_key_def)
  have spent: "coin_key ` set (transaction_inputs spending_transaction) = {(4164, 0)}" "coin_key ` set (transaction_inputs rival_transaction) = {(4164, 0)}"
    using arg_cong [OF keys(1), of set] arg_cong [OF keys(2), of set] by simp_all
  have "list_all (unrecorded (coin_database c)) ?txs"
    by (simp add: c(4) unrecorded_def Database_new_def Database_has_def list_all_iff)
  moreover have valid: "list_all (\<lambda>tx. list_all (\<lambda>i. coin_key i \<in> dom genesis_coins) (transaction_inputs tx)) ?txs"
    using genesis_spendable by (simp add: keys(1,2) flip: list.pred_map [unfolded comp_def, of "\<lambda>k. k \<in> dom genesis_coins" coin_key])
  moreover have "fresh_outputs wire_env ?txs (coins wire_env c)"
    by (auto simp: c(3) spending_transaction_hash rival_transaction_hash utxo_step_def genesis_coins_eq keys(3,4) spent dom_def split: if_splits)
  ultimately obtain c' where "validate_and_store_block wire_env ?txs c = Inr (True, c')" "coins wire_env c' = utxo_steps wire_env ?txs (coins wire_env c)"
    using double_spend_creates_coins [OF wire_env_runtime wire_env_order c(2), of ?txs] c(3,5) by (auto simp: keys)
  moreover have "utxo_steps wire_env ?txs genesis_coins (4027, 0) = Some (TransactionOutput_new 40 555)"
    "utxo_steps wire_env ?txs genesis_coins (3877, 0) = Some (TransactionOutput_new 100 777)"
    by (simp_all add: spending_transaction_hash rival_transaction_hash utxo_step_def keys(3,4) spent)
  ultimately show ?thesis using c(1,3) keys(1,2) by metis
qed

text \<open>C36. Undoing blocks undoes nothing: the loops of \<open>undo_coins\<close> go on while the index equals the
  size, so for blocks with transactions the state stays as it was.\<close>

theorem undo_coins_does_nothing:
  assumes "list_all (\<lambda>b. transaction_hashes b \<noteq> []) blocks"
  shows "undo_coins E blocks c = Inr c"
  by (rule undo_coins_nonempty [OF assms])

theorem undo_coins_does_nothing_witness:
  "undo_coins wire_env [UndoBlock_new [4027] [UndoCoinRecord_new 0 [0] [40] [555]]] CoinDatabase_new = Inr CoinDatabase_new"
  by (rule undo_coins_does_nothing) (simp add: UndoBlock_new_def)

end
