(* ===== verification/Storage_Properties.thy ===== *)
theory Storage_Properties
  imports Concrete
begin

text \<open>
  The properties of what the chain keeps on disk and in its key-value store: the append logs, the records
  that say where a block is, and the inputs on which the file code does something else than the chain relies on.
\<close>

section \<open>The append logs\<close>

lemma empty_fs_logs: "k \<le> 65535 \<Longrightarrow> block_log_ok k (ChainWriter_new, empty_fs)"
  "k \<le> 65535 \<Longrightarrow> undo_log_ok k (ChainWriter_new, empty_fs\<lparr>dirs := [''data'']\<rparr>)"
  "k \<le> 65535 \<Longrightarrow> writer_ok k (ChainWriter_new, empty_fs)"
  by (simp_all add: writer_ok_def block_log_ok_def undo_log_ok_def current_file_def ChainWriter_new_def empty_fs_def is_directory_def)

text \<open>C10. Any number of blocks, each shorter than a file, written one after the other across as many files as
  that takes, can all be read back afterwards from the locations the writes returned.\<close>

theorem block_log_read_back:
  assumes "block_log_ok (length xs + k) st" "list_all fits_file xs"
  shows "\<exists>ls st'. append_all log_block xs st = Some (ls, st') \<and> block_log_ok k st' \<and>
    map (\<lambda>loc. read_block loc (snd st')) ls = map Inr xs"
  by (rule block_log.append_all_look [OF assms])

theorem block_log_read_back_witness:
  "\<exists>ls st'. append_all log_block [''first'', replicate 996 CHR ''x'', ''third''] (ChainWriter_new, empty_fs) = Some (ls, st') \<and>
    map (\<lambda>loc. read_block loc (snd st')) ls = [Inr ''first'', Inr (replicate 996 CHR ''x''), Inr ''third'']"
  using block_log_read_back [of "[''first'', replicate 996 CHR ''x'', ''third'']" 0 "(ChainWriter_new, empty_fs)"]
  by (auto simp: empty_fs_logs fits_file_def)

text \<open>What was written for an undo block parses to the block with trimmed records.\<close>

lemma undo_block_read_back:
  assumes "protobuf_runtime rt" "length (undo_coin_records b) = length (transaction_hashes b)" "UndoBlock_serialize rt b = Inr u"
    and "UndoBlock_weight (undo_block_trim b) \<le> MAX_SIZE"
  shows "UndoBlock_deserialize rt u = Inr (undo_block_trim b)"
proof -
  have readable: "list_all undo_readable (undo_coin_records b)" and "UndoBlock_serialize rt (undo_block_trim b) = Inr u"
    using assms(3) by (simp_all add: undo_serialize_cases [OF assms(2)] split: if_splits)
  with protobuf_runtime.UndoBlock_deserialize_serialize [OF assms(1) undo_block_trim_ok [OF assms(2) readable] assms(4)] show ?thesis by simp
qed

text \<open>C11. Storing a block gives a record with the block's header, height and number of transactions whose two
  locations hold the serialised block and the serialised undo block; the block parses to what it was, and the undo block, unless it exceeds what the
  runtime parses, to the one that was made, each record cut to the number of its inputs.\<close>

theorem store_block_locates:
  assumes "protobuf_runtime rt" "writer_ok (Suc k) st" "Block_weight b < 1000"
    and "UndoBlock_serialize rt (make_undo_block rt g b) = Inr u" "fits_file u"
  shows "\<exists>r st'. ChainWriter_store_block rt g b h st = Inr (r, st') \<and> writer_ok k st' \<and>
    BlockRecord_block_header r = Block_block_header b \<and> height r = h \<and> num_transactions r = of_nat (length (transactions b)) \<and>
    res_bind (read_block (block_location r) (snd st')) (Block_deserialize rt) = Inr (Some b) \<and>
    read_undo_block (undo_location r) (snd st') = Inr u \<and>
    (UndoBlock_weight (undo_block_trim (make_undo_block rt g b)) \<le> MAX_SIZE \<longrightarrow>
       UndoBlock_deserialize rt u = Inr (undo_block_trim (make_undo_block rt g b)))"
proof -
  have w: "Block_weight b \<le> MAX_SIZE" using assms(3) by (simp add: MAX_SIZE_def INT_MAX_def)
  have "fits_file (Block_serialize rt b)"
    using protobuf_runtime.Block_serialize_wire(2) [OF assms(1) w] assms(3) by (simp add: fits_file_def)
  note stored = store_block_ok [OF assms(2) this assms(4,5), of h]
  have "UndoBlock_deserialize rt u = Inr (undo_block_trim (make_undo_block rt g b))"
    if "UndoBlock_weight (undo_block_trim (make_undo_block rt g b)) \<le> MAX_SIZE"
    by (rule undo_block_read_back [OF assms(1) _ assms(4) that]) (simp add: make_undo_block_lengths)
  with stored show ?thesis
    using protobuf_runtime.Block_deserialize_serialize [OF assms(1) w]
    by (fastforce simp: read_undo_block_def dest!: located_read)
qed

theorem store_block_locates_witness:
  "\<exists>r st'. ChainWriter_store_block wire_format cleared second_block 2 (ChainWriter_new, empty_fs) = Inr (r, st') \<and>
    height r = 2 \<and> res_bind (read_block (block_location r) (snd st')) (Block_deserialize wire_format) = Inr (Some second_block)"
proof -
  obtain u where "UndoBlock_serialize wire_format (make_undo_block wire_format cleared second_block) = Inr u" "fits_file u"
    using block_ok_fits(3) [OF wire_env_runtime second_ok] by auto
  then show ?thesis
    using store_block_locates [OF wire_runtime empty_fs_logs(3) [of "Suc 0"], of second_block cleared u 2] by (auto simp: second_weight)
qed

section \<open>Where the logs stop being logs\<close>

text \<open>C37. A block in which the transactions up to some point have more inputs than outputs cannot be stored:
  writing its undo block reads past the end of a vector, after the block itself was written.\<close>

theorem store_block_more_inputs_undefined:
  assumes "writer_ok (Suc k) st" "fits_file (Block_serialize rt b)"
    and "i < length (transactions b)" "outputs_upto (Suc i) (transactions b) < inputs_upto (Suc i) (transactions b)"
  shows "ChainWriter_store_block rt g b h st = Inl UB_index_out_of_range"
proof -
  obtain w fs where st: "st = (w, fs)" by (cases st)
  have "block_log_ok (Suc k) (w, fs)" using assms(1) by (simp add: writer_ok_def st)
  from write_block_ok [OF this assms(2)] obtain loc st' where "write_block (Block_serialize rt b) st = Inr (Some loc, st')"
    by (auto simp: st)
  moreover have "\<not> list_all undo_readable (undo_coin_records (make_undo_block rt g b))"
    unfolding make_undo_block_readable using assms(3,4) leD by blast
  ultimately show ?thesis
    by (simp add: ChainWriter_store_block_def undo_serialize_cases make_undo_block_lengths)
qed

theorem store_block_more_inputs_undefined_witness:
  "ChainWriter_store_block wire_format cleared (Block_new (BlockHeader_new 1 4539 0 0 0 0)
     [Transaction_new [TransactionInput_new 4164 0 77] [] 0 0]) 2 (ChainWriter_new, empty_fs) = Inl UB_index_out_of_range"
proof (rule store_block_more_inputs_undefined [OF empty_fs_logs(3), of 0 _ _ 0])
  let ?b = "Block_new (BlockHeader_new 1 4539 0 0 0 0) [Transaction_new [TransactionInput_new 4164 0 77] [] 0 0]"
  have w: "Block_weight ?b = 84" by (simp add: Block_weight_def Block_new_def Transaction_weight_def Transaction_new_def)
  then have "Block_weight ?b \<le> MAX_SIZE" by (simp add: MAX_SIZE_def INT_MAX_def)
  from protobuf_runtime.Block_serialize_wire(2) [OF wire_runtime this] show "fits_file (Block_serialize wire_format ?b)"
    by (simp add: fits_file_def w)
qed (simp_all add: Block_new_def Transaction_new_def inputs_upto_def outputs_upto_def)

text \<open>What a write does in general: it may start the next file, and it appends.\<close>

definition rolls :: "string \<Rightarrow> ChainWriter \<Rightarrow> bool" where
  "rolls s w \<longleftrightarrow> (ucast get_max_block_file_size - ucast (current_block_offset w) :: uint32) \<le> of_nat (length s + 1)"

definition rolled :: "string \<Rightarrow> ChainWriter \<Rightarrow> ChainWriter" where
  "rolled s w = (if rolls s w then w\<lparr>current_block_offset := 0, current_block_file_number := current_block_file_number w + 1\<rparr> else w)"

lemma write_block_appends:
  fixes s :: string and w :: ChainWriter
  assumes "denied fs = []" "is_directory ''data'' fs \<or> files fs ''data'' = None"
  defines "p \<equiv> block_path (current_block_file_number (rolled s w))" and "off \<equiv> current_block_offset (rolled s w)"
    and "stop \<equiv> ucast (ucast (current_block_offset (rolled s w)) + (of_nat (length s + 1) :: uint32))"
  shows "\<exists>fs'. write_block s (w, fs) = Inr (Some (FileInfo_new p off stop), (rolled s w)\<lparr>current_block_offset := stop\<rparr>, fs') \<and>
    denied fs' = [] \<and> is_directory ''data'' fs' \<and>
    files fs' p = Some ((case files fs p of None \<Rightarrow> '''' | Some c \<Rightarrow> c) @ bytes_written (of_nat (length s + 1)) s)"
proof -
  obtain fs0 where fs0: "(if \<not> is_directory ''data'' fs then create_directory ''data'' fs else Inr fs) = Inr fs0"
    "denied fs0 = []" "is_directory ''data'' fs0" "files fs0 = files fs"
    using mkdir_ok [OF assms(1,2)] by blast
  obtain fs1 where fs1: "fopen_append p fs0 = Some fs1"
    using fopen_append_ok [OF fs0(2,3)] directory_of_paths unfolding p_def by blast
  let ?fs' = "fwrite p (bytes_written (of_nat (length s + 1)) s) fs1"
  have "write_block s (w, fs) = Inr (Some (FileInfo_new p off stop), (rolled s w)\<lparr>current_block_offset := stop\<rparr>, ?fs')"
    using fs1 unfolding write_block_def prod.case Let_def rolls_def [symmetric] rolled_def [symmetric] get_data_directory_def
      fs0(1) res_bind_simps p_def off_def stop_def by simp
  then show ?thesis
    using fs1 fs0 by (auto simp: fwrite_def fopen_append_def is_directory_def split: if_splits)
qed

text \<open>C38. The room left in a block file is an unsigned difference: after a block of a thousand bytes or more, which
  fills a file past its limit, the next block goes into the same file, although it is full.\<close>

theorem oversized_block_defeats_rollover:
  assumes "block_log_ok (Suc k) (w, fs)" "1000 \<le> length s" "length s < 65535" "length t < 2 ^ 31"
  shows "\<exists>loc st loc' st'. write_block s (w, fs) = Inr (Some loc, st) \<and> write_block t st = Inr (Some loc', st') \<and>
    file_name loc' = file_name loc"
proof -
  have ok: "denied fs = []" "is_directory ''data'' fs \<or> files fs ''data'' = None" "unat (current_block_offset w) \<le> 1000"
    using assms(1) by (simp_all add: block_log_ok_def)
  have "unat (of_nat (length s + 1) :: uint32) = length s + 1"
    using assms(3) by (simp only: unat_of_nat) (simp add: take_bit_nat_eq_self)
  then have "rolls s w"
    unfolding rolls_def get_max_block_file_size_def word_le_nat_alt room_left [OF ok(3)] using assms(2) by simp
  then have w: "rolled s w = w\<lparr>current_block_offset := 0, current_block_file_number := current_block_file_number w + 1\<rparr>"
    by (simp add: rolled_def)
  define stop :: uint16 where "stop = ucast (ucast (0 :: uint16) + (of_nat (length s + 1) :: uint32))"
  have stop: "unat stop = length s + 1"
    unfolding stop_def using assms(3) by (subst stop_offset) simp_all
  let ?w = "(rolled s w)\<lparr>current_block_offset := stop\<rparr>" and ?p = "block_path (current_block_file_number w + 1)"
  obtain fs1 where fs1: "write_block s (w, fs) = Inr (Some (FileInfo_new ?p 0 stop), ?w, fs1)" "denied fs1 = []" "is_directory ''data'' fs1"
    using write_block_appends [OF ok(1,2), of s w] by (auto simp: w stop_def simp del: of_nat_add)
  have "unat (ucast (1000 :: uint16) - ucast stop :: uint32) = 2 ^ 32 + 1000 - (length s + 1)"
    using stop assms(2,3) by (simp add: unat_sub_if' unsigned_ucast_eq take_bit_nat_eq_self)
  moreover have "unat (of_nat (length t + 1) :: uint32) = length t + 1"
    using assms(4) by (simp only: unat_of_nat) (simp add: take_bit_nat_eq_self)
  ultimately have "\<not> rolls t ?w"
    unfolding rolls_def get_max_block_file_size_def word_le_nat_alt using assms(3,4) by (simp del: of_nat_add)
  then have "current_block_file_number (rolled t ?w) = current_block_file_number w + 1"
    unfolding rolled_def [of t] by (simp add: w)
  then show ?thesis
    using write_block_appends [OF fs1(2) disjI1 [OF fs1(3)], of t ?w] fs1(1) by (auto simp: FileInfo_file_name)
qed

theorem oversized_block_defeats_rollover_witness:
  "\<exists>loc st loc' st'. write_block (replicate 1000 CHR ''x'') (ChainWriter_new, empty_fs) = Inr (Some loc, st) \<and>
    write_block ''y'' st = Inr (Some loc', st') \<and> file_name loc' = file_name loc"
  by (rule oversized_block_defeats_rollover [OF empty_fs_logs(1), of 0]) simp_all

text \<open>C39. The counters of the writer start at zero in every process, but the files are appended to: the first block
  of a new process is written after what is there, and its location reads back the old bytes.\<close>

theorem restart_reads_old_bytes:
  assumes "denied fs = []" "is_directory ''data'' fs" "files fs (block_path 0) = Some c"
    and "length s < 999" "length s \<le> length c"
  shows "\<exists>loc st'. write_block s (ChainWriter_new, fs) = Inr (Some loc, st') \<and>
    read_block loc (snd st') = Inr (take (length s) c)"
proof -
  have N: "unat (of_nat (length s + 1) :: uint32) = length s + 1" using assms(4) by (intro unat_size) simp
  have "\<not> rolls s ChainWriter_new"
    unfolding rolls_def word_le_nat_alt N using assms(4) by (simp add: ChainWriter_new_def get_max_block_file_size_def)
  then have w: "rolled s ChainWriter_new = ChainWriter_new" by (simp add: rolled_def)
  define stop :: uint16 where "stop = ucast (ucast (0 :: uint16) + (of_nat (length s + 1) :: uint32))"
  have stop: "unat stop = length s + 1"
    unfolding stop_def using assms(4) by (subst stop_offset) simp_all
  have "length s < 1000" using assms(4) by simp
  note bytes = bytes_written_all [OF this]
  obtain fs1 where fs1: "write_block s (ChainWriter_new, fs) =
      Inr (Some (FileInfo_new (block_path 0) 0 stop), ChainWriter_new\<lparr>current_block_offset := stop\<rparr>, fs1)"
    "denied fs1 = []" "files fs1 (block_path 0) = Some (c @ s @ [CHR 0x00])"
    using write_block_appends [OF assms(1) disjI1 [OF assms(2)], of s ChainWriter_new] assms(3)
    unfolding w bytes by (auto simp: ChainWriter_new_def stop_def simp del: of_nat_add)
  have "read_block (FileInfo_new (block_path 0) 0 stop) fs1 = Inr (take (length s) c)"
    using assms(5) fs1(2,3) stop by (simp add: read_block_def FileInfo_new_def fopen_read_def nat_add_distrib)
  with fs1(1) show ?thesis by auto
qed

theorem restart_reads_old_bytes_witness:
  "\<exists>loc st'. write_block ''new'' (ChainWriter_new, \<lparr>dirs = [''data''], files = [block_path 0 \<mapsto> ''old bytes''], denied = []\<rparr>) = Inr (Some loc, st') \<and>
    read_block loc (snd st') = Inr ''old''"
  using restart_reads_old_bytes [of "\<lparr>dirs = [''data''], files = [block_path 0 \<mapsto> ''old bytes''], denied = []\<rparr>" "''old bytes''" "''new''"]
  by (simp add: is_directory_def)

section \<open>Block records\<close>

text \<open>After a record was stored under a hash, that record is found there, and under every other hash what was found before.\<close>

lemma block_record_get_store:
  assumes "protobuf_runtime rt" "BlockRecord_ok r"
  shows "\<exists>d'. get_block_record rt h (store_block_record rt h r d) = Inr (r, d') \<and>
    (\<forall>h'. h' \<noteq> h \<longrightarrow> record_of rt d' h' = record_of rt d h')"
proof -
  have "record_of rt (store_block_record rt h r d) h = Inr r"
    using protobuf_runtime.BlockRecord_deserialize_serialize [OF assms] by (simp add: record_of_store)
  then obtain d' where d': "get_block_record rt h (store_block_record rt h r d) = Inr (r, d')"
    by (simp add: get_block_record_eq)
  then show ?thesis using get_block_record_same [OF d'] by (auto simp: record_of_store)
qed

end
