(* ===== verification/Rebroadcast.thy ===== *)
theory Rebroadcast
  imports Concrete
begin

text \<open>
  A concrete story in which the last shared block has transactions with inputs: a fork on top of \<open>second_block\<close> takes over, and with
  it the transaction of \<open>second_block\<close> is applied again. That works as long as nobody has sent the transaction again.
\<close>

section \<open>Another block on the second one\<close>

definition idle_transaction :: Transaction where
  "idle_transaction = Transaction_new [] [] 0 0"

definition idle_block :: Block where
  "idle_block = Block_new (BlockHeader_new 1 3969 0 0 0 0) [idle_transaction]"

lemma idle_weight: "Block_weight idle_block \<le> 100"
  by (simp add: idle_block_def idle_transaction_def Block_new_def Block_weight_def Transaction_weight_def Transaction_new_def)

lemma idle_get: "transactions idle_block = [idle_transaction]" "get_transactions idle_block = [idle_transaction]"
  by (simp_all add: idle_block_def idle_transaction_def get_transactions_eq Block_new_def Transaction_new_def)

lemma idle_previous: "previous_block_hash (Block_block_header idle_block) = 3969"
  by (simp add: idle_block_def Block_new_def BlockHeader_new_def)

lemma idle_bytes: "map of_char (Block_serialize wire_format idle_block) = [10, 5, 8, 1, 16, 129, 31, 18, 0 :: int]"
  by (subst protobuf_runtime.Block_serialize_wire(1) [OF wire_runtime])
    (use idle_weight in \<open>simp add: MAX_SIZE_def INT_MAX_def\<close>, simp add: idle_block_def idle_transaction_def wire_eval)

lemma idle_ihash: "ihash [10, 5, 8, 1, 16, 129, 31, 18, 0] = 3920"
  by (simp add: ihash_runs hash_eval iK8_eval iH0_eval ibytes_sum_def)

lemma idle_hash: "hash_block wire_env idle_block = 3920"
  by (simp add: hash_block_def hash_string [OF idle_bytes idle_ihash])

lemma idle_ok: "block_ok wire_env idle_block"
proof -
  let ?rec = "UndoBlock_weight (undo_block_trim (make_undo_block wire_format cleared idle_block))"
  have "?rec < 1000"
    by (simp add: make_undo_block_def idle_get make_undo_step_def Let_def undo_block_trim_def undo_trim_def UndoBlock_new_def UndoCoinRecord_new_def
      UndoBlock_weight_def UndoCoinRecord_weight_def idle_transaction_def Transaction_new_def)
  then show ?thesis using idle_weight
    by (simp add: block_ok_def) (simp add: idle_get inputs_upto_def outputs_upto_def idle_transaction_def Transaction_new_def)
qed

section \<open>The run\<close>

definition idle_chain :: "message list" where
  "idle_chain = [NewBlock second_block, NewBlock idle_block, NewBlock third_block]"

definition idle_ledger :: ledger where
  "idle_ledger = \<lparr>main_chain = [construct_genesis_block, second_block, idle_block], unspent = second_coins,
     heights = (\<lambda>_. 0)(4539 := 1, 3969 := Suc 1, 3920 := Suc (Suc 1), 4459 := Suc (Suc 1)),
     known = [4539 \<mapsto> construct_genesis_block, 3969 \<mapsto> second_block, 3920 \<mapsto> idle_block, 4459 \<mapsto> third_block],
     undo_kept = {4539, 3969, 3920}, created = 4, probed = {}\<rparr>"

lemmas idle_eval = ledger_eval idle_hash idle_previous idle_get idle_ok

lemma idle_inputs: "transaction_inputs idle_transaction = []" "transaction_outputs idle_transaction = []" "outputs_of [idle_transaction] = 0"
  by (simp_all add: idle_transaction_def Transaction_new_def)

lemma idle_replay: "replay wire_env P [idle_transaction] m = Inr m"
  by (auto simp: replay_def replay_transaction_def idle_inputs new_outputs_def map_add_def fun_eq_iff split: option.splits)

lemma idle_run: "deliverables wire_env idle_chain (genesis_ledger wire_env)"
  "ledger_messages wire_env idle_chain (genesis_ledger wire_env) = Inr idle_ledger"
  by (simp_all add: idle_chain_def wire_genesis_ledger idle_ledger_def append_block_def remember_block_def look_def Let_def idle_eval
      replay_applicable [OF second_applicable] storable_def spending_lookups second_lookups idle_replay idle_inputs spendable_def [of _ idle_block]
      insert_commute flip: second_coins_def del: utxo_steps.simps txs_applicable.simps outputs_of_simps)

lemma idle_rival: "rival fourth_block idle_ledger = [construct_genesis_block, second_block, third_block]"
  by (simp add: rival_def idle_ledger_def idle_eval)

lemma idle_shared: "fork_point wire_env (main_chain idle_ledger) (rival fourth_block idle_ledger) = 2"
  "shared_block wire_env fourth_block idle_ledger = second_block"
  unfolding shared_block_def idle_rival by (simp_all add: fork_point_def idle_ledger_def idle_eval)

lemma idle_higher: "parent fourth_block \<noteq> hash_block wire_env (last (main_chain idle_ledger))"
  "length (main_chain idle_ledger) < Suc (heights idle_ledger (parent fourth_block))" "undo_possible wire_env idle_ledger"
  by (simp_all add: idle_ledger_def idle_eval undo_possible_def)

lemma idle_delivered: "deliverable wire_env (NewBlock fourth_block) idle_ledger"
proof -
  have "\<forall>i < length [construct_genesis_block, second_block, third_block].
      heights idle_ledger (hash_block wire_env ([construct_genesis_block, second_block, third_block] ! i)) = Suc i"
    by (auto simp: idle_ledger_def less_Suc_eq idle_eval)
  then show ?thesis
    using idle_shared unfolding deliverable.simps Let_def idle_rival
    by (simp add: idle_eval del: outputs_of_simps) (simp add: idle_ledger_def idle_eval)
qed

lemma idle_state:
  obtains ch fs ch' fs' where "Chain_new wire_env empty_fs = Inr (ch, fs)"
    "res_fold (handle_message wire_env) idle_chain (ch, fs) = Inr (ch', fs')" "ledger_holds wire_env (Suc (Suc 7)) idle_ledger (ch', fs')"
proof -
  have "length idle_chain + Suc (Suc 7) < 65535" by (simp add: idle_chain_def)
  from run_state [OF idle_run this] that show ?thesis by blast
qed

text \<open>Without the transaction the take-over goes through: its output is not created again, and its input is passed over.\<close>

lemma second_replay: "replay wire_env {} [spending_transaction] second_coins = Inr second_coins"
proof -
  have "coin_key (TransactionInput_new 4164 0 77) = (4164, 0)" by (simp add: coin_key_def TransactionInput_new_def)
  then have "coin_key (TransactionInput_new 4164 0 77) \<notin> dom second_coins" using second_coins_at(1) by (simp add: domIff)
  then have "res_fold (replay_input {}) (transaction_inputs spending_transaction) second_coins = Inr second_coins"
    by (simp add: spending_transaction_def Transaction_new_def replay_input_def)
  moreover have "new_outputs 4027 (transaction_outputs spending_transaction) ++ second_coins = second_coins"
  proof
    fix k
    show "(new_outputs 4027 (transaction_outputs spending_transaction) ++ second_coins) k = second_coins k"
      using second_coins_at(3) by (cases k)
        (auto simp: new_outputs_def map_add_def spending_transaction_def Transaction_new_def unsigned_eq_0_iff split: option.splits)
  qed
  ultimately show ?thesis by (simp add: replay_def replay_transaction_def spending_transaction_hash)
qed

definition overtaken_ledger :: ledger where
  "overtaken_ledger = switch_chain wire_env fourth_block second_coins idle_ledger"

lemma idle_taken_over: "ledger_message wire_env (NewBlock fourth_block) idle_ledger = Inr overtaken_ledger"
proof -
  have "look (block_inputs (transactions fourth_block)) idle_ledger = idle_ledger" by (simp add: idle_eval)
  moreover have "probed idle_ledger = {}" "unspent idle_ledger = second_coins" by (simp_all add: idle_ledger_def)
  ultimately show ?thesis
    using idle_higher by (simp add: Let_def idle_shared idle_eval second_replay overtaken_ledger_def)
qed

lemma overtaken_parts: "main_chain overtaken_ledger = [construct_genesis_block, second_block, third_block, fourth_block]"
  "unspent overtaken_ledger = second_coins"
  by (simp_all add: overtaken_ledger_def switch_chain_def idle_rival)

end
