(* ===== verification/Spec2Isabelle.thy ===== *)
theory Spec2Isabelle
  imports Codec_Properties Coin_Properties Storage_Properties Rebroadcast
begin

text \<open>
  CryptBank is the storage of a small blockchain. A \<open>Chain\<close> owns a \<open>BlockInfoDatabase\<close>, a
  \<open>ChainWriter\<close> and a \<open>CoinDatabase\<close>. A block that arrives is validated against the coins; on top of the
  last block it is stored: its transactions go to the coin database, its bytes and those of its undo
  block to files, and a record of both locations goes, under the hash of the block, to the block-info
  database. Elsewhere it is written beside the active chain, and takes over when its own chain becomes the longer one. Both
  databases sit on one key-value store class, and everything stored is serialised through generated
  protocol-buffer messages.

  The theories, in the order in which they build on each other (paths are below \<open>core/src\<close>, with the
  headers in \<open>core/include\<close>):

  \<^item> \<open>Prelude\<close>: the fixed-width integers, \<open>cpp_error\<close> and \<open>'a result\<close> (an exception or
    undefined behaviour is a value \<open>Inl e\<close>), the vector and string functions of the standard library
    that the code calls, the collections of simplification rules.
  \<^item> \<open>Db\<close>: \<open>db/db.cpp\<close>. \<open>Database\<close> is a map; \<open>get\<close> inserts what it does not find. The
    locale \<open>kv_store\<close> is what the other databases rely on, \<open>dbkv\<close> its interpretation.
  \<^item> \<open>Fips_Constants\<close>, \<open>Crypto\<close>: \<open>crypto/cryptcrypto.cpp\<close>, and SHA-256 as FIPS 180-4 defines it, its constants described as digits of
    the roots of primes, which the streaming code is proved to compute. \<open>Hash_Eval\<close> evaluates the hash on concrete messages.
  \<^item> \<open>Proto_Runtime\<close>, \<open>Proto_Tx\<close>, \<open>Proto_Block\<close>, \<open>Proto_Coin\<close>: \<open>proto/crypt.pb.cc\<close> and
    \<open>crypt.pb.h\<close>, for the nine messages the accessors, \<open>Clear\<close>, \<open>MergeFrom\<close>, \<open>ByteSizeLong\<close>,
    \<open>_InternalSerialize\<close> and \<open>_InternalParse\<close>. The runtime they call is not in the repository: it is an
    argument of type \<open>runtime\<close>, and the locale \<open>protobuf_runtime\<close> states its documented
    behaviour. \<open>Wire_Format\<close> interprets it by a runtime that reads and writes the wire format.
  \<^item> \<open>Primitives\<close>: \<open>primitives/*.cpp\<close>, blocks, headers, transactions, inputs and outputs, their
    serialisation and the copies \<open>get_transactions\<close> makes.
  \<^item> \<open>Coin_Records\<close>: \<open>coin_database/coin.cpp\<close>, \<open>coin_record.cpp\<close>, \<open>undo_coin_record.cpp\<close>,
    \<open>chain_writer/undo_block.cpp\<close> and the \<open>CoinLocator\<close> of \<open>coin_database.cpp\<close>.
  \<^item> \<open>Block_Info\<close>: \<open>block_info_database/*.cpp\<close> and \<open>chain_writer/file_info.cpp\<close>.
  \<^item> \<open>File_System\<close>, \<open>Chain_Writer\<close>: directories and files as maps, and
    \<open>chain_writer/chain_writer.cpp\<close>. The locale \<open>append_log\<close> states what a log of records promises
    (what was appended stays where it is); the block files and the undo files interpret it.
  \<^item> \<open>Coin_Database\<close>: the rest of \<open>coin_database/coin_database.cpp\<close>. \<open>Coin_Spec\<close> states its
    contract: \<open>coins\<close> maps a transaction hash and an output index to the unspent output, wherever it is kept,
    and each operation refines an operation on that map; \<open>coin_step\<close> is the step relation of all
    public operations, with invariants of every reachable state.
  \<^item> \<open>Simulation\<close>: runs of messages against a description that says of each message what becomes of the state, or which
    undefined behaviour is met (\<open>agree\<close>: both fail alike or both return). The locale \<open>simulation\<close> proves for runs what holds of each step; \<open>Chain_Spec\<close>
    interprets it for blocks that extend the chain (\<open>extension\<close>), \<open>Ledger\<close> for all messages (\<open>node\<close>).
  \<^item> \<open>Chain\<close>: \<open>chain/chain.cpp\<close>. \<open>Chain_Spec\<close> states what a chain holds: \<open>chain_reads E k bs\<close>
    relates a state to the list \<open>bs\<close> of its blocks (linked by hashes, each with its record, height and
    readable bytes, no two with the same hash), with room for \<open>k\<close> more files, which is what the queries need;
    \<open>chain_holds E k bs\<close> adds the invariant of the coin database and an undo block on file for each block.
  \<^item> \<open>Chain_Forks\<close>: blocks that are not on the last one, which are stored beside the chain. \<open>Double_Spend\<close>:
    blocks whose transactions spend coins that are still in the cache, and transactions stored a second time.
    \<open>Reorganisation\<close>: a block that comes higher than the chain is long, with the walk down the branch
    to the last shared block, the undo queue, and what the take-over does to the coins. \<open>Replay\<close>: what storing any list of
    transactions does before the first flush, applicable or not, which the coin database is proved to follow.
  \<^item> \<open>Ledger\<close>: the node as a whole. A \<open>ledger\<close> is the list of blocks of the active chain, a map of unspent
    outputs, all known blocks with their heights, and the hashes that were looked up in vain; \<open>ledger_message\<close> is what a
    message does to it, or the undefined behaviour the program runs into. \<open>ledger_holds\<close> couples it with the state of the program, and every message keeps the coupling.
  \<^item> \<open>Concrete\<close>: a runtime, a file system, blocks and transactions, with their hashes evaluated, on which the witnesses run; \<open>Rebroadcast\<close>
    adds a story in which a transaction is sent twice.
  \<^item> \<open>Codec_Properties\<close>, \<open>Coin_Properties\<close>, \<open>Storage_Properties\<close> and this theory: the
    properties, each with its number.

  What the groups of lemmas show. Encoding: every message and every class is read back as it was
  written, for every runtime with the documented behaviour, the size computed beforehand is the number
  of bytes written, and the parsers return on every input. Hash: the code computes SHA-256 and returns the sum of its
  bytes. Coins: storing, validating and flushing refine a map of unspent outputs. Files: what was written
  is read back from the location the write returned, across any number of files. Chain: handling a block on top of the
  chain appends it to the list of blocks and applies its transactions, invalid blocks change nothing, the
  queries return what the list says; together, constructing a chain and handling any sequence of messages the
  contract covers simulates the ledger: blocks that extend the chain or are refused, blocks beside it, again or of unknown
  origin, branches that take over or cannot, transactions. Several properties take one of these cases and say what it means, where it
  is not what one would expect: a take-over, a block that arrives again, an unknown predecessor. The others say what the code
  does where the contract ends: undoing, restarts, oversized blocks, a full mempool.

  Bounds. A block of \<open>Block_weight\<close> below 1000 fits a file of \<open>_max_block_file_size\<close> bytes; that is more
  than the number of bytes it serialises to, and far below the \<open>INT_MAX\<close> at which the runtime refuses a
  message. File numbers are 16 bits wide, hence the counter \<open>k\<close>, which a run of 65535 blocks exhausts at the earliest.
  The cache of the coin database is flushed at 70 coins. Up to that number of outputs the ledger covers everything that can be stored, also
  transactions that spend what is spent or create what exists; beyond it, blocks whose transactions are applicable one after the other, but no
  take-over: that would create outputs a second time that the store has already, and there would be two coins for one key. Loops over the
  active chain use an \<open>int\<close> that starts at the 32-bit length, so they are correct below \<open>2 ^ 31\<close> blocks. The parse
  loops are partial functions: not returning is \<open>None\<close>, and that it does not happen is a lemma. There is
  no fuel elsewhere: all other loops run over a list or count down.

  What is abstracted. Vectors and owned pointers are values; a pointer that the code
  dereferences without a test is an option where it can be null. Strings are lists of bytes. The order in which an \<open>unordered_map\<close> is
  walked is a parameter (\<open>order_of\<close>), constrained to be a permutation. Uninitialised memory that is read by the hash is
  a parameter (\<open>garbage\<close>), the same at each call. Files are complete as soon as they are written. The cache of a message's size is
  part of the message.

  Not modelled. The mutex of \<open>Database\<close>: its operations are atomic here. Descriptors, reflection,
  arenas and registration in the generated code: they carry no data of the program. \<open>get_all_utxo\<close> of
  \<open>Chain\<close> and \<open>CoinDatabase\<close>: declared, without a body. Memory exhaustion, and the array that the hash allocates and
  never releases. Tests and build files.
\<close>

section \<open>The node\<close>

text \<open>C1. The program is a node as the ledger describes it: constructed on a file system without data files and given any sequence of
  blocks and transactions the contract covers (blocks that extend the chain, double spends included, blocks that are refused because an
  input is not unspent, blocks beside the chain or stored again, branches that take over, transactions), it answers every message and ends in a state that
  holds the blocks, the unspent outputs and the heights of the ledger, with every known block recorded and readable from the files; only where
  the ledger says so, because the old chain cannot be undone or an input cannot be applied again, does the program run into undefined behaviour
  instead, and it is the one the ledger names.\<close>

theorem node_refines_ledger:
  assumes "protobuf_runtime (runtime_of E)" "order_ok E" "fresh_fs fs" "length msgs + k < 65535"
    and "deliverables E msgs (genesis_ledger E)"
  shows "\<exists>ch fs0. Chain_new E fs = Inr (ch, fs0) \<and>
    (case ledger_messages E msgs (genesis_ledger E) of
       Inl e \<Rightarrow> res_fold (handle_message E) msgs (ch, fs0) = Inl e
     | Inr L \<Rightarrow> \<exists>st. res_fold (handle_message E) msgs (ch, fs0) = Inr st \<and> ledger_holds E k L st)"
  by (rule node_run [OF assms])

theorem node_refines_ledger_witness:
  "\<exists>ch fs0 ch' fs'. Chain_new wire_env empty_fs = Inr (ch, fs0) \<and>
     res_fold (handle_message wire_env)
       [NewTransaction spending_transaction, NewBlock bad_block, NewBlock second_block, NewBlock fork_block, NewBlock fork_tip, NewBlock rival_block]
       (ch, fs0) = Inr (ch', fs') \<and>
     chain_reads wire_env 9 [construct_genesis_block, fork_block, fork_tip, rival_block] (ch', fs') \<and>
     coins wire_env (chain_coin_database ch') (4027, 0) = Some (TransactionOutput_new 40 555) \<and>
     coins wire_env (chain_coin_database ch') (3877, 0) = Some (TransactionOutput_new 100 777)"
proof -
  have "length reorganisation + 9 < 65535" by (simp add: reorganisation_def reorganised_chain_def delivery_def)
  from node_refines_ledger [OF wire_env_runtime wire_env_order empty_fs_fresh this reorganisation_ledger(1)]
  obtain ch fs0 ch' fs' where run: "Chain_new wire_env empty_fs = Inr (ch, fs0)"
    "res_fold (handle_message wire_env) reorganisation (ch, fs0) = Inr (ch', fs')" "ledger_holds wire_env 9 rival_ledger (ch', fs')"
    by (auto simp: reorganisation_ledger(2))
  note L = ledger_holds_parts [OF run(3)]
  have "main_chain rival_ledger = [construct_genesis_block, fork_block, fork_tip, rival_block]"
    "unspent rival_ledger = utxo_steps wire_env [rival_transaction] forked_coins"
    by (simp_all add: rival_ledger_def append_block_def forked_ledger_def fork_get)
  moreover have "utxo_steps wire_env [rival_transaction] forked_coins (4027, 0) = Some (TransactionOutput_new 40 555)"
    "utxo_steps wire_env [rival_transaction] forked_coins (3877, 0) = Some (TransactionOutput_new 100 777)"
    using forked_coins_at by (simp_all add: utxo_step_def rival_transaction_hash)
      (simp_all add: rival_transaction_def Transaction_new_def TransactionInput_new_def coin_key_def)
  moreover have "reorganisation = [NewTransaction spending_transaction, NewBlock bad_block, NewBlock second_block, NewBlock fork_block,
      NewBlock fork_tip, NewBlock rival_block]"
    by (simp add: reorganisation_def reorganised_chain_def delivery_def)
  ultimately show ?thesis using run(1,2) L(1,3) by metis
qed

section \<open>The chain follows the list of its blocks\<close>

text \<open>C2. A run of blocks, each valid and on top of the one before, extends the chain block by block: the state then
  represents the longer list (every block recorded with its height, readable from the files, the
  invariants of the writer and of the coin database kept, room for \<open>k\<close> more), and the unspent outputs are what the
  transactions of those blocks make of the ones before.\<close>

theorem blocks_extend_chain:
  assumes "protobuf_runtime (runtime_of E)" "order_ok E" "chain_holds E (length news + k) bs (ch, fs)"
    and "extends_chain E bs news (coins E (chain_coin_database ch))"
  shows "\<exists>ch' fs'. res_fold (handle_block E) news (ch, fs) = Inr (ch', fs') \<and> chain_holds E k (bs @ news) (ch', fs') \<and>
    coins E (chain_coin_database ch') = utxo_of_blocks E news (coins E (chain_coin_database ch))"
  by (rule handle_blocks_extend [OF assms])

theorem blocks_extend_chain_witness:
  "\<exists>ch fs ch' fs'. Chain_new wire_env empty_fs = Inr (ch, fs) \<and>
     res_fold (handle_block wire_env) [second_block] (ch, fs) = Inr (ch', fs') \<and>
     chain_holds wire_env 8 [construct_genesis_block, second_block] (ch', fs') \<and>
     coins wire_env (chain_coin_database ch') (4164, 0) = None \<and>
     coins wire_env (chain_coin_database ch') (4027, 0) = Some (TransactionOutput_new 40 555)"
proof -
  obtain ch fs where g: "Chain_new wire_env empty_fs = Inr (ch, fs)" "chain_holds wire_env (length [second_block] + 8) [construct_genesis_block] (ch, fs)"
    "coins wire_env (chain_coin_database ch) = genesis_coins"
    using genesis_state by (metis One_nat_def Suc_eq_plus1 add.commute eval_nat_numeral(3) list.size(3) list.size(4) plus_1_eq_Suc)
  obtain ch' fs' where e: "res_fold (handle_block wire_env) [second_block] (ch, fs) = Inr (ch', fs')"
    "chain_holds wire_env 8 [construct_genesis_block, second_block] (ch', fs')"
    "coins wire_env (chain_coin_database ch') = utxo_steps wire_env [spending_transaction] genesis_coins"
    using blocks_extend_chain [OF wire_env_runtime wire_env_order g(2)] second_extends g(3)
    by (auto simp: utxo_of_blocks_def second_get)
  have "utxo_steps wire_env [spending_transaction] genesis_coins (4164, 0) = None"
    "utxo_steps wire_env [spending_transaction] genesis_coins (4027, 0) = Some (TransactionOutput_new 40 555)"
    by (simp_all add: utxo_step_def spending_transaction_hash)
      (simp_all add: spending_transaction_def Transaction_new_def TransactionInput_new_def coin_key_def)
  with g(1) e show ?thesis by metis
qed

text \<open>C3. On a file system without data files the constructor yields a chain of one block, the genesis
  block, with room for any number of blocks below the limit of the file numbers, and its outputs as the unspent ones.\<close>

theorem chain_new_genesis:
  assumes "protobuf_runtime (runtime_of E)" "order_ok E" "fresh_fs fs" "k < 65535"
  shows "\<exists>ch fs'. Chain_new E fs = Inr (ch, fs') \<and> chain_holds E k [construct_genesis_block] (ch, fs') \<and>
    coins E (chain_coin_database ch) = utxo_steps E (get_transactions construct_genesis_block) Map.empty"
  by (rule Chain_new_spec [OF assms])

theorem chain_new_genesis_witness:
  "\<exists>ch fs. Chain_new wire_env empty_fs = Inr (ch, fs) \<and> chain_holds wire_env 65534 [construct_genesis_block] (ch, fs) \<and>
     coins wire_env (chain_coin_database ch) (4164, 1) = Some (TransactionOutput_new 200 67891)"
proof -
  have "utxo_steps wire_env (get_transactions construct_genesis_block) Map.empty (4164, 1) = Some (TransactionOutput_new 200 67891)"
    by (simp add: genesis_coins_eq [unfolded genesis_coins_def] genesis_transaction_def Transaction_new_def)
  then show ?thesis
    using chain_new_genesis [OF wire_env_runtime wire_env_order empty_fs_fresh, of 65534] by fastforce
qed

text \<open>C4. A block on top of the chain in which some input names no unspent output is refused: the chain, its
  files and the coins stay as they were.\<close>

theorem invalid_block_refused:
  assumes "protobuf_runtime (runtime_of E)" "chain_holds E k bs (ch, fs)"
    and "previous_block_hash (Block_block_header b) = hash_block E (last bs)" "\<not> block_valid E ch b"
  shows "\<exists>ch'. handle_block E b (ch, fs) = Inr (ch', fs) \<and> chain_holds E k bs (ch', fs) \<and>
    coins E (chain_coin_database ch') = coins E (chain_coin_database ch)"
  using handle_block_rejects [OF assms] by blast

theorem invalid_block_refused_witness:
  "\<exists>ch fs ch'. Chain_new wire_env empty_fs = Inr (ch, fs) \<and> handle_block wire_env bad_block (ch, fs) = Inr (ch', fs) \<and>
     chain_holds wire_env 9 [construct_genesis_block] (ch', fs)"
proof -
  obtain ch fs where g: "Chain_new wire_env empty_fs = Inr (ch, fs)" "chain_holds wire_env 9 [construct_genesis_block] (ch, fs)"
    "coins wire_env (chain_coin_database ch) = genesis_coins" by (rule genesis_state)
  have "\<not> block_valid wire_env ch bad_block"
    by (simp add: block_valid_def g(3) bad_block_def Block_new_def Transaction_new_def TransactionInput_new_def coin_key_def
        genesis_coins_eq dom_def)
  then show ?thesis
    using invalid_block_refused [OF wire_env_runtime g(2), of bad_block] g(1) by (auto simp: bad_previous genesis_hash)
qed

section \<open>Queries\<close>

text \<open>C13. A block that is stored, on the active chain or beside it, can be fetched by its hash after any further covered messages,
  take-overs included, as long as no other block of the same hash is among them (such a block would take its place); fetching it changes nothing
  the ledger speaks of. Stored is every block that is not on top of the chain with an input that is spent.\<close>

theorem chain_block_fetched:
  assumes "protobuf_runtime (runtime_of E)" "order_ok E" "ledger_holds E (length (NewBlock b # later) + k) L (ch, fs)"
    and "deliverables E (NewBlock b # later) L" "res_fold (handle_message E) (NewBlock b # later) (ch, fs) = Inr (ch', fs')"
    and "parent b = hash_block E (last (main_chain L)) \<longrightarrow> spendable (unspent L) b"
    and "\<forall>b'. NewBlock b' \<in> set later \<and> hash_block E b' = hash_block E b \<longrightarrow> b' = b"
  shows "\<exists>L' ch''. ledger_messages E (NewBlock b # later) L = Inr L' \<and>
    get_block E (hash_block E b) fs' ch' = Inr (Some b, ch'') \<and> ledger_holds E k L' (ch'', fs')"
  by (rule ledger_stored_block [OF assms])

theorem chain_block_fetched_witness:
  "\<exists>ch fs ch1 fs1 ch2 fs2 ch3. Chain_new wire_env empty_fs = Inr (ch, fs) \<and> res_fold (handle_message wire_env) early_messages (ch, fs) = Inr (ch1, fs1) \<and>
     res_fold (handle_message wire_env) [NewBlock second_block, NewBlock fork_block, NewBlock fork_tip, NewBlock rival_block] (ch1, fs1) = Inr (ch2, fs2) \<and>
     get_block wire_env 3969 fs2 ch2 = Inr (Some second_block, ch3)"
proof -
  let ?later = "[NewBlock fork_block, NewBlock fork_tip, NewBlock rival_block]"
  have "length early_messages + (length (NewBlock second_block # ?later) + 9) < 65535" by (simp add: early_messages_def)
  from run_state [OF early_run this] obtain ch fs ch1 fs1 where g: "Chain_new wire_env empty_fs = Inr (ch, fs)"
    "res_fold (handle_message wire_env) early_messages (ch, fs) = Inr (ch1, fs1)"
    "ledger_holds wire_env (length (NewBlock second_block # ?later) + 9) early_ledger (ch1, fs1)" .
  have "node_holds wire_env (length (NewBlock second_block # ?later) + 9) early_ledger (ch1, fs1)"
    using g(3) wire_env_runtime wire_env_order by (simp add: node_holds_def)
  from node.sim_run_Inr [OF this late_run] obtain ch2 fs2 where
    run: "res_fold (handle_message wire_env) (NewBlock second_block # ?later) (ch1, fs1) = Inr (ch2, fs2)" by auto
  have "\<forall>b'. NewBlock b' \<in> set ?later \<and> hash_block wire_env b' = hash_block wire_env second_block \<longrightarrow> b' = second_block"
    by (auto simp: ledger_eval)
  moreover have "spendable (unspent early_ledger) second_block" using second_spendable by (simp add: early_ledger_def wire_genesis_ledger)
  ultimately obtain ch3 where "get_block wire_env (hash_block wire_env second_block) fs2 ch2 = Inr (Some second_block, ch3)"
    using chain_block_fetched [OF wire_env_runtime wire_env_order g(3) late_run(1) run] by auto
  then show ?thesis using g(1,2) run by (auto simp: second_hash)
qed

text \<open>C14. \<open>get_active_chain\<close> returns the blocks with heights from \<open>start\<close> to \<open>stop\<close>, oldest first, with the bounds
  clamped to the chain and an empty list when they are out of order.\<close>

theorem active_chain_blocks:
  assumes "protobuf_runtime (runtime_of E)" "ledger_holds E k L (ch, fs)" "unat start < 2 ^ 31"
  shows "\<exists>ch'. get_active_chain E start stop fs ch = Inr (map Some (chain_slice start stop (main_chain L)), ch') \<and> ledger_holds E k L (ch', fs)"
  by (rule ledger_active_chain(1) [OF assms])

theorem active_chain_blocks_witness:
  "\<exists>ch fs ch1 fs1 ch2. Chain_new wire_env empty_fs = Inr (ch, fs) \<and> res_fold (handle_message wire_env) reorganisation (ch, fs) = Inr (ch1, fs1) \<and>
     get_active_chain wire_env 2 9 fs1 ch1 = Inr ([Some fork_block, Some fork_tip, Some rival_block], ch2)"
proof -
  have "length reorganisation + 9 < 65535" by (simp add: reorganisation_def reorganised_chain_def delivery_def)
  from run_state [OF reorganisation_ledger this] obtain ch fs ch1 fs1 where g: "Chain_new wire_env empty_fs = Inr (ch, fs)"
    "res_fold (handle_message wire_env) reorganisation (ch, fs) = Inr (ch1, fs1)" "ledger_holds wire_env 9 rival_ledger (ch1, fs1)" .
  have "main_chain rival_ledger = [construct_genesis_block, fork_block, fork_tip, rival_block]"
    by (simp add: rival_ledger_def append_block_def forked_ledger_def)
  then show ?thesis
    using active_chain_blocks [OF wire_env_runtime g(3), of 2 9] g(1,2) by (auto simp: chain_slice_def)
qed

text \<open>C15. \<open>get_active_chain_hashes\<close> returns the hashes of the same blocks.\<close>

theorem active_chain_hashes:
  assumes "protobuf_runtime (runtime_of E)" "ledger_holds E k L (ch, fs)" "unat start < 2 ^ 31"
  shows "\<exists>ch'. get_active_chain_hashes E start stop ch = Inr (map (hash_block E) (chain_slice start stop (main_chain L)), ch') \<and>
    ledger_holds E k L (ch', fs)"
  by (rule ledger_active_chain(2) [OF assms])

theorem active_chain_hashes_witness:
  "\<exists>ch fs ch1 fs1 ch2. Chain_new wire_env empty_fs = Inr (ch, fs) \<and> res_fold (handle_message wire_env) delivery (ch, fs) = Inr (ch1, fs1) \<and>
     get_active_chain_hashes wire_env 0 9 ch1 = Inr ([4539, 3969], ch2)"
proof -
  obtain ch fs ch1 fs1 where g: "Chain_new wire_env empty_fs = Inr (ch, fs)" "res_fold (handle_message wire_env) delivery (ch, fs) = Inr (ch1, fs1)"
    "ledger_holds wire_env 9 fork_ledger (ch1, fs1)" by (rule fork_state)
  have "main_chain fork_ledger = [construct_genesis_block, second_block]" by (simp add: fork_ledger_def)
  then show ?thesis
    using active_chain_hashes [OF wire_env_runtime g(3), of 0 9] g(1,2) by (auto simp: chain_slice_def genesis_hash second_hash)
qed

text \<open>C16. \<open>get_chain_length\<close> gives the height of the block of any hash, on the active chain or beside it: one more than that of its
  predecessor, and zero when no block of that hash was stored.\<close>

theorem chain_heights:
  assumes "ledger_holds E k L (ch, fs)"
  shows "\<exists>ch'. get_chain_length E h ch = Inr (of_nat (heights L h), ch') \<and> ledger_holds E k L (ch', fs)"
  by (rule ledger_get_chain_length [OF assms])

theorem chain_heights_witness:
  "\<exists>ch fs ch1 fs1 ch2 ch3. Chain_new wire_env empty_fs = Inr (ch, fs) \<and> res_fold (handle_message wire_env) delivery (ch, fs) = Inr (ch1, fs1) \<and>
     get_chain_length wire_env 4013 ch1 = Inr (2, ch2) \<and> get_chain_length wire_env 77 ch1 = Inr (0, ch3)"
proof -
  obtain ch fs ch1 fs1 where g: "Chain_new wire_env empty_fs = Inr (ch, fs)" "res_fold (handle_message wire_env) delivery (ch, fs) = Inr (ch1, fs1)"
    "ledger_holds wire_env 9 fork_ledger (ch1, fs1)" by (rule fork_state)
  have "heights fork_ledger 4013 = 2" "heights fork_ledger 77 = 0" by (simp_all add: fork_ledger_def)
  then show ?thesis
    using chain_heights [OF g(3), of 4013] chain_heights [OF g(3), of 77] g(1,2) by auto
qed

text \<open>C17. Whatever covered messages are handled, the active chain never gets shorter and its first block stays the genesis block.\<close>

theorem active_chain_never_shrinks:
  assumes "protobuf_runtime (runtime_of E)" "order_ok E" "ledger_holds E (length msgs + k) L (ch, fs)" "deliverables E msgs L"
    and "res_fold (handle_message E) msgs (ch, fs) = Inr (ch', fs')"
  shows "get_active_chain_length ch \<le> get_active_chain_length ch' \<and>
    (\<exists>ch''. get_active_chain E 1 1 fs' ch' = Inr ([Some construct_genesis_block], ch''))"
  using ledger_run_grows [OF assms] by simp

theorem active_chain_never_shrinks_witness:
  "\<exists>ch fs ch1 fs1 ch2 fs2 ch3. Chain_new wire_env empty_fs = Inr (ch, fs) \<and>
     res_fold (handle_message wire_env) reorganised_chain (ch, fs) = Inr (ch1, fs1) \<and>
     res_fold (handle_message wire_env) [NewBlock rival_block] (ch1, fs1) = Inr (ch2, fs2) \<and>
     get_active_chain_length ch1 \<le> get_active_chain_length ch2 \<and>
     get_active_chain wire_env 1 1 fs2 ch2 = Inr ([Some construct_genesis_block], ch3)"
proof -
  have "length reorganised_chain + (length [NewBlock rival_block] + 8) < 65535" by (simp add: reorganised_chain_def delivery_def)
  from run_state [OF reorganised_run this] obtain ch fs ch1 fs1 where g: "Chain_new wire_env empty_fs = Inr (ch, fs)"
    "res_fold (handle_message wire_env) reorganised_chain (ch, fs) = Inr (ch1, fs1)"
    "ledger_holds wire_env (length [NewBlock rival_block] + 8) forked_ledger (ch1, fs1)" .
  have ok: "deliverables wire_env [NewBlock rival_block] forked_ledger"
    using rival_appended by (simp del: deliverable.simps ledger_message.simps)
  have "ledger_messages wire_env [NewBlock rival_block] forked_ledger = Inr rival_ledger"
    using rival_appended by (simp del: ledger_message.simps)
  moreover have "node_holds wire_env (length [NewBlock rival_block] + 8) forked_ledger (ch1, fs1)"
    using g(3) wire_env_runtime wire_env_order by (simp add: node_holds_def)
  ultimately obtain ch2 fs2 where "res_fold (handle_message wire_env) [NewBlock rival_block] (ch1, fs1) = Inr (ch2, fs2)"
    using node.sim_run_Inr [OF _ ok] by (metis prod.exhaust_sel)
  with active_chain_never_shrinks [OF wire_env_runtime wire_env_order g(3) ok this] g(1,2) show ?thesis by blast
qed

text \<open>C18. \<open>get_undo_blocks_queue\<close> reads back the undo blocks of the blocks above the given height, newest first, and nothing for
  height zero or a height above the chain.\<close>

theorem undo_queue_newest_first:
  assumes "protobuf_runtime (runtime_of E)" "chain_holds E k bs (ch, fs)"
  shows "\<exists>ch'. get_undo_blocks_queue E n fs ch =
      Inr (if n = 0 then [] else map (undo_of E) (rev (drop (unat n) bs)), ch') \<and> same_records E ch ch'"
  by (rule undo_queue_at [OF assms])

theorem undo_queue_newest_first_witness:
  "\<exists>ch fs ch1 fs1 ch2. Chain_new wire_env empty_fs = Inr (ch, fs) \<and> handle_block wire_env second_block (ch, fs) = Inr (ch1, fs1) \<and>
     get_undo_blocks_queue wire_env 1 fs1 ch1 = Inr ([UndoBlock_new [4027] [UndoCoinRecord_new 0 [0] [40] [555]]], ch2)"
proof -
  obtain ch fs ch1 fs1 where g: "Chain_new wire_env empty_fs = Inr (ch, fs)" "handle_block wire_env second_block (ch, fs) = Inr (ch1, fs1)"
    "chain_holds wire_env 8 [construct_genesis_block, second_block] (ch1, fs1)" by (rule second_state)
  have "hash_transaction wire_env spending_transaction = 4027" by (rule spending_transaction_hash)
  then have "undo_of wire_env second_block = UndoBlock_new [4027] [UndoCoinRecord_new 0 [0] [40] [555]]"
    by (simp add: Let_def hash_transaction_def undo_of_def make_undo_block_def second_get make_undo_step_def undo_block_trim_def undo_trim_def UndoBlock_new_def
        UndoCoinRecord_new_def spending_transaction_def Transaction_new_def TransactionInput_new_def TransactionOutput_new_def)
  then show ?thesis using undo_queue_newest_first [OF wire_env_runtime g(3), of 1] g(1,2) by auto
qed

section \<open>Forks\<close>

text \<open>C21. The stack that is to be applied when a fork takes over does not hold the blocks of the fork: for every branch that leaves
  the chain it consists of one block, the last one both share.\<close>

theorem forked_stack_is_the_ancestor:
  assumes "protobuf_runtime (runtime_of E)" "chain_reads E k bs (ch, fs)" "branch E (block_info_database ch) fs ys"
    and "1 \<le> fork_point E bs ys" "fork_point E bs ys < length bs" "fork_point E bs ys < length ys" "length ys < 2 ^ 31"
  shows "\<exists>ch'. get_forked_blocks_stack E (hash_block E (last ys)) fs ch = Inr ([Some (bs ! (fork_point E bs ys - 1))], ch') \<and> same_records E ch ch'"
  using fork_stack [OF assms(1,2) branch_forked [OF assms(3) refl assms(4-7)]] assms(6) by (simp add: last_map)

theorem forked_stack_is_the_ancestor_witness:
  "\<exists>ch fs ch1 fs1 ch2. Chain_new wire_env empty_fs = Inr (ch, fs) \<and> res_fold (handle_message wire_env) delivery (ch, fs) = Inr (ch1, fs1) \<and>
     get_forked_blocks_stack wire_env 4013 fs1 ch1 = Inr ([Some construct_genesis_block], ch2)"
proof -
  obtain ch fs ch1 fs1 where g: "Chain_new wire_env empty_fs = Inr (ch, fs)" "res_fold (handle_message wire_env) delivery (ch, fs) = Inr (ch1, fs1)"
    "chain_reads wire_env (Suc 8) [construct_genesis_block, second_block] (ch1, fs1)"
    "branch wire_env (block_info_database ch1) fs1 [construct_genesis_block, fork_block]" using fork_state by metis
  from forked_stack_is_the_ancestor [OF wire_env_runtime g(3,4)] g(1,2) show ?thesis
    by (fastforce simp: fork_point_eval ledger_eval)
qed

text \<open>C19. A block on a branch as long as the chain: afterwards the branch, with the block on top, is the chain and can be read as such.
  But of the coins of the old chain none is undone and none of the branch's blocks is applied: the coin database is given the transactions of the
  last shared block a second time. If a block above the first has no transactions or no undo block, the result is undefined.\<close>

theorem take_over_applies_the_ancestor:
  assumes "protobuf_runtime (runtime_of E)" "coin_inv E (chain_coin_database ch)" "chain_reads E (Suc k) bs (ch, fs)"
    and "branch E (block_info_database ch) fs ys" "length ys = length bs" "1 \<le> fork_point E bs ys"
    and "Block_weight b < 1000" "previous_block_hash (Block_block_header b) = hash_block E (last ys)"
    and "hash_block E (last ys) \<noteq> hash_block E (last bs)" "hash_block E b \<notin> hash_block E ` (set bs \<union> set ys)"
    and "\<forall>x \<in> set (tl bs). undoable E (block_info_database ch) fs x \<or> undo_lost E (block_info_database ch) x"
  shows "\<exists>c ch1 fs1. only_reads E (chain_coin_database ch) c \<and> chain_reads E k (ys @ [b]) (ch1, fs1) \<and>
    handle_block E b (ch, fs) =
      (if list_all (reversible_block E (block_info_database ch) fs) (tl bs)
       then res_bind (CoinDatabase_store_block E (get_transactions (bs ! (fork_point E bs ys - 1))) c) (\<lambda>c'.
         Inr (ch1\<lparr>chain_coin_database := c'\<rparr>, fs1))
       else Inl UB_index_out_of_range)"
  using handle_block_takes_over [OF assms] validated_reads by blast

theorem take_over_applies_the_ancestor_witness:
  "\<exists>ch fs ch1 fs1 c ch2 fs2. Chain_new wire_env empty_fs = Inr (ch, fs) \<and> res_fold (handle_message wire_env) delivery (ch, fs) = Inr (ch1, fs1) \<and>
     chain_reads wire_env 8 [construct_genesis_block, fork_block, fork_tip] (ch2, fs2) \<and>
     handle_block wire_env fork_tip (ch1, fs1) = res_bind (CoinDatabase_store_block wire_env [genesis_transaction] c) (\<lambda>c'.
       Inr (ch2\<lparr>chain_coin_database := c'\<rparr>, fs2))"
proof -
  obtain ch fs ch1 fs1 where g: "Chain_new wire_env empty_fs = Inr (ch, fs)" "res_fold (handle_message wire_env) delivery (ch, fs) = Inr (ch1, fs1)"
    "coin_inv wire_env (chain_coin_database ch1)" "chain_reads wire_env (Suc 8) [construct_genesis_block, second_block] (ch1, fs1)"
    "branch wire_env (block_info_database ch1) fs1 [construct_genesis_block, fork_block]"
    "list_all (reversible_block wire_env (block_info_database ch1) fs1) [second_block]" using fork_state by metis
  have "undoable wire_env (block_info_database ch1) fs1 second_block" using g(6) by (simp add: reversible_block_def)
  with take_over_applies_the_ancestor [OF wire_env_runtime g(3-5), of fork_tip] g(1,2,6) show ?thesis
    by (fastforce simp: fork_point_eval ledger_eval)
qed

text \<open>C20. When a fork takes over, money is created: if the last shared block has transactions without inputs, as the genesis block has, and
  the coins are still in the cache, then every output of it that was spent on the active chain is unspent again, while the outputs
  that it was spent on stay unspent too.\<close>

theorem take_over_resurrects_coins:
  assumes "protobuf_runtime (runtime_of E)" "coin_inv E (chain_coin_database ch)" "chain_reads E (Suc k) bs (ch, fs)"
    and "branch E (block_info_database ch) fs ys" "length ys = length bs" "1 \<le> fork_point E bs ys"
    and "Block_weight b < 1000" "previous_block_hash (Block_block_header b) = hash_block E (last ys)"
    and "hash_block E (last ys) \<noteq> hash_block E (last bs)" "hash_block E b \<notin> hash_block E ` (set bs \<union> set ys)"
    and "list_all (reversible_block E (block_info_database ch) fs) (tl bs)" "txs = get_transactions (bs ! (fork_point E bs ys - 1))"
    and "list_all (\<lambda>tx. transaction_inputs tx = []) txs" "list_all (not_in_store E (chain_coin_database ch)) txs"
    and "unat (main_cache_size (chain_coin_database ch)) + outputs_of txs \<le> 70"
  shows "\<exists>ch' fs'. handle_block E b (ch, fs) = Inr (ch', fs') \<and> chain_reads E k (ys @ [b]) (ch', fs') \<and>
    coins E (chain_coin_database ch') = utxo_again E txs (coins E (chain_coin_database ch))"
  using handle_block_resurrects [OF assms] by blast

theorem take_over_resurrects_coins_witness:
  "\<exists>ch fs ch1 fs1 ch2 fs2. Chain_new wire_env empty_fs = Inr (ch, fs) \<and> res_fold (handle_message wire_env) delivery (ch, fs) = Inr (ch1, fs1) \<and>
     handle_block wire_env fork_tip (ch1, fs1) = Inr (ch2, fs2) \<and>
     coins wire_env (chain_coin_database ch1) (4164, 0) = None \<and>
     coins wire_env (chain_coin_database ch2) (4164, 0) = Some (TransactionOutput_new 100 12345) \<and>
     coins wire_env (chain_coin_database ch2) (4027, 0) = Some (TransactionOutput_new 40 555)"
proof -
  obtain ch fs ch1 fs1 where g: "Chain_new wire_env empty_fs = Inr (ch, fs)" "res_fold (handle_message wire_env) delivery (ch, fs) = Inr (ch1, fs1)"
    "coin_inv wire_env (chain_coin_database ch1)" "chain_reads wire_env (Suc 8) [construct_genesis_block, second_block] (ch1, fs1)"
    "branch wire_env (block_info_database ch1) fs1 [construct_genesis_block, fork_block]"
    "list_all (reversible_block wire_env (block_info_database ch1) fs1) [second_block]"
    "coins wire_env (chain_coin_database ch1) = second_coins" "unflushed wire_env 4 (chain_coin_database ch1)" using fork_state by metis
  have store: "list_all (not_in_store wire_env (chain_coin_database ch1)) [genesis_transaction]"
    "unat (main_cache_size (chain_coin_database ch1)) + outputs_of [genesis_transaction] \<le> 70"
    using g(8) unflushed_not_in_store [OF g(8)] by (simp_all add: unflushed_def outputs_eval del: outputs_of_simps)
  have "list_all (\<lambda>tx. transaction_inputs tx = []) [genesis_transaction]" by (simp add: genesis_transaction_def Transaction_new_def)
  from take_over_resurrects_coins [OF wire_env_runtime g(3-5), of fork_tip "[genesis_transaction]", OF _ _ _ _ _ _ _ _ this store] g(6)
  obtain ch2 fs2 where "handle_block wire_env fork_tip (ch1, fs1) = Inr (ch2, fs2)" "coins wire_env (chain_coin_database ch2) = forked_coins"
    by (auto simp: fork_point_eval ledger_eval forked_coins_def g(7))
  with g(1,2,7) forked_coins_at(1,2) second_coins_at(1) show ?thesis by metis
qed

text \<open>C22. After a reorganisation the next one is fatal: a block that comes higher than the chain while one of the blocks above the first is there without its undo
  block (stored as part of a branch, or stored a second time) or without transactions makes the program read out of range.\<close>

theorem second_take_over_undefined:
  assumes "protobuf_runtime (runtime_of E)" "ledger_holds E (Suc k) L (ch, fs)"
    and "previous_block_hash (Block_block_header b) \<noteq> hash_block E (last (main_chain L))"
    and "\<not> Suc (heights L (previous_block_hash (Block_block_header b))) \<le> length (main_chain L)"
    and "deliverable E (NewBlock b) L" "\<not> undo_possible E L"
  shows "handle_block E b (ch, fs) = Inl UB_index_out_of_range"
  by (rule ledger_stuck [OF assms])

theorem second_take_over_undefined_witness:
  "\<exists>ch fs ch1 fs1. Chain_new wire_env empty_fs = Inr (ch, fs) \<and>
     res_fold (handle_message wire_env) (reorganised_chain @ [NewBlock third_block]) (ch, fs) = Inr (ch1, fs1) \<and>
     handle_block wire_env fourth_block (ch1, fs1) = Inl UB_index_out_of_range"
proof -
  have "length (reorganised_chain @ [NewBlock third_block]) + Suc 8 < 65535" by (simp add: reorganised_chain_def delivery_def)
  from run_state [OF stuck_run this] obtain ch fs ch1 fs1 where g: "Chain_new wire_env empty_fs = Inr (ch, fs)"
    "res_fold (handle_message wire_env) (reorganised_chain @ [NewBlock third_block]) (ch, fs) = Inr (ch1, fs1)"
    "ledger_holds wire_env (Suc 8) stuck_ledger (ch1, fs1)" .
  from second_take_over_undefined [OF wire_env_runtime g(3) fourth_higher fourth_stuck(1) stuck_irreversible] g(1,2) show ?thesis by blast
qed

text \<open>C23. A transaction that was stored with its block and is then sent again is not kept, but it makes a later take-over undefined: if
  the last shared block begins with that transaction, applying it again finds the empty record that looking its input up has
  left, and erases at its end.\<close>

theorem rebroadcast_breaks_take_over:
  assumes "protobuf_runtime (runtime_of E)" "order_ok E" "ledger_holds E (Suc (Suc k)) L (ch, fs)" "deliverable E (NewBlock b) L"
    and "previous_block_hash (Block_block_header b) \<noteq> hash_block E (last (main_chain L))"
    and "length (main_chain L) < Suc (heights L (previous_block_hash (Block_block_header b)))" "undo_possible E L"
    and "transactions (shared_block E b L) = tx # txs" "transaction_inputs tx = i # is" "coin_key i \<notin> dom (unspent L)"
  shows "\<exists>ch'. handle_transaction E tx ch = Inr ch' \<and> handle_block E b (ch', fs) = Inl UB_erase_at_end"
  by (rule ledger_rebroadcast [OF assms])

theorem rebroadcast_breaks_take_over_witness:
  "\<exists>ch fs ch1 fs1 ch2 fs2 ch3. Chain_new wire_env empty_fs = Inr (ch, fs) \<and>
     res_fold (handle_message wire_env) [NewBlock second_block, NewBlock idle_block, NewBlock third_block] (ch, fs) = Inr (ch1, fs1) \<and>
     handle_block wire_env fourth_block (ch1, fs1) = Inr (ch2, fs2) \<and>
     chain_reads wire_env 8 [construct_genesis_block, second_block, third_block, fourth_block] (ch2, fs2) \<and>
     handle_transaction wire_env spending_transaction ch1 = Inr ch3 \<and> handle_block wire_env fourth_block (ch3, fs1) = Inl UB_erase_at_end"
proof -
  obtain ch fs ch1 fs1 where g: "Chain_new wire_env empty_fs = Inr (ch, fs)" "res_fold (handle_message wire_env) idle_chain (ch, fs) = Inr (ch1, fs1)"
    "ledger_holds wire_env (Suc (Suc 7)) idle_ledger (ch1, fs1)" by (rule idle_state)
  have "agree (ledger_holds wire_env (Suc 7)) (Inr overtaken_ledger) (handle_block wire_env fourth_block (ch1, fs1))"
    using ledger_step [OF wire_env_runtime wire_env_order g(3) idle_delivered] idle_taken_over by simp
  then obtain ch2 fs2 where t: "handle_block wire_env fourth_block (ch1, fs1) = Inr (ch2, fs2)" "ledger_holds wire_env (Suc 7) overtaken_ledger (ch2, fs2)"
    by (auto simp: agree_Inr)
  have "transactions (shared_block wire_env fourth_block idle_ledger) = [spending_transaction]" by (simp add: idle_shared second_get)
  moreover have "transaction_inputs spending_transaction = [TransactionInput_new 4164 0 77]"
    by (simp add: spending_transaction_def Transaction_new_def)
  moreover have "coin_key (TransactionInput_new 4164 0 77) \<notin> dom (unspent idle_ledger)"
    using second_coins_at(1) by (simp add: idle_ledger_def coin_key_def TransactionInput_new_def domIff)
  ultimately obtain ch3 where "handle_transaction wire_env spending_transaction ch1 = Inr ch3" "handle_block wire_env fourth_block (ch3, fs1) = Inl UB_erase_at_end"
    using rebroadcast_breaks_take_over [OF wire_env_runtime wire_env_order g(3) idle_delivered idle_higher] by blast
  moreover have "chain_reads wire_env 8 [construct_genesis_block, second_block, third_block, fourth_block] (ch2, fs2)"
    using ledger_holds_parts(1) [OF t(2)] by (simp add: overtaken_parts)
  ultimately show ?thesis using g(1,2) t(1) unfolding idle_chain_def by blast
qed

text \<open>C24. A block of the active chain that arrives again is stored a second time: the chain and the coins stay, the block can still be
  fetched, but its record now has the dummy location where the location of its undo block was.\<close>

theorem redelivered_block_loses_undo:
  assumes "protobuf_runtime (runtime_of E)" "coin_inv E (chain_coin_database ch)" "chain_reads E (Suc k) bs (ch, fs)"
    and "Suc i < length bs" "Block_weight (bs ! Suc i) < 1000"
  shows "\<exists>ch' fs' r ch''. handle_block E (bs ! Suc i) (ch, fs) = Inr (ch', fs') \<and> chain_reads E k bs (ch', fs') \<and>
    coins E (chain_coin_database ch') = coins E (chain_coin_database ch) \<and>
    record_of (runtime_of E) (block_info_database ch') (hash_block E (bs ! Suc i)) = Inr r \<and>
    undo_location r = FileInfo_new '''' 0 0 \<and> get_block E (hash_block E (bs ! Suc i)) fs' ch' = Inr (Some (bs ! Suc i), ch'')"
  using handle_block_again [OF assms] by blast

theorem redelivered_block_loses_undo_witness:
  "\<exists>ch fs ch1 fs1 ch2 fs2 r. Chain_new wire_env empty_fs = Inr (ch, fs) \<and>
     handle_block wire_env second_block (ch, fs) = Inr (ch1, fs1) \<and> handle_block wire_env second_block (ch1, fs1) = Inr (ch2, fs2) \<and>
     record_of wire_format (block_info_database ch2) 3969 = Inr r \<and> undo_location r = FileInfo_new '''' 0 0"
proof -
  obtain ch fs ch1 fs1 where g: "Chain_new wire_env empty_fs = Inr (ch, fs)" "handle_block wire_env second_block (ch, fs) = Inr (ch1, fs1)"
    "chain_holds wire_env 8 [construct_genesis_block, second_block] (ch1, fs1)" by (rule second_state)
  note h = chain_holds_parts [OF g(3)]
  have "chain_reads wire_env (Suc 7) [construct_genesis_block, second_block] (ch1, fs1)" using h(1) by simp
  from redelivered_block_loses_undo [OF wire_env_runtime h(2) this, of 0] g(1,2) show ?thesis
    by (fastforce simp: second_weight second_hash)
qed

text \<open>C25. A block whose predecessor is unknown is not refused: it is stored beside the chain with the height of the genesis block,
  and can be fetched.\<close>

theorem orphan_block_stored:
  assumes "protobuf_runtime (runtime_of E)" "chain_holds E (Suc k) bs (ch, fs)" "Block_weight b < 1000"
    and "\<not> Database_has (to_string (unat (previous_block_hash (Block_block_header b)))) (info_database (block_info_database ch))"
    and "hash_block E b \<notin> hash_block E ` set bs"
  shows "\<exists>ch' fs' ch'' ch'''. handle_block E b (ch, fs) = Inr (ch', fs') \<and> chain_holds E k bs (ch', fs') \<and>
    coins E (chain_coin_database ch') = coins E (chain_coin_database ch) \<and>
    get_chain_length E (hash_block E b) ch' = Inr (1, ch'') \<and> get_block E (hash_block E b) fs' ch' = Inr (Some b, ch''')"
  by (rule handle_block_orphan [OF assms])

theorem orphan_block_stored_witness:
  "\<exists>ch fs ch1 fs1 ch2. Chain_new wire_env empty_fs = Inr (ch, fs) \<and> handle_block wire_env fork_tip (ch, fs) = Inr (ch1, fs1) \<and>
     chain_holds wire_env 8 [construct_genesis_block] (ch1, fs1) \<and> get_chain_length wire_env 4311 ch1 = Inr (1, ch2)"
proof -
  obtain ch fs where g: "Chain_new wire_env empty_fs = Inr (ch, fs)" "chain_holds wire_env 9 [construct_genesis_block] (ch, fs)"
    by (rule genesis_state)
  have "chain_holds wire_env (Suc 8) [construct_genesis_block] (ch, fs)" using g(2) by simp
  from orphan_block_stored [OF wire_env_runtime this, of fork_tip] genesis_known [OF g(1)] g(1) show ?thesis
    by (fastforce simp: ledger_eval)
qed

section \<open>Transactions\<close>

text \<open>C26. A transaction whose inputs are all unspent enters the mempool while the counter of the mempool is below its capacity, unless there
  is one under its hash already, and is counted; no other does. It is not kept as it was sent: its version and lock time are replaced by zero, and it is the
  hash of that copy under which it is kept. The coins stay as they are.\<close>

theorem transaction_handled:
  assumes "coin_inv E (chain_coin_database ch)"
  shows "\<exists>c'. handle_transaction E tx ch = Inr (ch\<lparr>chain_coin_database := c'\<rparr>) \<and> coin_inv E c' \<and>
    coins E c' = coins E (chain_coin_database ch) \<and>
    (let c = chain_coin_database ch;
         kept = Transaction_new (transaction_inputs tx) (transaction_outputs tx) 0 0;
         accepted = (list_all (\<lambda>i. coin_key i \<in> dom (coins E c)) (transaction_inputs tx) \<and> mempool_size c \<noteq> mempool_capacity c)
     in mempool_cache c' = (if accepted then [hash_transaction E kept \<mapsto> kept] ++ mempool_cache c else mempool_cache c) \<and>
        mempool_size c' = (if accepted then mempool_size c + 1 else mempool_size c))"
  by (rule handle_transaction_spec [OF assms])

theorem transaction_handled_witness:
  "\<exists>ch fs c'. Chain_new wire_env empty_fs = Inr (ch, fs) \<and>
     handle_transaction wire_env (spending_transaction\<lparr>Transaction_version := 9\<rparr>) ch = Inr (ch\<lparr>chain_coin_database := c'\<rparr>) \<and>
     mempool_cache (chain_coin_database ch) = Map.empty \<and> mempool_cache c' = [4027 \<mapsto> spending_transaction] \<and> mempool_size c' = 1 \<and>
     hash_transaction wire_env (spending_transaction\<lparr>Transaction_version := 9\<rparr>) = 3823"
proof -
  obtain ch fs where g: "Chain_new wire_env empty_fs = Inr (ch, fs)" "chain_holds wire_env 9 [construct_genesis_block] (ch, fs)"
    "coins wire_env (chain_coin_database ch) = genesis_coins" by (rule genesis_state)
  let ?c = "chain_coin_database ch" and ?tx = "spending_transaction\<lparr>Transaction_version := 9\<rparr>"
  have kept: "Transaction_new (transaction_inputs spending_transaction) (transaction_outputs spending_transaction) 0 0 = spending_transaction"
    by (simp add: spending_transaction_def Transaction_new_def)
  have s: "list_all (\<lambda>i. coin_key i \<in> dom genesis_coins) (transaction_inputs spending_transaction)"
    using spending_applicable by (simp add: tx_applicable_def)
  note m = genesis_mempool [OF g(1)]
  have "mempool_size ?c \<noteq> mempool_capacity ?c" by (simp add: m)
  with transaction_handled [OF chain_holds_parts(2) [OF g(2)], of ?tx] obtain c' where
    "handle_transaction wire_env ?tx ch = Inr (ch\<lparr>chain_coin_database := c'\<rparr>)"
    "mempool_cache c' = [hash_transaction wire_env spending_transaction \<mapsto> spending_transaction] ++ mempool_cache ?c"
    "mempool_size c' = mempool_size ?c + 1"
    unfolding Let_def g(3) using s by (auto simp: kept)
  then show ?thesis using g(1) m sent_transaction_hash by (auto simp: spending_transaction_hash)
qed

end
